(* ===== verification/Jet_Prelude.thy ===== *)
theory Jet_Prelude
  imports Complex_Main "HOL-Library.Word"
begin

text \<open>
  Shared vocabulary of the JetSocket development: the types every component uses, the
  collections its automation draws on, and the generic facts about lists and results that are
  needed in more than one component.

  \<^item> A Python \<^verbatim>\<open>bytes\<close> value is a list of 8-bit words.
  \<^item> A Python \<^verbatim>\<open>float\<close> (a delay, a clock reading, a configuration value) is a rational
    number: rounding is not modelled; the one place where the size of a double is observable
    (the overflow of \<^verbatim>\<open>**\<close>) is written out in \<^verbatim>\<open>Jet_Backoff\<close>.
  \<^item> A call that may raise returns a sum: \<^verbatim>\<open>Inl\<close> carries the exception.
\<close>

unbundle bit_operations_syntax

type_synonym byte = "8 word"
type_synonym bytes = "byte list"
type_synonym pyfloat = rat

named_theorems jet_inv \<open>preservation of the components' invariants\<close>

subsection \<open>Results that may be an exception\<close>

definition bind_result :: "'e + 'a \<Rightarrow> ('a \<Rightarrow> 'e + 'b) \<Rightarrow> 'e + 'b" where
  "bind_result r f = (case r of Inl e \<Rightarrow> Inl e | Inr a \<Rightarrow> f a)"

lemma bind_result_simps [simp]:
  "bind_result (Inl e) f = Inl e"
  "bind_result (Inr a) f = f a"
  by (simp_all add: bind_result_def)

lemma bind_result_Inr_conv:
  "bind_result r f = Inr b \<longleftrightarrow> (\<exists>a. r = Inr a \<and> f a = Inr b)"
  by (cases r) simp_all

subsection \<open>Lists\<close>

lemma take_drop_append_short [simp]:
  "n \<le> length xs \<Longrightarrow> take n (xs @ ys) = take n xs"
  by simp

lemma slice_append:
  "i + n \<le> length xs \<Longrightarrow> take n (drop i (xs @ ys)) = take n (drop i xs)"
  by simp

lemma drop_append_le: "n \<le> length xs \<Longrightarrow> drop n (xs @ ys) = drop n xs @ ys"
  by simp

lemma map2_take_drop_append:
  assumes "length xs = length ys"
  shows "map2 f (xs @ us) (ys @ vs) = map2 f xs ys @ map2 f us vs"
  using assms by simp

lemma rev_induct_length:
  assumes "length xs = Suc n"
  obtains ys y where "xs = ys @ [y]" and "length ys = n"
  using assms by (cases xs rule: rev_cases) auto

subsection \<open>Dictionaries\<close>

text \<open>\<^verbatim>\<open>d[k] = v\<close> on a dictionary: the value of an existing key is replaced in place.\<close>

fun dict_set :: "'k \<Rightarrow> 'v \<Rightarrow> ('k \<times> 'v) list \<Rightarrow> ('k \<times> 'v) list" where
  "dict_set k v [] = [(k, v)]"
| "dict_set k v ((k', v') # d) = (if k' = k then (k', v) # d else (k', v') # dict_set k v d)"

lemma map_of_dict_set [simp]: "map_of (dict_set k v d) = (map_of d)(k \<mapsto> v)"
  by (induction d) auto

lemma dict_set_keys [simp]: "fst ` set (dict_set k v d) = insert k (fst ` set d)"
  by (induction k v d rule: dict_set.induct) auto

lemma dict_set_distinct: "distinct (map fst d) \<Longrightarrow> distinct (map fst (dict_set k v d))"
  by (induction k v d rule: dict_set.induct) auto

lemma dict_set_absent: "k \<notin> fst ` set d \<Longrightarrow> dict_set k v d = d @ [(k, v)]"
  by (induction d) auto

lemma set_dict_set:
  "distinct (map fst d) \<Longrightarrow> set (dict_set k v d) = insert (k, v) {e \<in> set d. fst e \<noteq> k}"
  by (induction k v d rule: dict_set.induct) (auto simp: image_iff)

subsection \<open>Invariants of step relations\<close>

text \<open>
  The contract of every step relation of the development: an invariant that each step preserves,
  and a measure that no step increases from a state in which the invariant holds.
\<close>

locale preserved =
  fixes step :: "'s \<Rightarrow> 's \<Rightarrow> bool" and inv :: "'s \<Rightarrow> bool"
  assumes step_keeps: "step s s' \<Longrightarrow> inv s \<Longrightarrow> inv s'"
begin

lemma always: "step\<^sup>*\<^sup>* s s' \<Longrightarrow> inv s \<Longrightarrow> inv s'"
  by (induction rule: rtranclp_induct) (auto intro: step_keeps)

end

locale non_increasing = preserved +
  fixes weight :: "'a \<Rightarrow> nat"
  assumes step_shrinks: "step s s' \<Longrightarrow> inv s \<Longrightarrow> weight s' \<le> weight s"
begin

lemma never_grows: "step\<^sup>*\<^sup>* s s' \<Longrightarrow> inv s \<Longrightarrow> weight s' \<le> weight s"
proof (induction rule: rtranclp_induct)
  case (step t u)
  then show ?case using always [of s t] step_shrinks [of t u] by force
qed simp

end

text \<open>
  A detailed step relation that implements an abstract one: seen through \<^verbatim>\<open>view\<close>, every detailed step is
  a sequence of abstract steps. Abstract invariants then hold of the detailed system.
\<close>

locale simulation =
  fixes concrete :: "'c \<Rightarrow> 'c \<Rightarrow> bool" and abstract :: "'a \<Rightarrow> 'a \<Rightarrow> bool" and view :: "'c \<Rightarrow> 'a"
  assumes simulates: "concrete x y \<Longrightarrow> abstract\<^sup>*\<^sup>* (view x) (view y)"
begin

lemma simulated: "concrete\<^sup>*\<^sup>* x y \<Longrightarrow> abstract\<^sup>*\<^sup>* (view x) (view y)"
  by (induction rule: rtranclp_induct) (auto dest: simulates)

end

subsection \<open>Bytes\<close>

lemma unat_byte_less [simp]: "unat (b :: byte) < 256"
  using unsigned_less [of b, where 'a = nat] by simp

end
