(* ===== verification/Jet_Utf8.thy ===== *)
theory Jet_Utf8
  imports Jet_Prelude
begin

text \<open>
  The UTF-8 codec of Python's \<^verbatim>\<open>str.encode("utf-8")\<close>, \<^verbatim>\<open>bytes.decode("utf-8")\<close> and
  \<^verbatim>\<open>bytes.decode("utf-8", errors="replace")\<close>, which frames, close reasons and the handshake
  use. A Python \<^verbatim>\<open>str\<close> is a list of code points. Strict decoding accepts the well-formed
  sequences of the Unicode standard (no overlong forms, no surrogates, nothing above
  \<^verbatim>\<open>U+10FFFF\<close>); the \<^verbatim>\<open>replace\<close> handler emits \<^verbatim>\<open>U+FFFD\<close> for each maximal ill-formed
  subpart, as CPython does.
\<close>

type_synonym codepoint = nat
type_synonym pystr = "codepoint list"

abbreviation byte_of :: "nat \<Rightarrow> byte" where
  "byte_of \<equiv> of_nat"

definition scalar_value :: "codepoint \<Rightarrow> bool" where
  "scalar_value c \<longleftrightarrow> c < 0xD800 \<or> (0xE000 \<le> c \<and> c \<le> 0x10FFFF)"

subsection \<open>Encoding\<close>

definition utf8_encode_char :: "codepoint \<Rightarrow> bytes" where
  "utf8_encode_char c =
     (if c < 0x80 then [byte_of c]
      else if c < 0x800 then [byte_of (0xC0 + c div 64), byte_of (0x80 + c mod 64)]
      else if c < 0x10000 then
        [byte_of (0xE0 + c div 4096), byte_of (0x80 + c div 64 mod 64), byte_of (0x80 + c mod 64)]
      else [byte_of (0xF0 + c div 262144), byte_of (0x80 + c div 4096 mod 64),
            byte_of (0x80 + c div 64 mod 64), byte_of (0x80 + c mod 64)])"

definition utf8_encode :: "pystr \<Rightarrow> bytes" where
  "utf8_encode s = concat (map utf8_encode_char s)"

subsection \<open>Decoding\<close>

definition is_cont :: "nat \<Rightarrow> bool" where
  "is_cont b \<longleftrightarrow> 0x80 \<le> b \<and> b \<le> 0xBF"

text \<open>The second byte a three- or four-byte sequence may have, by its first byte.\<close>

definition second_ok3 :: "nat \<Rightarrow> nat \<Rightarrow> bool" where
  "second_ok3 b0 b1 \<longleftrightarrow>
     (if b0 = 0xE0 then 0xA0 \<le> b1 \<and> b1 \<le> 0xBF
      else if b0 = 0xED then 0x80 \<le> b1 \<and> b1 \<le> 0x9F else is_cont b1)"

definition second_ok4 :: "nat \<Rightarrow> nat \<Rightarrow> bool" where
  "second_ok4 b0 b1 \<longleftrightarrow>
     (if b0 = 0xF0 then 0x90 \<le> b1 \<and> b1 \<le> 0xBF
      else if b0 = 0xF4 then 0x80 \<le> b1 \<and> b1 \<le> 0x8F else is_cont b1)"

text \<open>
  One step of the decoder at a non-empty input: the code point and the number of bytes of a
  well-formed sequence, or no code point and the length of the maximal ill-formed subpart.
\<close>

definition utf8_head :: "nat list \<Rightarrow> codepoint option \<times> nat" where
  "utf8_head bs =
     (case bs of [] \<Rightarrow> (None, 0)
      | b0 # r0 \<Rightarrow>
        if b0 < 0x80 then (Some b0, 1)
        else if 0xC2 \<le> b0 \<and> b0 \<le> 0xDF then
          (case r0 of
             b1 # _ \<Rightarrow> if is_cont b1 then (Some ((b0 - 0xC0) * 64 + (b1 - 0x80)), 2) else (None, 1)
           | [] \<Rightarrow> (None, 1))
        else if 0xE0 \<le> b0 \<and> b0 \<le> 0xEF then
          (case r0 of
             b1 # r1 \<Rightarrow>
               if second_ok3 b0 b1 then
                 (case r1 of
                    b2 # _ \<Rightarrow>
                      if is_cont b2
                      then (Some ((b0 - 0xE0) * 4096 + (b1 - 0x80) * 64 + (b2 - 0x80)), 3)
                      else (None, 2)
                  | [] \<Rightarrow> (None, 2))
               else (None, 1)
           | [] \<Rightarrow> (None, 1))
        else if 0xF0 \<le> b0 \<and> b0 \<le> 0xF4 then
          (case r0 of
             b1 # r1 \<Rightarrow>
               if second_ok4 b0 b1 then
                 (case r1 of
                    b2 # r2 \<Rightarrow>
                      if is_cont b2 then
                        (case r2 of
                           b3 # _ \<Rightarrow>
                             if is_cont b3
                             then (Some ((b0 - 0xF0) * 262144 + (b1 - 0x80) * 4096
                                     + (b2 - 0x80) * 64 + (b3 - 0x80)), 4)
                             else (None, 3)
                         | [] \<Rightarrow> (None, 3))
                      else (None, 2)
                  | [] \<Rightarrow> (None, 2))
               else (None, 1)
           | [] \<Rightarrow> (None, 1))
        else (None, 1))"

lemma utf8_head_consumes: "0 < snd (utf8_head (b # bs))"
  by (auto simp: utf8_head_def split: list.splits)

lemma utf8_head_le: "snd (utf8_head bs) \<le> length bs"
  by (auto simp: utf8_head_def split: list.splits)

lemma utf8_head_progress:
  "bs \<noteq> [] \<Longrightarrow> (c, n) = utf8_head bs \<Longrightarrow> length bs - n < length bs"
  using utf8_head_consumes [of "hd bs" "tl bs"] by (metis diff_less length_greater_0_conv list.collapse snd_conv)

function decode_strict :: "nat list \<Rightarrow> pystr option" where
  "decode_strict bs =
     (if bs = [] then Some []
      else case utf8_head bs of
        (None, n) \<Rightarrow> None
      | (Some c, n) \<Rightarrow> map_option ((#) c) (decode_strict (drop n bs)))"
  by pat_completeness auto
termination
  by (relation "measure length") (auto intro: utf8_head_progress)

function decode_replace :: "nat list \<Rightarrow> pystr" where
  "decode_replace bs =
     (if bs = [] then []
      else case utf8_head bs of
        (None, n) \<Rightarrow> 0xFFFD # decode_replace (drop n bs)
      | (Some c, n) \<Rightarrow> c # decode_replace (drop n bs))"
  by pat_completeness auto
termination
  by (relation "measure length") (auto intro: utf8_head_progress)

declare decode_strict.simps [simp del] decode_replace.simps [simp del]

definition utf8_decode :: "bytes \<Rightarrow> pystr option" where
  "utf8_decode bs = decode_strict (map unat bs)"

definition utf8_decode_replace :: "bytes \<Rightarrow> pystr" where
  "utf8_decode_replace bs = decode_replace (map unat bs)"

subsection \<open>Round trips\<close>

definition encode_nats :: "codepoint \<Rightarrow> nat list" where
  "encode_nats c = map unat (utf8_encode_char c)"

lemma unat_byte_of: "n < 256 \<Longrightarrow> unat (byte_of n) = n"
  by (simp add: unat_of_nat)

lemma scalar_bound: "scalar_value c \<Longrightarrow> c \<le> 0x10FFFF"
  by (auto simp: scalar_value_def)

lemma encode_nats_eq:
  assumes "scalar_value c"
  shows "encode_nats c =
     (if c < 0x80 then [c]
      else if c < 0x800 then [0xC0 + c div 64, 0x80 + c mod 64]
      else if c < 0x10000 then [0xE0 + c div 4096, 0x80 + c div 64 mod 64, 0x80 + c mod 64]
      else [0xF0 + c div 262144, 0x80 + c div 4096 mod 64, 0x80 + c div 64 mod 64,
            0x80 + c mod 64])"
proof -
  have "c div 262144 < 5" using scalar_bound [OF assms] by (simp add: div_less_iff_less_mult)
  moreover have "c < 0x10000 \<Longrightarrow> c div 4096 < 16" by (simp add: div_less_iff_less_mult)
  moreover have "c < 0x800 \<Longrightarrow> c div 64 < 32" by (simp add: div_less_iff_less_mult)
  moreover have "c mod 64 < 64" "c div 64 mod 64 < 64" "c div 4096 mod 64 < 64" by simp_all
  ultimately show ?thesis
    by (simp add: encode_nats_def utf8_encode_char_def unat_byte_of del: of_nat_add)
qed

lemma div_mod_64:
  fixes c :: nat
  shows "c div 64 * 64 + c mod 64 = c"
    and "c div 4096 * 4096 + c div 64 mod 64 * 64 + c mod 64 = c"
    and "c div 262144 * 262144 + c div 4096 mod 64 * 4096 + c div 64 mod 64 * 64 + c mod 64 = c"
proof -
  have a: "c div 4096 = c div 64 div 64" and b: "c div 262144 = c div 4096 div 64"
    by (simp_all add: div_mult2_eq [symmetric])
  have 1: "c div 64 = c div 4096 * 64 + c div 64 mod 64"
    using div_mult_mod_eq [of "c div 64" 64] by (simp only: a)
  have 2: "c div 4096 = c div 262144 * 64 + c div 4096 mod 64"
    using div_mult_mod_eq [of "c div 4096" 64] by (simp only: b)
  show 3: "c div 64 * 64 + c mod 64 = c" by simp
  show 4: "c div 4096 * 4096 + c div 64 mod 64 * 64 + c mod 64 = c"
    using 1 3 by linarith
  show "c div 262144 * 262144 + c div 4096 mod 64 * 4096 + c div 64 mod 64 * 64 + c mod 64 = c"
    using 2 4 by linarith
qed

lemma utf8_head_encode:
  assumes "scalar_value c"
  shows "utf8_head (encode_nats c @ rest) = (Some c, length (encode_nats c))"
proof -
  consider "c < 0x80" | "0x80 \<le> c" "c < 0x800" | "0x800 \<le> c" "c < 0x10000" | "0x10000 \<le> c"
    by linarith
  then show ?thesis
  proof cases
    case 1
    with assms show ?thesis by (simp add: encode_nats_eq utf8_head_def)
  next
    case 2
    then have "2 \<le> c div 64" "c div 64 < 32" by (simp_all add: div_le_dividend less_eq_div_iff_mult_less_eq div_less_iff_less_mult)
    moreover have "c mod 64 < 64" by simp
    ultimately show ?thesis using 2 assms
      by (simp add: encode_nats_eq utf8_head_def is_cont_def div_mod_64)
  next
    case 3
    then have q: "c div 4096 < 16" by (simp add: div_less_iff_less_mult)
    have m: "c mod 64 \<le> 63" "c div 64 mod 64 \<le> 63" by (simp_all add: less_Suc_eq_le [symmetric])
    have e0: "c div 4096 = 0 \<Longrightarrow> 32 \<le> c div 64 mod 64"
      using 3 div_mod_64(2) [of c] m by linarith
    have ed: "c div 4096 = 13 \<Longrightarrow> c div 64 mod 64 < 32"
      using 3 div_mod_64(2) [of c] m assms by (auto simp: scalar_value_def)
    show ?thesis using 3 q m e0 ed assms div_mod_64(2) [of c]
      by (auto simp: encode_nats_eq utf8_head_def is_cont_def second_ok3_def)
  next
    case 4
    with scalar_bound [OF assms] have q: "c div 262144 < 5" by (simp add: div_less_iff_less_mult)
    have m: "c mod 64 \<le> 63" "c div 64 mod 64 \<le> 63" "c div 4096 mod 64 \<le> 63"
      by (simp_all add: less_Suc_eq_le [symmetric])
    have f0: "c div 262144 = 0 \<Longrightarrow> 16 \<le> c div 4096 mod 64"
      using 4 div_mod_64(3) [of c] m by linarith
    have f4: "c div 262144 = 4 \<Longrightarrow> c div 4096 mod 64 < 16"
      using scalar_bound [OF assms] div_mod_64(3) [of c] m by linarith
    show ?thesis using 4 q m f0 f4 assms div_mod_64(3) [of c]
      by (auto simp: encode_nats_eq utf8_head_def is_cont_def second_ok4_def)
  qed
qed

lemma encode_nats_nonempty: "encode_nats c \<noteq> []"
  by (simp add: encode_nats_def utf8_encode_char_def)

lemma decode_strict_encode:
  "list_all scalar_value s \<Longrightarrow> decode_strict (concat (map encode_nats s)) = Some s"
proof (induction s)
  case Nil
  show ?case by (simp add: decode_strict.simps)
next
  case (Cons c s)
  then show ?case
    using encode_nats_nonempty [of c]
    by (subst decode_strict.simps) (simp add: utf8_head_encode)
qed

lemma map_unat_utf8_encode: "map unat (utf8_encode s) = concat (map encode_nats s)"
  by (simp add: utf8_encode_def encode_nats_def [abs_def] map_concat comp_def)

theorem utf8_decode_encode: "list_all scalar_value s \<Longrightarrow> utf8_decode (utf8_encode s) = Some s"
  by (simp add: utf8_decode_def map_unat_utf8_encode decode_strict_encode)

subsection \<open>The replacing decoder\<close>

lemma decode_replace_strict: "decode_strict bs = Some s \<Longrightarrow> decode_replace bs = s"
proof (induction bs arbitrary: s rule: decode_strict.induct)
  case (1 bs)
  show ?case
  proof (cases "bs = []")
    case True
    with "1.prems" show ?thesis by (simp add: decode_strict.simps decode_replace.simps)
  next
    case False
    with "1.prems" obtain c n s' where h: "utf8_head bs = (Some c, n)"
      and s': "decode_strict (drop n bs) = Some s'" and "s = c # s'"
      by (subst (asm) decode_strict.simps) (auto split: prod.splits option.splits)
    with False "1.IH" [OF False h [symmetric] refl s'] show ?thesis
      by (subst decode_replace.simps) simp
  qed
qed

theorem utf8_decode_replace_encode:
  "list_all scalar_value s \<Longrightarrow> utf8_decode_replace (utf8_encode s) = s"
  by (simp add: utf8_decode_replace_def map_unat_utf8_encode decode_replace_strict
      decode_strict_encode)

lemma decode_replace_length: "length (decode_replace bs) \<le> length bs"
proof (induction bs rule: decode_replace.induct)
  case (1 bs)
  show ?case
  proof (cases "bs = []")
    case True
    then show ?thesis by (simp add: decode_replace.simps)
  next
    case False
    obtain c n where h: "utf8_head bs = (c, n)" by fastforce
    with utf8_head_progress [OF False] have n: "length bs - n < length bs" by metis
    have "length (decode_replace (drop n bs)) \<le> length (drop n bs)"
      using "1.IH" [OF False h [symmetric]] by (cases c) simp_all
    with n h False show ?thesis
      by (subst decode_replace.simps) (cases c; simp)
  qed
qed

lemma utf8_head_scalar: "utf8_head bs = (Some c, n) \<Longrightarrow> scalar_value c"
  by (auto simp: utf8_head_def scalar_value_def is_cont_def second_ok3_def second_ok4_def
      split: list.splits if_splits) arith+

lemma decode_replace_scalar: "list_all scalar_value (decode_replace bs)"
proof (induction bs rule: decode_replace.induct)
  case (1 bs)
  show ?case
  proof (cases "bs = []")
    case False
    obtain c n where h: "utf8_head bs = (c, n)" by fastforce
    show ?thesis
    proof (cases c)
      case None
      moreover have "scalar_value 0xFFFD" by (simp add: scalar_value_def)
      ultimately show ?thesis using h "1.IH"(1) [OF False h [symmetric]] False
        by (subst decode_replace.simps) simp
    next
      case (Some c')
      with h "1.IH"(2) [OF False h [symmetric]] False utf8_head_scalar show ?thesis
        by (subst decode_replace.simps) simp
    qed
  qed (simp add: decode_replace.simps)
qed

end
