(* ===== verification/Jet_Exceptions.thy ===== *)
theory Jet_Exceptions
  imports Jet_Prelude
begin

text \<open>
  The exception hierarchy (\<^verbatim>\<open>src/jetsocket/exceptions.py\<close>) and the built-in exceptions the
  library raises or catches. The human-readable message is kept as its fixed part: a value
  interpolated into a message (a port, a size) is not part of the model, the attributes an
  exception carries are.
\<close>

datatype exn =
    JetSocketError string
  | ConnectionError string
  | ProtocolError string "int option"
  | HandshakeError string "int option" "(string \<times> string) list"
  | CloseError string int string
  | TimeoutError string pyfloat string
  | BufferOverflowError string int int
  | InvalidStateError string string "string list"
  | PoolExhaustedError string int pyfloat
  | PoolClosedError string
  | ValueError string
  | TypeError string
  | RuntimeError string
  | OverflowError string
  | StructError string
  | UnicodeDecodeError
  | UnicodeEncodeError
  | OSError string
  | OtherException string

text \<open>The \<^verbatim>\<open>except\<close> clauses of the library test the class of an exception.\<close>

fun is_ConnectionError :: "exn \<Rightarrow> bool" where
  "is_ConnectionError (ConnectionError _) = True"
| "is_ConnectionError _ = False"

fun is_ValueError :: "exn \<Rightarrow> bool" where
  "is_ValueError (ValueError _) = True"
| "is_ValueError UnicodeDecodeError = True"
| "is_ValueError UnicodeEncodeError = True"
| "is_ValueError _ = False"

fun is_JetSocketError :: "exn \<Rightarrow> bool" where
  "is_JetSocketError (ValueError _) = False"
| "is_JetSocketError (TypeError _) = False"
| "is_JetSocketError (RuntimeError _) = False"
| "is_JetSocketError (OverflowError _) = False"
| "is_JetSocketError (StructError _) = False"
| "is_JetSocketError UnicodeDecodeError = False"
| "is_JetSocketError UnicodeEncodeError = False"
| "is_JetSocketError (OSError _) = False"
| "is_JetSocketError (OtherException _) = False"
| "is_JetSocketError _ = True"

text \<open>\<^verbatim>\<open>CloseError.is_normal\<close> and \<^verbatim>\<open>CloseError.is_going_away\<close> (on the \<^verbatim>\<open>code\<close> attribute).\<close>

definition close_is_normal :: "int \<Rightarrow> bool" where
  "close_is_normal code \<longleftrightarrow> code = 1000"

definition close_is_going_away :: "int \<Rightarrow> bool" where
  "close_is_going_away code \<longleftrightarrow> code = 1001"

end
