(* ===== verification/Jet_Types.thy ===== *)
theory Jet_Types
  imports Jet_Utf8 Jet_Exceptions
begin

text \<open>
  Opcodes, frames and close codes: \<^verbatim>\<open>src/jetsocket/types.py\<close>, and the \<^verbatim>\<open>Opcode\<close> and
  \<^verbatim>\<open>Frame\<close> classes of \<^verbatim>\<open>src/jetsocket/_core.pyx\<close>, which carry the same fields and the same
  accessors. The enumeration value of an opcode is \<^term>\<open>opcode_value\<close>; the constructor call
  \<^verbatim>\<open>Opcode(n)\<close>, which raises for a reserved number, is \<^term>\<open>Opcode\<close>.
\<close>

subsection \<open>Opcodes\<close>

datatype opcode = CONTINUATION | TEXT | BINARY | CLOSE | PING | PONG

fun opcode_value :: "opcode \<Rightarrow> nat" where
  "opcode_value CONTINUATION = 0x0"
| "opcode_value TEXT = 0x1"
| "opcode_value BINARY = 0x2"
| "opcode_value CLOSE = 0x8"
| "opcode_value PING = 0x9"
| "opcode_value PONG = 0xA"

definition Opcode :: "nat \<Rightarrow> exn + opcode" where
  "Opcode n =
     (if n = 0x0 then Inr CONTINUATION else if n = 0x1 then Inr TEXT
      else if n = 0x2 then Inr BINARY else if n = 0x8 then Inr CLOSE
      else if n = 0x9 then Inr PING else if n = 0xA then Inr PONG
      else Inl (ValueError ''Invalid opcode''))"

definition opcode_is_control :: "opcode \<Rightarrow> bool" where
  "opcode_is_control o1 \<longleftrightarrow> opcode_value o1 \<ge> 0x8"

definition opcode_is_data :: "opcode \<Rightarrow> bool" where
  "opcode_is_data o1 \<longleftrightarrow> opcode_value o1 \<le> 0x2"

lemma Opcode_opcode_value [simp]: "Opcode (opcode_value o1) = Inr o1"
  by (cases o1) (simp_all add: Opcode_def)

lemma Opcode_Inr: "Opcode n = Inr o1 \<longleftrightarrow> n = opcode_value o1"
  by (cases o1) (auto simp: Opcode_def split: if_splits)

lemma opcode_value_inject: "opcode_value a = opcode_value b \<longleftrightarrow> a = b"
  by (cases a; cases b) simp_all

text \<open>\<^verbatim>\<open>Opcode\<close> is an \<^verbatim>\<open>IntEnum\<close>: opcodes compare by their values.\<close>

instantiation opcode :: linorder
begin

definition less_eq_opcode :: "opcode \<Rightarrow> opcode \<Rightarrow> bool" where
  "less_eq_opcode a b \<longleftrightarrow> opcode_value a \<le> opcode_value b"

definition less_opcode :: "opcode \<Rightarrow> opcode \<Rightarrow> bool" where
  "less_opcode a b \<longleftrightarrow> opcode_value a < opcode_value b"

instance
  by intro_classes (auto simp: less_eq_opcode_def less_opcode_def opcode_value_inject)

end

lemma opcode_order:
  "opcode_is_control o1 \<longleftrightarrow> CLOSE \<le> o1" "opcode_is_data o1 \<longleftrightarrow> o1 \<le> BINARY"
  by (cases o1; simp add: opcode_is_control_def opcode_is_data_def less_eq_opcode_def)+

lemma opcode_value_less [simp]: "opcode_value o1 < 16"
  by (cases o1) simp_all

lemma opcode_control_or_data: "opcode_is_control o1 \<longleftrightarrow> \<not> opcode_is_data o1"
  by (cases o1) (simp_all add: opcode_is_control_def opcode_is_data_def)

subsection \<open>Frames\<close>

record frame =
  f_opcode :: opcode
  f_payload :: bytes
  f_fin :: bool
  f_rsv1 :: bool
  f_rsv2 :: bool
  f_rsv3 :: bool

definition mk_frame :: "opcode \<Rightarrow> bytes \<Rightarrow> bool \<Rightarrow> bool \<Rightarrow> frame" where
  "mk_frame opc payload fin rsv1 =
     \<lparr>f_opcode = opc, f_payload = payload, f_fin = fin, f_rsv1 = rsv1,
      f_rsv2 = False, f_rsv3 = False\<rparr>"

definition frame_is_control :: "frame \<Rightarrow> bool" where
  "frame_is_control f = opcode_is_control (f_opcode f)"

definition frame_is_data :: "frame \<Rightarrow> bool" where
  "frame_is_data f = opcode_is_data (f_opcode f)"

definition frame_is_text :: "frame \<Rightarrow> bool" where
  "frame_is_text f \<longleftrightarrow> f_opcode f = TEXT"

definition frame_is_binary :: "frame \<Rightarrow> bool" where
  "frame_is_binary f \<longleftrightarrow> f_opcode f = BINARY"

definition frame_is_close :: "frame \<Rightarrow> bool" where
  "frame_is_close f \<longleftrightarrow> f_opcode f = CLOSE"

definition frame_is_ping :: "frame \<Rightarrow> bool" where
  "frame_is_ping f \<longleftrightarrow> f_opcode f = PING"

definition frame_is_pong :: "frame \<Rightarrow> bool" where
  "frame_is_pong f \<longleftrightarrow> f_opcode f = PONG"

definition as_text :: "frame \<Rightarrow> exn + pystr" where
  "as_text f = (case utf8_decode (f_payload f) of
     None \<Rightarrow> Inl UnicodeDecodeError | Some s \<Rightarrow> Inr s)"

text \<open>\<^verbatim>\<open>s.encode("utf-8")\<close> raises on a lone surrogate.\<close>

definition str_encode :: "pystr \<Rightarrow> exn + bytes" where
  "str_encode s =
     (if list_all scalar_value s then Inr (utf8_encode s) else Inl UnicodeEncodeError)"

text \<open>\<^verbatim>\<open>int.from_bytes(bs, "big")\<close>.\<close>

definition int_from_bytes_big :: "bytes \<Rightarrow> nat" where
  "int_from_bytes_big bs = fold (\<lambda>b n. n * 256 + unat b) bs 0"

definition frame_close_code :: "frame \<Rightarrow> int option" where
  "frame_close_code f =
     (if \<not> frame_is_close f \<or> length (f_payload f) < 2 then None
      else Some (int (int_from_bytes_big (take 2 (f_payload f)))))"

definition frame_close_reason :: "frame \<Rightarrow> pystr" where
  "frame_close_reason f =
     (if \<not> frame_is_close f \<or> length (f_payload f) \<le> 2 then []
      else utf8_decode_replace (drop 2 (f_payload f)))"

subsection \<open>Close codes\<close>

datatype close_code_name =
    NORMAL | GOING_AWAY | PROTOCOL_ERROR | UNSUPPORTED_DATA | NO_STATUS | ABNORMAL
  | INVALID_PAYLOAD | POLICY_VIOLATION | MESSAGE_TOO_BIG | MANDATORY_EXTENSION
  | INTERNAL_ERROR | SERVICE_RESTART | TRY_AGAIN_LATER | BAD_GATEWAY | TLS_HANDSHAKE

fun CloseCode :: "close_code_name \<Rightarrow> int" where
  "CloseCode NORMAL = 1000"
| "CloseCode GOING_AWAY = 1001"
| "CloseCode PROTOCOL_ERROR = 1002"
| "CloseCode UNSUPPORTED_DATA = 1003"
| "CloseCode NO_STATUS = 1005"
| "CloseCode ABNORMAL = 1006"
| "CloseCode INVALID_PAYLOAD = 1007"
| "CloseCode POLICY_VIOLATION = 1008"
| "CloseCode MESSAGE_TOO_BIG = 1009"
| "CloseCode MANDATORY_EXTENSION = 1010"
| "CloseCode INTERNAL_ERROR = 1011"
| "CloseCode SERVICE_RESTART = 1012"
| "CloseCode TRY_AGAIN_LATER = 1013"
| "CloseCode BAD_GATEWAY = 1014"
| "CloseCode TLS_HANDSHAKE = 1015"

subsection \<open>Facts about the accessors\<close>

lemma mk_frame_simps [simp]:
  "f_opcode (mk_frame opc payload fin rsv1) = opc"
  "f_payload (mk_frame opc payload fin rsv1) = payload"
  "f_fin (mk_frame opc payload fin rsv1) = fin"
  "f_rsv1 (mk_frame opc payload fin rsv1) = rsv1"
  by (simp_all add: mk_frame_def)

lemma frame_eq_mk_frame:
  assumes "\<not> f_rsv2 f" and "\<not> f_rsv3 f"
  shows "mk_frame (f_opcode f) (f_payload f) (f_fin f) (f_rsv1 f) = f"
  using assms by (cases f) (simp add: mk_frame_def)

lemma int_from_bytes_big_two: "int_from_bytes_big [a, b] = unat a * 256 + unat b"
  by (simp add: int_from_bytes_big_def)

lemma int_from_bytes_big_two_bound: "int_from_bytes_big [a, b] < 65536"
  using unat_byte_less [of a] unat_byte_less [of b] unfolding int_from_bytes_big_two by linarith

lemma frame_close_code_bounds: "frame_close_code f = Some c \<Longrightarrow> 0 \<le> c \<and> c < 65536"
proof -
  assume a: "frame_close_code f = Some c"
  then have "2 \<le> length (f_payload f)" by (auto simp: frame_close_code_def split: if_splits)
  then obtain x y r where "f_payload f = x # y # r"
    by (cases "f_payload f"; cases "tl (f_payload f)") auto
  with a show ?thesis using int_from_bytes_big_two_bound [of x y]
    by (auto simp: frame_close_code_def split: if_splits)
qed

end
