(* ===== verification/Jet_Backoff.thy ===== *)
theory Jet_Backoff
  imports Jet_Exceptions
begin

text \<open>
  Exponential backoff with full jitter (\<^verbatim>\<open>src/jetsocket/backoff.py\<close>). Clock readings of
  \<^verbatim>\<open>time.monotonic()\<close> and draws of \<^verbatim>\<open>random.random()\<close> are arguments. Floats are rationals;
  \<^verbatim>\<open>float ** int\<close> raises \<^verbatim>\<open>OverflowError\<close> when the result rounds beyond the largest double,
  which \<^term>\<open>py_pow\<close> writes out.
\<close>

record backoff_config =
  bc_base :: pyfloat
  bc_multiplier :: pyfloat
  bc_cap :: pyfloat
  bc_jitter :: bool
  bc_max_attempts :: int
  bc_reset_after :: pyfloat

definition default_backoff_config :: backoff_config where
  "default_backoff_config =
     \<lparr>bc_base = 1, bc_multiplier = 2, bc_cap = 60, bc_jitter = True,
      bc_max_attempts = 0, bc_reset_after = 60\<rparr>"

text \<open>\<^verbatim>\<open>BackoffConfig.__post_init__\<close>: the checks run when a configuration is built.\<close>

definition backoff_config_check :: "backoff_config \<Rightarrow> exn + backoff_config" where
  "backoff_config_check c =
     (if bc_base c \<le> 0 then Inl (ValueError ''base must be positive'')
      else if bc_multiplier c < 1 then Inl (ValueError ''multiplier must be >= 1'')
      else if bc_cap c < bc_base c then Inl (ValueError ''cap must be >= base'')
      else if bc_max_attempts c < 0 then Inl (ValueError ''max_attempts must be >= 0'')
      else if bc_reset_after c < 0 then Inl (ValueError ''reset_after must be >= 0'')
      else Inr c)"

record backoff =
  bo_config :: backoff_config
  bo_attempt :: nat
  bo_last_success :: "pyfloat option"

definition new_backoff :: "backoff_config option \<Rightarrow> backoff" where
  "new_backoff config =
     \<lparr>bo_config = (case config of None \<Rightarrow> default_backoff_config | Some c \<Rightarrow> c),
      bo_attempt = 0, bo_last_success = None\<rparr>"

definition exhausted :: "backoff \<Rightarrow> bool" where
  "exhausted b \<longleftrightarrow>
     (if bc_max_attempts (bo_config b) = 0 then False
      else int (bo_attempt b) \<ge> bc_max_attempts (bo_config b))"

definition float_overflow_bound :: pyfloat where
  "float_overflow_bound = 2 ^ 1024 - 2 ^ 970"

definition py_pow :: "pyfloat \<Rightarrow> nat \<Rightarrow> exn + pyfloat" where
  "py_pow x n =
     (if x ^ n \<ge> float_overflow_bound then Inl (OverflowError ''Numerical result out of range'')
      else Inr (x ^ n))"

text \<open>\<^verbatim>\<open>random.uniform(a, b)\<close> for a draw \<^verbatim>\<open>r\<close> of \<^verbatim>\<open>random.random()\<close>, which lies in [0, 1).\<close>

definition uniform :: "pyfloat \<Rightarrow> pyfloat \<Rightarrow> pyfloat \<Rightarrow> pyfloat" where
  "uniform a b r = a + (b - a) * r"

definition raw_delay :: "backoff \<Rightarrow> exn + pyfloat" where
  "raw_delay b =
     bind_result (py_pow (bc_multiplier (bo_config b)) (bo_attempt b)) (\<lambda>m.
       Inr (min (bc_base (bo_config b) * m) (bc_cap (bo_config b))))"

definition next_delay :: "pyfloat \<Rightarrow> backoff \<Rightarrow> exn + pyfloat \<times> backoff" where
  "next_delay r b =
     (if exhausted b then Inl (RuntimeError ''Max attempts exhausted'')
      else bind_result (raw_delay b) (\<lambda>delay.
        let delay = (if bc_jitter (bo_config b) then uniform 0 delay r else delay)
        in Inr (delay, b\<lparr>bo_attempt := bo_attempt b + 1\<rparr>)))"

definition peek_delay :: "backoff \<Rightarrow> exn + pyfloat" where
  "peek_delay b =
     bind_result (raw_delay b) (\<lambda>delay.
       Inr (if bc_jitter (bo_config b) then delay / 2 else delay))"

definition backoff_success :: "pyfloat \<Rightarrow> backoff \<Rightarrow> backoff" where
  "backoff_success now b = b\<lparr>bo_last_success := Some now\<rparr>"

definition backoff_reset :: "backoff \<Rightarrow> backoff" where
  "backoff_reset b = b\<lparr>bo_attempt := 0, bo_last_success := None\<rparr>"

definition maybe_reset :: "pyfloat \<Rightarrow> backoff \<Rightarrow> bool \<times> backoff" where
  "maybe_reset now b =
     (case bo_last_success b of
        None \<Rightarrow> (False, b)
      | Some t \<Rightarrow>
          if now - t \<ge> bc_reset_after (bo_config b) then (True, b\<lparr>bo_attempt := 0\<rparr>)
          else (False, b))"

subsection \<open>Runs of the strategy\<close>

text \<open>The delays of a sequence of calls, one draw per call, up to the first exception.\<close>

primrec run_delays :: "pyfloat list \<Rightarrow> backoff \<Rightarrow> pyfloat list \<times> (exn option \<times> backoff)" where
  "run_delays [] b = ([], None, b)"
| "run_delays (r # rs) b =
     (case next_delay r b of
        Inl e \<Rightarrow> ([], Some e, b)
      | Inr (d, b') \<Rightarrow> (let (ds, res) = run_delays rs b' in (d # ds, res)))"

definition wf_backoff :: "backoff \<Rightarrow> bool" where
  "wf_backoff b \<longleftrightarrow> backoff_config_check (bo_config b) = Inr (bo_config b)"

lemma wf_backoff_iff:
  "wf_backoff b \<longleftrightarrow>
     0 < bc_base (bo_config b) \<and> 1 \<le> bc_multiplier (bo_config b)
     \<and> bc_base (bo_config b) \<le> bc_cap (bo_config b)
     \<and> 0 \<le> bc_max_attempts (bo_config b) \<and> 0 \<le> bc_reset_after (bo_config b)"
  by (auto simp: wf_backoff_def backoff_config_check_def)

lemma backoff_config_check_Inr: "backoff_config_check c = Inr c' \<Longrightarrow> c' = c"
  by (simp add: backoff_config_check_def split: if_splits)

lemma next_delay_Inr:
  "next_delay r b = Inr (d, b') \<longleftrightarrow>
     \<not> exhausted b \<and> b' = b\<lparr>bo_attempt := bo_attempt b + 1\<rparr> \<and>
     (\<exists>m. raw_delay b = Inr m \<and> d = (if bc_jitter (bo_config b) then m * r else m))"
  by (auto simp: next_delay_def bind_result_Inr_conv uniform_def Let_def)

lemma raw_delay_Inr:
  "raw_delay b = Inr m \<Longrightarrow>
   m = min (bc_base (bo_config b) * bc_multiplier (bo_config b) ^ bo_attempt b) (bc_cap (bo_config b))"
  by (auto simp: raw_delay_def bind_result_Inr_conv py_pow_def split: if_splits)

lemma raw_delay_bounds:
  assumes "wf_backoff b" and "raw_delay b = Inr m"
  shows "bc_base (bo_config b) \<le> m \<and> m \<le> bc_cap (bo_config b)"
proof -
  have "1 \<le> bc_multiplier (bo_config b) ^ bo_attempt b"
    using assms(1) by (simp add: wf_backoff_iff)
  then have "bc_base (bo_config b) * 1 \<le> bc_base (bo_config b) * bc_multiplier (bo_config b) ^ bo_attempt b"
    using assms(1) by (intro mult_left_mono) (simp_all add: wf_backoff_iff)
  with raw_delay_Inr [OF assms(2)] assms(1) show ?thesis by (simp add: wf_backoff_iff)
qed

lemma next_delay_wf: "wf_backoff b \<Longrightarrow> next_delay r b = Inr (d, b') \<Longrightarrow> wf_backoff b'"
  by (auto simp: next_delay_Inr wf_backoff_iff)

lemma pow2_exceeds_float: "1024 \<le> n \<Longrightarrow> float_overflow_bound \<le> 2 ^ n"
proof -
  assume "1024 \<le> n"
  then have "(2::rat) ^ 1024 \<le> 2 ^ n" by (rule power_increasing) simp
  moreover have "float_overflow_bound \<le> (2::rat) ^ 1024"
    by (simp only: float_overflow_bound_def diff_le_eq le_add_same_cancel1 zero_le_power zero_le_numeral)
  ultimately show ?thesis by (rule order_trans [rotated])
qed

lemma run_delays_attempts:
  "run_delays rs b = (ds, res, b') \<Longrightarrow>
   bo_attempt b' = bo_attempt b + length ds \<and> bo_config b' = bo_config b \<and> length ds \<le> length rs
   \<and> (res = None \<longleftrightarrow> length ds = length rs)"
proof (induction rs arbitrary: b ds)
  case (Cons r rs)
  show ?case
  proof (cases "next_delay r b")
    case (Inl e)
    with Cons.prems show ?thesis by auto
  next
    case (Inr a)
    then obtain d b1 where b1: "next_delay r b = Inr (d, b1)" by (cases a) auto
    with Cons.prems obtain ds1 where "run_delays rs b1 = (ds1, res, b')" "ds = d # ds1"
      by (auto split: prod.splits)
    with Cons.IH [of b1 ds1] b1 show ?thesis by (auto simp: next_delay_Inr)
  qed
qed simp

lemma run_delays_until:
  assumes ok: "\<And>n r. n < K \<Longrightarrow> \<exists>d. next_delay r (b\<lparr>bo_attempt := n\<rparr>) = Inr (d, b\<lparr>bo_attempt := Suc n\<rparr>)"
    and stop: "\<And>r. next_delay r (b\<lparr>bo_attempt := K\<rparr>) = Inl e"
    and "a \<le> K" and "K - a < length rs"
  shows "\<exists>ds. run_delays rs (b\<lparr>bo_attempt := a\<rparr>) = (ds, Some e, b\<lparr>bo_attempt := K\<rparr>) \<and> length ds = K - a"
  using assms(3,4)
proof (induction rs arbitrary: a)
  case (Cons r rs)
  show ?case
  proof (cases "a = K")
    case True
    then show ?thesis by (simp add: stop)
  next
    case False
    with Cons.prems have "a < K" by simp
    with ok obtain d where d: "next_delay r (b\<lparr>bo_attempt := a\<rparr>) = Inr (d, b\<lparr>bo_attempt := Suc a\<rparr>)" by blast
    from \<open>a < K\<close> Cons obtain ds where
      "run_delays rs (b\<lparr>bo_attempt := Suc a\<rparr>) = (ds, Some e, b\<lparr>bo_attempt := K\<rparr>)" "length ds = K - Suc a"
      by (metis Suc_leI Suc_diff_Suc Suc_less_eq length_Cons)
    with d \<open>a < K\<close> show ?thesis by simp
  qed
qed simp

lemma raw_delay_no_overflow:
  "bc_multiplier (bo_config b) ^ bo_attempt b < float_overflow_bound \<Longrightarrow> \<exists>m. raw_delay b = Inr m"
  by (simp add: raw_delay_def py_pow_def)

lemma raw_delay_overflow:
  "float_overflow_bound \<le> bc_multiplier (bo_config b) ^ bo_attempt b \<Longrightarrow>
   raw_delay b = Inl (OverflowError ''Numerical result out of range'')"
  by (simp add: raw_delay_def py_pow_def)

lemma pow2_below_float: "n < 1024 \<Longrightarrow> (2::rat) ^ n < float_overflow_bound"
proof -
  assume "n < 1024"
  then have "(2::rat) ^ n \<le> 2 ^ 1023" by (intro power_increasing) simp_all
  moreover have "(2::rat) ^ 970 < 2 ^ 1023" by (rule power_strict_increasing) simp_all
  moreover have "(2::rat) ^ 1024 = 2 ^ 1023 + 2 ^ 1023" 
    using power_Suc [of "2 :: rat" 1023] by simp
  ultimately show ?thesis unfolding float_overflow_bound_def by linarith
qed

subsection \<open>Properties\<close>

text \<open>
  C39. A delay handed out by a validated strategy is never negative and never exceeds the cap or
  the exponential bound of the current attempt; without jitter it is at least the base delay; and
  each delay counts one attempt.
\<close>

theorem next_delay_bounds:
  assumes "wf_backoff b" and "0 \<le> r" and "r < 1" and "next_delay r b = Inr (d, b')"
  shows "0 \<le> d \<and> d \<le> bc_cap (bo_config b)
       \<and> d \<le> bc_base (bo_config b) * bc_multiplier (bo_config b) ^ bo_attempt b
       \<and> (bc_jitter (bo_config b) \<or> bc_base (bo_config b) \<le> d)
       \<and> bo_attempt b' = bo_attempt b + 1 \<and> wf_backoff b'"
proof -
  from assms(4) obtain m where m: "raw_delay b = Inr m"
    and d: "d = (if bc_jitter (bo_config b) then m * r else m)"
    and b': "b' = b\<lparr>bo_attempt := bo_attempt b + 1\<rparr>" by (auto simp: next_delay_Inr)
  have pos: "0 < m" and le: "m \<le> bc_cap (bo_config b)"
    using raw_delay_bounds [OF assms(1) m] assms(1) by (simp_all add: wf_backoff_iff)
  have mr: "0 \<le> m * r" "m * r \<le> m" using pos assms(2,3) by (simp_all add: mult_left_le)
  have "m \<le> bc_base (bo_config b) * bc_multiplier (bo_config b) ^ bo_attempt b"
    using raw_delay_Inr [OF m] by simp
  moreover have "0 \<le> d" "d \<le> m" using d mr pos by simp_all
  ultimately show ?thesis
    using le d b' raw_delay_bounds [OF assms(1) m] next_delay_wf [OF assms(1,4)]
    by (auto intro: order_trans)
qed

theorem next_delay_bounds_witness:
  "let b = (new_backoff None)\<lparr>bo_attempt := 3\<rparr>; b' = b\<lparr>bo_attempt := 4\<rparr>
   in next_delay (1/2) b = Inr (4, b') \<and> (4::rat) \<le> bc_cap (bo_config b)"
proof -
  let ?b = "(new_backoff None)\<lparr>bo_attempt := 3\<rparr>"
  have wf: "wf_backoff ?b"
    by (simp add: wf_backoff_iff new_backoff_def default_backoff_config_def)
  have "raw_delay ?b = Inr 8"
    using pow2_below_float [of 3]
    by (simp add: raw_delay_def py_pow_def new_backoff_def default_backoff_config_def)
  then have n: "next_delay (1/2) ?b = Inr (4, ?b\<lparr>bo_attempt := 4\<rparr>)"
    by (simp add: next_delay_def exhausted_def uniform_def new_backoff_def default_backoff_config_def)
  from next_delay_bounds [OF wf _ _ n] n show ?thesis by (simp add: Let_def)
qed

text \<open>
  With a positive \<^verbatim>\<open>max_attempts\<close> of \<^verbatim>\<open>k\<close> (and powers in the range of a double), exactly
  \<^verbatim>\<open>k\<close> delays are handed out and the next request raises \<^verbatim>\<open>RuntimeError\<close>; the counter stops at
  \<^verbatim>\<open>k\<close>, whatever the random draws.
\<close>

theorem max_attempts_exact:
  assumes "wf_backoff (new_backoff (Some c))" and "bc_max_attempts c = int k" and "0 < k"
    and "bc_multiplier c ^ (k - 1) < float_overflow_bound" and "k < length rs"
  shows "\<exists>ds. run_delays rs (new_backoff (Some c))
             = (ds, Some (RuntimeError ''Max attempts exhausted''), (new_backoff (Some c))\<lparr>bo_attempt := k\<rparr>)
           \<and> length ds = k"
proof -
  let ?b = "new_backoff (Some c)"
  have c: "bo_config ?b = c" "1 \<le> bc_multiplier c"
    using assms(1) by (simp_all add: new_backoff_def wf_backoff_iff)
  have "\<exists>d. next_delay r (?b\<lparr>bo_attempt := n\<rparr>) = Inr (d, ?b\<lparr>bo_attempt := Suc n\<rparr>)" if "n < k" for n r
  proof -
    have "bc_multiplier c ^ n \<le> bc_multiplier c ^ (k - 1)"
      using that c(2) by (intro power_increasing) simp_all
    then have "\<exists>m. raw_delay (?b\<lparr>bo_attempt := n\<rparr>) = Inr m"
      using assms(4) c(1) by (intro raw_delay_no_overflow) simp
    with that assms(2) c(1) show ?thesis
      by (auto simp: next_delay_def exhausted_def)
  qed
  moreover have "next_delay r (?b\<lparr>bo_attempt := k\<rparr>) = Inl (RuntimeError ''Max attempts exhausted'')" for r
    using assms(2,3) c(1) by (simp add: next_delay_def exhausted_def)
  ultimately have "\<exists>ds. run_delays rs (?b\<lparr>bo_attempt := 0\<rparr>)
      = (ds, Some (RuntimeError ''Max attempts exhausted''), ?b\<lparr>bo_attempt := k\<rparr>) \<and> length ds = k - 0"
    by (rule run_delays_until) (use assms(5) in simp_all)
  moreover have "?b\<lparr>bo_attempt := 0\<rparr> = ?b" by (simp add: new_backoff_def)
  ultimately show ?thesis by simp
qed

theorem max_attempts_exact_witness:
  "\<exists>ds. run_delays [0, 0, 0] (new_backoff (Some (default_backoff_config\<lparr>bc_max_attempts := 2\<rparr>)))
      = (ds, Some (RuntimeError ''Max attempts exhausted''),
         (new_backoff (Some (default_backoff_config\<lparr>bc_max_attempts := 2\<rparr>)))\<lparr>bo_attempt := 2\<rparr>)
    \<and> length ds = 2"
  by (rule max_attempts_exact)
     (use pow2_below_float [of 1] in
       \<open>simp_all add: wf_backoff_iff new_backoff_def default_backoff_config_def\<close>)

text \<open>
  With the default configuration (unlimited attempts, multiplier 2.0) the strategy hands out
  1024 delays and then raises \<^verbatim>\<open>OverflowError\<close> instead of returning the capped delay: \<^verbatim>\<open>2.0 ** 1024\<close>
  is evaluated before the cap is applied.
\<close>

theorem unlimited_retries_overflow:
  assumes "1024 < length rs"
  shows "\<exists>ds. run_delays rs (new_backoff None)
             = (ds, Some (OverflowError ''Numerical result out of range''), (new_backoff None)\<lparr>bo_attempt := 1024\<rparr>)
           \<and> length ds = 1024"
proof -
  let ?b = "new_backoff None"
  have c: "bc_multiplier (bo_config ?b) = 2" "bc_max_attempts (bo_config ?b) = 0"
    by (simp_all add: new_backoff_def default_backoff_config_def)
  have "\<exists>d. next_delay r (?b\<lparr>bo_attempt := n\<rparr>) = Inr (d, ?b\<lparr>bo_attempt := Suc n\<rparr>)" if "n < 1024" for n r
  proof -
    have "\<exists>m. raw_delay (?b\<lparr>bo_attempt := n\<rparr>) = Inr m"
      using that c(1) by (intro raw_delay_no_overflow) (simp add: pow2_below_float)
    with c(2) show ?thesis by (auto simp: next_delay_def exhausted_def)
  qed
  moreover have "next_delay r (?b\<lparr>bo_attempt := 1024\<rparr>) = Inl (OverflowError ''Numerical result out of range'')" for r
    using c pow2_exceeds_float [of 1024]
    by (simp add: next_delay_def exhausted_def raw_delay_overflow)
  ultimately have "\<exists>ds. run_delays rs (?b\<lparr>bo_attempt := 0\<rparr>)
      = (ds, Some (OverflowError ''Numerical result out of range''), ?b\<lparr>bo_attempt := 1024\<rparr>) \<and> length ds = 1024 - 0"
    by (rule run_delays_until) (use assms in simp_all)
  moreover have "?b\<lparr>bo_attempt := 0\<rparr> = ?b" by (simp add: new_backoff_def)
  ultimately show ?thesis by simp
qed

theorem unlimited_retries_overflow_witness:
  "\<exists>ds. run_delays (replicate 2000 0) (new_backoff None)
      = (ds, Some (OverflowError ''Numerical result out of range''), (new_backoff None)\<lparr>bo_attempt := 1024\<rparr>)
    \<and> length ds = 1024"
  by (rule unlimited_retries_overflow) simp

end
