(* ===== verification/Jet_Heartbeat.thy ===== *)
theory Jet_Heartbeat
  imports Jet_Exceptions
begin

text \<open>
  The heartbeat (\<^verbatim>\<open>src/jetsocket/heartbeat.py\<close>): its configuration, the manager's operations and
  the background loop.

  Every reading of \<^verbatim>\<open>time.monotonic()\<close> is an argument \<^verbatim>\<open>now\<close>. The loop is a coroutine; its
  suspension points are the constructors of \<^verbatim>\<open>hb_phase\<close>, and one function describes what the
  loop does from each resumption to the next suspension. The \<^verbatim>\<open>asyncio.Event\<close> is the boolean it
  holds. \<^verbatim>\<open>stop\<close> ends the task also when it is called from the loop's own callback: the
  cancellation the task then requests of itself is delivered at the \<^verbatim>\<open>await\<close> inside \<^verbatim>\<open>stop\<close>
  and suppressed there.
\<close>

subsection \<open>\<^verbatim>\<open>HeartbeatConfig\<close>\<close>

record 'm heartbeat_config =
  hc_interval :: pyfloat
  hc_timeout :: pyfloat
  hc_payload :: bytes
  hc_use_ws_ping :: bool
  hc_application_ping :: "(unit \<Rightarrow> 'm) option"
  hc_pong_matcher :: "('m \<Rightarrow> exn + bool) option"

definition default_heartbeat_config :: "'m heartbeat_config" where
  "default_heartbeat_config = \<lparr>hc_interval = 30, hc_timeout = 10, hc_payload = [],
     hc_use_ws_ping = True, hc_application_ping = None, hc_pong_matcher = None\<rparr>"

definition heartbeat_config_check :: "'m heartbeat_config \<Rightarrow> exn + 'm heartbeat_config" where
  "heartbeat_config_check c =
     (if hc_interval c \<le> 0 then Inl (ValueError ''interval must be positive'')
      else if hc_timeout c \<le> 0 then Inl (ValueError ''timeout must be positive'')
      else if hc_timeout c \<ge> hc_interval c then Inl (ValueError ''timeout must be less than interval'')
      else if \<not> Option.is_none (hc_application_ping c) \<and> hc_use_ws_ping c
        then Inl (ValueError ''cannot use both use_ws_ping=True and application_ping'')
      else Inr c)"

subsection \<open>\<^verbatim>\<open>HeartbeatManager\<close>\<close>

datatype hb_phase =
    Created
  | Sleeping pyfloat
  | SendingPing
  | AwaitingPong pyfloat
  | InTimeout
  | Ended

record 'm heartbeat =
  hb_config :: "'m heartbeat_config"
  hb_task :: "hb_phase option"
  hb_running :: bool
  hb_last_ping_time :: "pyfloat option"
  hb_last_latency :: "pyfloat option"
  hb_latency_samples :: "pyfloat list"
  hb_pong_event :: "bool option"
  hb_pending_payload :: "bytes option"

definition new_heartbeat :: "'m heartbeat_config \<Rightarrow> 'm heartbeat" where
  "new_heartbeat config = \<lparr>hb_config = config, hb_task = None, hb_running = False,
     hb_last_ping_time = None, hb_last_latency = None, hb_latency_samples = [],
     hb_pong_event = None, hb_pending_payload = None\<rparr>"

definition hb_is_running :: "'m heartbeat \<Rightarrow> bool" where
  "hb_is_running h \<longleftrightarrow> hb_running h \<and> hb_task h \<noteq> None \<and> hb_task h \<noteq> Some Ended"

definition latency_avg_ms :: "'m heartbeat \<Rightarrow> pyfloat option" where
  "latency_avg_ms h =
     (if hb_latency_samples h = [] then None
      else Some (sum_list (hb_latency_samples h) / of_nat (length (hb_latency_samples h))))"

text \<open>\<^verbatim>\<open>deque(maxlen=10).append\<close>\<close>

definition deque_append :: "nat \<Rightarrow> 'a \<Rightarrow> 'a list \<Rightarrow> 'a list" where
  "deque_append maxlen x xs = drop (length xs + 1 - maxlen) (xs @ [x])"

definition set_event :: "bool \<Rightarrow> 'm heartbeat \<Rightarrow> 'm heartbeat" where
  "set_event b h = h\<lparr>hb_pong_event := map_option (\<lambda>_. b) (hb_pong_event h)\<rparr>"

definition hb_start :: "'m heartbeat \<Rightarrow> 'm heartbeat" where
  "hb_start h =
     (if hb_running h then h
      else h\<lparr>hb_running := True, hb_pong_event := Some False, hb_task := Some Created\<rparr>)"

definition hb_stop :: "'m heartbeat \<Rightarrow> 'm heartbeat" where
  "hb_stop h = (set_event True (h\<lparr>hb_running := False\<rparr>))
     \<lparr>hb_task := None, hb_pong_event := None, hb_pending_payload := None\<rparr>"

definition on_pong :: "pyfloat \<Rightarrow> bytes \<Rightarrow> 'm heartbeat \<Rightarrow> pyfloat option \<times> 'm heartbeat" where
  "on_pong now payload h =
     (case hb_last_ping_time h of
        None \<Rightarrow> (None, h)
      | Some t \<Rightarrow>
          if hb_pending_payload h \<noteq> None \<and> hb_pending_payload h \<noteq> Some payload then (None, h)
          else let latency_ms = (now - t) * 1000
               in (Some latency_ms,
                   set_event True
                     (h\<lparr>hb_last_latency := Some latency_ms,
                        hb_latency_samples := deque_append 10 latency_ms (hb_latency_samples h),
                        hb_last_ping_time := None, hb_pending_payload := None\<rparr>)))"

definition on_application_message :: "pyfloat \<Rightarrow> 'm \<Rightarrow> 'm heartbeat \<Rightarrow> (exn + bool) \<times> 'm heartbeat" where
  "on_application_message now data h =
     (case hc_pong_matcher (hb_config h) of
        None \<Rightarrow> (Inr False, h)
      | Some matcher \<Rightarrow>
          (case matcher data of
             Inl e \<Rightarrow> (Inl e, h)
           | Inr True \<Rightarrow>
               (case hb_last_ping_time h of
                  None \<Rightarrow> (Inr True, h)
                | Some t \<Rightarrow>
                    let latency_ms = (now - t) * 1000
                    in (Inr True, set_event True
                          (h\<lparr>hb_last_latency := Some latency_ms,
                             hb_latency_samples := deque_append 10 latency_ms (hb_latency_samples h),
                             hb_last_ping_time := None\<rparr>)))
           | Inr False \<Rightarrow> (Inr False, h)))"

definition hb_reset :: "'m heartbeat \<Rightarrow> 'm heartbeat" where
  "hb_reset h = h\<lparr>hb_last_ping_time := None, hb_last_latency := None, hb_latency_samples := [],
     hb_pending_payload := None\<rparr>"

subsection \<open>\<^verbatim>\<open>_heartbeat_loop\<close>\<close>

text \<open>The head of the \<^verbatim>\<open>while\<close> loop, up to the sleep.\<close>

definition hb_loop_head :: "pyfloat \<Rightarrow> 'm heartbeat \<Rightarrow> 'm heartbeat" where
  "hb_loop_head now h =
     (if hb_running h then h\<lparr>hb_task := Some (Sleeping (now + hc_interval (hb_config h)))\<rparr>
      else h\<lparr>hb_task := Some Ended\<rparr>)"

text \<open>After the sleep: the event is cleared and \<^verbatim>\<open>send_ping\<close> is called with the payload.\<close>

definition hb_wake :: "pyfloat \<Rightarrow> 'm heartbeat \<Rightarrow> 'm heartbeat" where
  "hb_wake now h =
     (if \<not> hb_running h then h\<lparr>hb_task := Some Ended\<rparr>
      else (set_event False h)\<lparr>hb_pending_payload := Some (hc_payload (hb_config h)),
             hb_last_ping_time := Some now, hb_task := Some SendingPing\<rparr>)"

text \<open>\<^verbatim>\<open>send_ping\<close> has returned: wait for the pong, which may already be there.\<close>

definition hb_ping_sent :: "pyfloat \<Rightarrow> 'm heartbeat \<Rightarrow> 'm heartbeat" where
  "hb_ping_sent now h =
     (case hb_pong_event h of
        None \<Rightarrow> hb_loop_head now h
      | Some True \<Rightarrow> hb_loop_head now h
      | Some False \<Rightarrow> h\<lparr>hb_task := Some (AwaitingPong (now + hc_timeout (hb_config h)))\<rparr>)"

text \<open>The wait timed out: \<^verbatim>\<open>on_timeout\<close> is called when the heartbeat is still running.\<close>

definition hb_wait_timeout :: "pyfloat \<Rightarrow> 'm heartbeat \<Rightarrow> 'm heartbeat" where
  "hb_wait_timeout now h =
     (if hb_running h then h\<lparr>hb_task := Some InTimeout\<rparr> else hb_loop_head now h)"

datatype hb_label = LPing | LPong pyfloat | LTimeout

text \<open>
  The interleavings of the loop with the calls of its owner. The state carries the clock and the
  trace of observable actions, each with its time.
\<close>

inductive hb_step :: "pyfloat \<times> 'm heartbeat \<times> (pyfloat \<times> hb_label) list
    \<Rightarrow> pyfloat \<times> 'm heartbeat \<times> (pyfloat \<times> hb_label) list \<Rightarrow> bool" where
  tick: "t \<le> t' \<Longrightarrow> hb_step (t, h, tr) (t', h, tr)"
| start: "hb_step (t, h, tr) (t, hb_start h, tr)"
| stop: "hb_step (t, h, tr) (t, hb_stop h, tr)"
| first_run: "hb_task h = Some Created \<Longrightarrow> hb_step (t, h, tr) (t, hb_loop_head t h, tr)"
| wake: "hb_task h = Some (Sleeping d) \<Longrightarrow> d \<le> t \<Longrightarrow> hb_running h
    \<Longrightarrow> hb_step (t, h, tr) (t, hb_wake t h, tr @ [(t, LPing)])"
| sent: "hb_task h = Some SendingPing \<Longrightarrow> hb_step (t, h, tr) (t, hb_ping_sent t h, tr)"
| send_failed: "hb_task h = Some SendingPing \<Longrightarrow> hb_step (t, h, tr) (t, hb_loop_head t h, tr)"
| pong_wakes: "hb_task h = Some (AwaitingPong d) \<Longrightarrow> hb_pong_event h = Some True
    \<Longrightarrow> hb_step (t, h, tr) (t, hb_loop_head t h, tr)"
| timeout: "hb_task h = Some (AwaitingPong d) \<Longrightarrow> hb_pong_event h = Some False \<Longrightarrow> d \<le> t \<Longrightarrow> hb_running h
    \<Longrightarrow> hb_step (t, h, tr) (t, hb_wait_timeout t h, tr @ [(t, LTimeout)])"
| timeout_returned: "hb_task h = Some InTimeout \<Longrightarrow> hb_step (t, h, tr) (t, h\<lparr>hb_task := Some Ended\<rparr>, tr)"
| timeout_raised: "hb_task h = Some InTimeout \<Longrightarrow> hb_step (t, h, tr) (t, hb_loop_head t h, tr)"
| pong: "on_pong t payload h = (r, h') \<Longrightarrow>
    hb_step (t, h, tr) (t, h', tr @ (case r of None \<Rightarrow> [] | Some l \<Rightarrow> [(t, LPong l)]))"
| app_message: "on_application_message t data h = (b, h') \<Longrightarrow>
    hb_step (t, h, tr) (t, h', tr @ (if b = Inr True then (case hb_last_ping_time h of None \<Rightarrow> []
        | Some tp \<Rightarrow> [(t, LPong ((t - tp) * 1000))]) else []))"

inductive hb_reachable :: "'m heartbeat_config \<Rightarrow> pyfloat
    \<Rightarrow> pyfloat \<times> 'm heartbeat \<times> (pyfloat \<times> hb_label) list \<Rightarrow> bool" for c t0 where
  init: "hb_reachable c t0 (t0, new_heartbeat c, [])"
| step: "hb_reachable c t0 s \<Longrightarrow> hb_step s s' \<Longrightarrow> hb_reachable c t0 s'"

subsection \<open>What a timeout means\<close>

text \<open>The ping is unanswered: it was sent at \<^verbatim>\<open>tp\<close> and no pong has been accepted since.\<close>

definition is_pong :: "pyfloat \<times> hb_label \<Rightarrow> bool" where
  "is_pong x \<longleftrightarrow> (\<exists>l. snd x = LPong l)"

definition unanswered :: "pyfloat \<Rightarrow> (pyfloat \<times> hb_label) list \<Rightarrow> bool" where
  "unanswered tp tr \<longleftrightarrow> (\<exists>pre post. tr = pre @ (tp, LPing) # post \<and> (\<forall>x \<in> set post. \<not> is_pong x))"

definition hb_inv :: "'m heartbeat_config \<Rightarrow> pyfloat \<times> 'm heartbeat \<times> (pyfloat \<times> hb_label) list \<Rightarrow> bool" where
  "hb_inv c = (\<lambda>(t, h, tr).
     hb_config h = c
     \<and> (\<forall>tp. hb_last_ping_time h = Some tp \<longrightarrow> tp \<le> t \<and> unanswered tp tr)
     \<and> (hb_task h = Some SendingPing \<longrightarrow> hb_pong_event h = Some False \<longrightarrow> hb_last_ping_time h \<noteq> None)
     \<and> (\<forall>d. hb_task h = Some (AwaitingPong d) \<longrightarrow> hb_pong_event h = Some False \<longrightarrow>
          (\<exists>tp. hb_last_ping_time h = Some tp \<and> tp + hc_timeout c \<le> d))
     \<and> (hb_task h \<noteq> None \<longrightarrow> hb_pong_event h \<noteq> None)
     \<and> (hb_running h = (hb_pong_event h \<noteq> None)))"

lemma set_event_simps [simp]:
  "hb_config (set_event b h) = hb_config h" "hb_task (set_event b h) = hb_task h"
  "hb_running (set_event b h) = hb_running h" "hb_last_ping_time (set_event b h) = hb_last_ping_time h"
  "hb_latency_samples (set_event b h) = hb_latency_samples h"
  "hb_last_latency (set_event b h) = hb_last_latency h"
  "hb_pong_event (set_event b h) = map_option (\<lambda>_. b) (hb_pong_event h)"
  by (simp_all add: set_event_def)

lemma unanswered_ping: "unanswered t (tr @ [(t, LPing)])"
  unfolding unanswered_def by (intro exI [of _ tr] exI [of _ "[]"]) simp

lemma unanswered_snoc: "unanswered tp tr \<Longrightarrow> \<not> is_pong x \<Longrightarrow> unanswered tp (tr @ [x])"
  by (fastforce simp: unanswered_def)

lemmas hb_op_defs = hb_start_def hb_stop_def hb_loop_head_def hb_wake_def hb_ping_sent_def
  hb_wait_timeout_def on_pong_def on_application_message_def

lemma hb_inv_step:
  assumes "hb_step s s'" and "hb_inv c s"
  shows "hb_inv c s'"
  using assms
proof (induction rule: hb_step.induct)
  case (tick t t' h tr)
  then show ?case by (force simp: hb_inv_def)
next
  case (start t h tr)
  then show ?case by (auto simp: hb_inv_def hb_start_def)
next
  case (stop t h tr)
  then show ?case by (auto simp: hb_inv_def hb_stop_def)
next
  case (sent h t tr)
  then show ?case by (auto simp: hb_inv_def hb_ping_sent_def hb_loop_head_def split: option.splits bool.splits)
next
  case (timeout h d t tr)
  then show ?case by (auto simp: hb_inv_def hb_wait_timeout_def unanswered_snoc is_pong_def)
next
  case (pong t payload h r h' tr)
  then show ?case
    by (auto simp: hb_inv_def on_pong_def Let_def split: option.splits if_splits)
next
  case (app_message t data h b h' tr)
  then show ?case
    by (auto simp: hb_inv_def on_application_message_def Let_def
        split: option.splits if_splits sum.splits bool.splits)
qed (auto simp: hb_inv_def hb_loop_head_def hb_wake_def unanswered_ping)

lemma hb_reachable_inv: "hb_reachable c t0 s \<Longrightarrow> hb_inv c s"
proof (induction rule: hb_reachable.induct)
  case init
  show ?case by (simp add: hb_inv_def new_heartbeat_def)
next
  case (step s s')
  then show ?case by (blast intro: hb_inv_step)
qed

text \<open>
  C12. The heartbeat never gives up a connection that answers: whenever it reports a timeout, in
  any interleaving of its loop with the pongs, messages and start and stop calls of its owner, a
  ping was sent at least \<^verbatim>\<open>timeout\<close> seconds earlier, and no pong has been accepted since.
\<close>

theorem timeout_only_when_unanswered:
  assumes "hb_reachable c t0 (t, h, tr)" and "hb_step (t, h, tr) (t, h', tr @ [(t, LTimeout)])"
  shows "\<exists>tp. unanswered tp tr \<and> tp + hc_timeout c \<le> t \<and> hb_task h' = Some InTimeout"
  using assms(2)
proof (cases rule: hb_step.cases)
  case (timeout d)
  with hb_reachable_inv [OF assms(1)] obtain tp where
    "hb_last_ping_time h = Some tp" "tp + hc_timeout c \<le> d" "unanswered tp tr"
    by (auto simp: hb_inv_def)
  with timeout show ?thesis by (force simp: hb_wait_timeout_def)
qed (auto split: option.splits if_splits)


definition fresh_hb :: "nat heartbeat" where
  "fresh_hb = hb_loop_head 0 (hb_start (new_heartbeat default_heartbeat_config))"

lemma fresh_hb_reachable: "hb_reachable default_heartbeat_config 0 (0, fresh_hb, [])"
proof -
  have "hb_reachable default_heartbeat_config 0 (0, hb_start (new_heartbeat default_heartbeat_config) :: nat heartbeat, [])"
    by (rule hb_reachable.step [OF hb_reachable.init hb_step.start])
  then show ?thesis unfolding fresh_hb_def
    by (rule hb_reachable.step) (rule hb_step.first_run, simp add: hb_start_def new_heartbeat_def)
qed

lemma fresh_hb_tick: "0 \<le> t \<Longrightarrow> hb_reachable default_heartbeat_config 0 (t, fresh_hb, [])"
  by (rule hb_reachable.step [OF fresh_hb_reachable hb_step.tick])

lemma fresh_hb_state:
  "hb_running fresh_hb" "hb_pong_event fresh_hb = Some False" "hb_task fresh_hb = Some (Sleeping 30)"
  "hb_config fresh_hb = default_heartbeat_config"
  by (simp_all add: fresh_hb_def hb_loop_head_def hb_start_def new_heartbeat_def default_heartbeat_config_def)

definition silent_hb :: "nat heartbeat" where
  "silent_hb = hb_ping_sent 30 (hb_wake 30 fresh_hb)"

lemma silent_hb_state: "hb_task silent_hb = Some (AwaitingPong 40)" "hb_pong_event silent_hb = Some False"
  "hb_running silent_hb"
  by (simp_all add: silent_hb_def hb_ping_sent_def hb_wake_def fresh_hb_state default_heartbeat_config_def)

lemma silent_hb_reachable: "hb_reachable default_heartbeat_config 0 (40, silent_hb, [(30, LPing)])"
proof -
  have "hb_reachable default_heartbeat_config 0 (30, hb_wake 30 fresh_hb, [] @ [(30, LPing)])"
    by (rule hb_reachable.step [OF fresh_hb_tick hb_step.wake [OF fresh_hb_state(3) _ fresh_hb_state(1)]]) simp_all
  then have "hb_reachable default_heartbeat_config 0 (30, silent_hb, [] @ [(30, LPing)])"
    unfolding silent_hb_def
    by (rule hb_reachable.step) (rule hb_step.sent, simp add: hb_wake_def fresh_hb_state)
  then show ?thesis
    by - (drule hb_reachable.step [OF _ hb_step.tick, of _ _ _ _ _ 40], simp_all)
qed

theorem timeout_only_when_unanswered_witness:
  "\<exists>tp. unanswered tp [(30, LPing)] \<and> tp + 10 \<le> 40 \<and> hb_task (hb_wait_timeout 40 silent_hb) = Some InTimeout"
  using timeout_only_when_unanswered [OF silent_hb_reachable
      hb_step.timeout [OF silent_hb_state(1,2) _ silent_hb_state(3)]]
  by (simp add: default_heartbeat_config_def)


subsection \<open>Latency\<close>

definition latencies :: "(pyfloat \<times> hb_label) list \<Rightarrow> pyfloat list" where
  "latencies tr = List.map_filter (\<lambda>x. case snd x of LPong l \<Rightarrow> Some l | _ \<Rightarrow> None) tr"

lemma latencies_append [simp]:
  "latencies (tr @ [x]) = latencies tr @ (case snd x of LPong l \<Rightarrow> [l] | _ \<Rightarrow> [])"
  by (simp add: latencies_def List.map_filter_def split: hb_label.split)

lemma deque_append_last_n:
  "deque_append n x (drop (length xs - n) xs) = drop (length (xs @ [x]) - n) (xs @ [x])"
proof (cases "n \<le> length xs")
  case True
  then have "Suc (length xs - n) = Suc (length xs) - n" by simp
  with True show ?thesis by (simp add: deque_append_def)
qed (simp add: deque_append_def)

definition samples_inv :: "pyfloat \<times> 'm heartbeat \<times> (pyfloat \<times> hb_label) list \<Rightarrow> bool" where
  "samples_inv = (\<lambda>(t, h, tr).
     hb_latency_samples h = drop (length (latencies tr) - 10) (latencies tr)
     \<and> hb_last_latency h = (if latencies tr = [] then None else Some (last (latencies tr)))
     \<and> (\<forall>l \<in> set (latencies tr). 0 \<le> l))"

text \<open>What both ways of accepting a pong have in common.\<close>

definition accepted :: "pyfloat \<Rightarrow> 'm heartbeat \<Rightarrow> pyfloat \<Rightarrow> 'm heartbeat \<Rightarrow> bool" where
  "accepted t h l h' \<longleftrightarrow> (\<exists>tp. hb_last_ping_time h = Some tp \<and> l = (t - tp) * 1000)
     \<and> hb_last_latency h' = Some l \<and> hb_latency_samples h' = deque_append 10 l (hb_latency_samples h)"

lemma on_pong_cases:
  assumes "on_pong t payload h = (r, h')"
  shows "(r = None \<and> h' = h) \<or> (\<exists>l. r = Some l \<and> accepted t h l h')"
  using assms by (auto simp: on_pong_def accepted_def Let_def split: option.splits if_splits)

lemma on_application_message_cases:
  assumes "on_application_message t data h = (b, h')"
  shows "h' = h \<and> (b = Inr True \<longrightarrow> hb_last_ping_time h = None)
    \<or> b = Inr True \<and> (\<exists>tp. hb_last_ping_time h = Some tp \<and> accepted t h ((t - tp) * 1000) h')"
  using assms
  by (auto simp: on_application_message_def accepted_def Let_def split: option.splits sum.splits bool.splits)

lemma samples_inv_accepted:
  assumes "samples_inv (t, h, tr)" and "hb_inv c (t, h, tr)" and "accepted t h l h'"
  shows "samples_inv (t, h', tr @ [(t, LPong l)])"
proof -
  have "0 \<le> l" using assms(2,3) by (auto simp: hb_inv_def accepted_def)
  moreover have "hb_latency_samples h'
      = drop (length (latencies tr @ [l]) - 10) (latencies tr @ [l])"
    using assms(1,3) deque_append_last_n [of 10 l "latencies tr"] by (simp add: samples_inv_def accepted_def)
  ultimately show ?thesis using assms(1,3) by (auto simp: samples_inv_def accepted_def)
qed

lemma samples_inv_step:
  assumes "hb_step s s'" and "hb_inv c s" and "samples_inv s"
  shows "samples_inv s'"
  using assms
proof (induction rule: hb_step.induct)
  case (pong t payload h r h' tr)
  from on_pong_cases [OF pong(1)] samples_inv_accepted [OF pong(3,2)] pong(3) show ?case by auto
next
  case (app_message t data h b h' tr)
  from on_application_message_cases [OF app_message(1)] samples_inv_accepted [OF app_message(3,2)]
    app_message(3) show ?case by auto
qed (auto simp: samples_inv_def hb_op_defs split: option.splits bool.splits)

lemma hb_reachable_samples: "hb_reachable c t0 s \<Longrightarrow> samples_inv s"
proof (induction rule: hb_reachable.induct)
  case init
  show ?case by (simp add: samples_inv_def new_heartbeat_def latencies_def List.map_filter_def)
next
  case (step s s')
  then show ?case by (blast intro: samples_inv_step hb_reachable_inv)
qed

text \<open>
  The latency figures: in every reachable state the samples are the last ten round trips
  accepted since the heartbeat was created, none of them negative, the last latency is that of
  the latest one, and the average is their mean, or absent before the first pong.
\<close>

theorem latency_window:
  assumes "hb_reachable c t0 (t, h, tr)"
  defines "recent \<equiv> drop (length (latencies tr) - 10) (latencies tr)"
  shows "latency_avg_ms h
       = (if latencies tr = [] then None else Some (sum_list recent / of_nat (length recent)))
     \<and> hb_last_latency h = (if latencies tr = [] then None else Some (last (latencies tr)))
     \<and> length (hb_latency_samples h) \<le> 10 \<and> (\<forall>l \<in> set (hb_latency_samples h). 0 \<le> l)"
proof -
  have "recent = [] \<longleftrightarrow> latencies tr = []"
    unfolding recent_def by (cases "latencies tr") (auto simp: diff_le_self)
  with hb_reachable_samples [OF assms(1)] show ?thesis
    by (auto simp: samples_inv_def latency_avg_ms_def recent_def dest: in_set_dropD)
qed

theorem latency_window_witness: "latency_avg_ms fresh_hb = None"
  using latency_window [OF fresh_hb_reachable] by (simp add: latencies_def List.map_filter_def)

subsection \<open>Application-level pings\<close>

text \<open>
  \<^verbatim>\<open>use_ws_ping\<close> and \<^verbatim>\<open>application_ping\<close> are validated and then read by nobody: whatever a heartbeat does
  with one setting of the two (pings, pongs, timeouts, with their times) it does with every other.
  An application-level ping is never sent.
\<close>

definition with_ping_fields :: "bool \<Rightarrow> (unit \<Rightarrow> 'm) option \<Rightarrow> 'm heartbeat \<Rightarrow> 'm heartbeat" where
  "with_ping_fields b g h = h\<lparr>hb_config := (hb_config h)\<lparr>hc_use_ws_ping := b, hc_application_ping := g\<rparr>\<rparr>"

lemma with_ping_fields_simps [simp]:
  "hb_task (with_ping_fields b g h) = hb_task h" "hb_running (with_ping_fields b g h) = hb_running h"
  "hb_pong_event (with_ping_fields b g h) = hb_pong_event h"
  "hb_last_ping_time (with_ping_fields b g h) = hb_last_ping_time h"
  by (simp_all add: with_ping_fields_def)

lemma with_ping_fields_commute:
  "hb_start (with_ping_fields b g h) = with_ping_fields b g (hb_start h)"
  "hb_stop (with_ping_fields b g h) = with_ping_fields b g (hb_stop h)"
  "hb_loop_head t (with_ping_fields b g h) = with_ping_fields b g (hb_loop_head t h)"
  "hb_wake t (with_ping_fields b g h) = with_ping_fields b g (hb_wake t h)"
  "hb_ping_sent t (with_ping_fields b g h) = with_ping_fields b g (hb_ping_sent t h)"
  "hb_wait_timeout t (with_ping_fields b g h) = with_ping_fields b g (hb_wait_timeout t h)"
  "on_pong t p (with_ping_fields b g h) = map_prod id (with_ping_fields b g) (on_pong t p h)"
  "on_application_message t d (with_ping_fields b g h)
     = map_prod id (with_ping_fields b g) (on_application_message t d h)"
  "(with_ping_fields b g h)\<lparr>hb_task := x\<rparr> = with_ping_fields b g (h\<lparr>hb_task := x\<rparr>)"
  by (simp_all add: with_ping_fields_def hb_op_defs set_event_def Let_def
      split: option.split sum.split bool.split)

lemma with_ping_fields_step:
  assumes "hb_step (t, h, tr) (t', h', tr')"
  shows "hb_step (t, with_ping_fields b g h, tr) (t', with_ping_fields b g h', tr')"
  using assms
proof cases
  case (pong payload r)
  then show ?thesis
    using hb_step.pong [of t payload "with_ping_fields b g h" r "with_ping_fields b g h'" tr]
    by (simp add: with_ping_fields_commute)
next
  case (app_message d r)
  then show ?thesis
    using hb_step.app_message [of t d "with_ping_fields b g h" r "with_ping_fields b g h'" tr]
    by (cases "r = Inr True") (simp_all add: with_ping_fields_commute)
qed (simp_all add: with_ping_fields_commute [symmetric] hb_step.intros)

theorem application_ping_ignored:
  assumes "hb_reachable c t0 (t, h, tr)"
  shows "hb_reachable (c\<lparr>hc_use_ws_ping := b, hc_application_ping := g\<rparr>) t0 (t, with_ping_fields b g h, tr)"
  using assms
proof (induction "(t, h, tr)" arbitrary: t h tr rule: hb_reachable.induct)
  case init
  have "with_ping_fields b g (new_heartbeat c) = new_heartbeat (c\<lparr>hc_use_ws_ping := b, hc_application_ping := g\<rparr>)"
    by (simp add: with_ping_fields_def new_heartbeat_def)
  then show ?case using hb_reachable.init by metis
next
  case (step s)
  then show ?case by (cases s) (auto intro: hb_reachable.step with_ping_fields_step)
qed

theorem application_ping_ignored_witness:
  "hb_reachable (default_heartbeat_config\<lparr>hc_use_ws_ping := False, hc_application_ping := Some (\<lambda>_. 7)\<rparr>) 0
     (40, with_ping_fields False (Some (\<lambda>_. 7)) silent_hb, [(30, LPing)])"
  by (rule application_ping_ignored [OF silent_hb_reachable])

end
