(* ===== verification/Jet_State.thy ===== *)
theory Jet_State
  imports Jet_Prelude
begin

text \<open>
  The connection state machine (\<^verbatim>\<open>src/jetsocket/state.py\<close>): the states, their
  classification, the table of valid transitions and the closure of that table.
\<close>

datatype conn_state =
    IDLE | CONNECTING | CONNECTED | DISCONNECTING | DISCONNECTED
  | RECONNECTING | BACKING_OFF | FAILED | CLOSED

instantiation conn_state :: enum
begin

definition enum_conn_state :: "conn_state list" where
  "enum_conn_state = [IDLE, CONNECTING, CONNECTED, DISCONNECTING, DISCONNECTED,
     RECONNECTING, BACKING_OFF, FAILED, CLOSED]"

definition enum_all_conn_state :: "(conn_state \<Rightarrow> bool) \<Rightarrow> bool" where
  "enum_all_conn_state P \<longleftrightarrow> list_all P enum_class.enum"

definition enum_ex_conn_state :: "(conn_state \<Rightarrow> bool) \<Rightarrow> bool" where
  "enum_ex_conn_state P \<longleftrightarrow> list_ex P enum_class.enum"

instance
proof
  show univ: "(UNIV :: conn_state set) = set enum_class.enum"
    by (auto simp: enum_conn_state_def) (metis conn_state.exhaust)
  show "distinct (enum_class.enum :: conn_state list)"
    by (simp add: enum_conn_state_def)
  show "enum_class.enum_all P \<longleftrightarrow> Ball UNIV P" for P :: "conn_state \<Rightarrow> bool"
    by (simp add: univ enum_all_conn_state_def list_all_iff)
  show "enum_class.enum_ex P \<longleftrightarrow> Bex UNIV P" for P :: "conn_state \<Rightarrow> bool"
    by (simp add: univ enum_ex_conn_state_def list_ex_iff)
qed

end

fun state_value :: "conn_state \<Rightarrow> string" where
  "state_value IDLE = ''idle''"
| "state_value CONNECTING = ''connecting''"
| "state_value CONNECTED = ''connected''"
| "state_value DISCONNECTING = ''disconnecting''"
| "state_value DISCONNECTED = ''disconnected''"
| "state_value RECONNECTING = ''reconnecting''"
| "state_value BACKING_OFF = ''backing_off''"
| "state_value FAILED = ''failed''"
| "state_value CLOSED = ''closed''"

definition is_active :: "conn_state \<Rightarrow> bool" where
  "is_active s \<longleftrightarrow> s \<in> {CONNECTING, CONNECTED}"

definition is_terminal :: "conn_state \<Rightarrow> bool" where
  "is_terminal s \<longleftrightarrow> s \<in> {FAILED, CLOSED}"

definition can_send :: "conn_state \<Rightarrow> bool" where
  "can_send s \<longleftrightarrow> s = CONNECTED"

definition can_reconnect :: "conn_state \<Rightarrow> bool" where
  "can_reconnect s \<longleftrightarrow> s \<in> {DISCONNECTED, RECONNECTING, BACKING_OFF}"

fun VALID_TRANSITIONS :: "conn_state \<Rightarrow> conn_state set" where
  "VALID_TRANSITIONS IDLE = {CONNECTING}"
| "VALID_TRANSITIONS CONNECTING = {CONNECTED, BACKING_OFF, FAILED}"
| "VALID_TRANSITIONS CONNECTED = {DISCONNECTING, DISCONNECTED, RECONNECTING}"
| "VALID_TRANSITIONS DISCONNECTING = {DISCONNECTED, CLOSED}"
| "VALID_TRANSITIONS DISCONNECTED = {RECONNECTING, CLOSED}"
| "VALID_TRANSITIONS RECONNECTING = {BACKING_OFF, CONNECTING, FAILED}"
| "VALID_TRANSITIONS BACKING_OFF = {CONNECTING, FAILED, CLOSED}"
| "VALID_TRANSITIONS FAILED = {}"
| "VALID_TRANSITIONS CLOSED = {}"

definition is_valid_transition :: "conn_state \<Rightarrow> conn_state \<Rightarrow> bool" where
  "is_valid_transition from_state to_state \<longleftrightarrow> to_state \<in> VALID_TRANSITIONS from_state"

lemmas state_defs = is_active_def is_terminal_def can_send_def can_reconnect_def
  is_valid_transition_def

subsection \<open>Paths through the table\<close>

text \<open>A path follows valid transitions only.\<close>

inductive valid_path :: "conn_state \<Rightarrow> conn_state \<Rightarrow> bool" where
  here: "valid_path s s"
| step: "valid_path s t \<Longrightarrow> is_valid_transition t u \<Longrightarrow> valid_path s u"

inductive_cases valid_path_from: "valid_path s t"

lemma valid_path_trans: "valid_path s t \<Longrightarrow> valid_path t u \<Longrightarrow> valid_path s u"
  by (rotate_tac, induction rule: valid_path.induct) (auto intro: valid_path.intros)

lemma valid_path_first: "is_valid_transition s t \<Longrightarrow> valid_path t u \<Longrightarrow> valid_path s u"
  by (meson valid_path.intros valid_path_trans)

lemma is_terminal_iff_no_successor: "is_terminal s \<longleftrightarrow> (\<forall>t. \<not> is_valid_transition s t)"
  by (cases s) (auto simp: state_defs)

lemma valid_path_from_terminal: "valid_path s t \<Longrightarrow> is_terminal s \<Longrightarrow> t = s"
  by (induction rule: valid_path.induct) (auto simp: is_terminal_iff_no_successor)

lemma valid_path_into_IDLE: "valid_path s t \<Longrightarrow> t = IDLE \<Longrightarrow> s = IDLE"
proof (induction rule: valid_path.induct)
  case (step s t u)
  then show ?case by (cases t) (auto simp: state_defs)
qed simp

text \<open>
  The table is well formed: \<^verbatim>\<open>is_terminal\<close> names exactly the states without a successor and
  nothing else is reachable from them; \<^verbatim>\<open>IDLE\<close> is never entered again; from every state some
  terminal state can be reached; and only \<^verbatim>\<open>CONNECTING\<close> leads to a state in which messages can be
  sent.
\<close>

theorem transition_table_sound:
  "(is_terminal s \<longleftrightarrow> (\<forall>t. \<not> is_valid_transition s t))
   \<and> (is_terminal s \<and> valid_path s t \<longrightarrow> t = s) \<and> (valid_path s IDLE \<longrightarrow> s = IDLE)
   \<and> (\<exists>t. is_terminal t \<and> valid_path s t)
   \<and> (is_valid_transition s t \<and> can_send t \<longrightarrow> s = CONNECTING)"
proof -
  have connecting: "valid_path CONNECTING FAILED" and backing: "valid_path BACKING_OFF CLOSED"
    and disconnected: "valid_path DISCONNECTED CLOSED"
    by (rule valid_path.step [OF valid_path.here]; simp add: state_defs)+
  have "valid_path IDLE FAILED"
    by (rule valid_path_first [OF _ connecting]) (simp add: state_defs)
  moreover have "valid_path CONNECTED CLOSED" "valid_path DISCONNECTING CLOSED"
    by (rule valid_path_first [OF _ disconnected]; simp add: state_defs)+
  moreover have "valid_path RECONNECTING CLOSED"
    by (rule valid_path_first [OF _ backing]) (simp add: state_defs)
  ultimately have "\<exists>t. is_terminal t \<and> valid_path s t"
    using connecting backing disconnected valid_path.here
    by (cases s) (auto simp: is_terminal_def)
  moreover have "is_valid_transition s t \<and> can_send t \<longrightarrow> s = CONNECTING"
    by (cases s) (auto simp: state_defs)
  ultimately show ?thesis
    using is_terminal_iff_no_successor valid_path_from_terminal valid_path_into_IDLE by blast
qed

theorem transition_table_sound_witness: "is_terminal CLOSED \<and> valid_path CLOSED CLOSED \<and> (\<exists>t. is_terminal t \<and> valid_path IDLE t)"
  using transition_table_sound [of IDLE CLOSED] valid_path.here [of CLOSED] by (simp add: is_terminal_def)

end
