(* ===== verification/Jet_Stats.thy ===== *)
theory Jet_Stats
  imports Jet_State
begin

text \<open>
  Connection statistics (\<^verbatim>\<open>src/jetsocket/stats.py\<close>). A reading of the monotonic clock is an
  argument \<^verbatim>\<open>now\<close>, a wall-clock reading (\<^verbatim>\<open>datetime.now(timezone.utc)\<close>) an argument \<^verbatim>\<open>utc\<close>.
\<close>

record connection_stats =
  cs_state :: conn_state
  cs_uptime_seconds :: pyfloat
  cs_messages_sent :: nat
  cs_messages_received :: nat
  cs_bytes_sent :: nat
  cs_bytes_received :: nat
  cs_reconnect_count :: nat
  cs_last_reconnect_at :: "pyfloat option"
  cs_latency_ms :: "pyfloat option"
  cs_latency_avg_ms :: "pyfloat option"
  cs_last_message_at :: "pyfloat option"
  cs_connection_age_seconds :: pyfloat
  cs_errors :: nat

record stats =
  st_state :: "conn_state option"
  st_messages_sent :: nat
  st_messages_received :: nat
  st_bytes_sent :: nat
  st_bytes_received :: nat
  st_reconnect_count :: nat
  st_errors :: nat
  st_connected_at :: "pyfloat option"
  st_first_connect_at :: "pyfloat option"
  st_last_reconnect_at :: "pyfloat option"
  st_last_message_at :: "pyfloat option"
  st_latency_ms :: "pyfloat option"
  st_latency_avg_ms :: "pyfloat option"

definition new_stats :: stats where
  "new_stats = \<lparr>st_state = None, st_messages_sent = 0, st_messages_received = 0, st_bytes_sent = 0,
     st_bytes_received = 0, st_reconnect_count = 0, st_errors = 0, st_connected_at = None,
     st_first_connect_at = None, st_last_reconnect_at = None, st_last_message_at = None,
     st_latency_ms = None, st_latency_avg_ms = None\<rparr>"

definition stats_get_state :: "stats \<Rightarrow> conn_state" where
  "stats_get_state s = (case st_state s of None \<Rightarrow> IDLE | Some x \<Rightarrow> x)"

definition stats_set_state :: "conn_state \<Rightarrow> stats \<Rightarrow> stats" where
  "stats_set_state value s = s\<lparr>st_state := Some value\<rparr>"

definition mark_connected :: "pyfloat \<Rightarrow> stats \<Rightarrow> stats" where
  "mark_connected now s =
     (let s1 = s\<lparr>st_connected_at := Some now\<rparr>
      in if st_first_connect_at s1 = None then s1\<lparr>st_first_connect_at := Some now\<rparr> else s1)"

definition mark_disconnected :: "stats \<Rightarrow> stats" where
  "mark_disconnected s = s\<lparr>st_connected_at := None\<rparr>"

definition mark_reconnected :: "pyfloat \<Rightarrow> pyfloat \<Rightarrow> stats \<Rightarrow> stats" where
  "mark_reconnected now utc s =
     mark_connected now (s\<lparr>st_reconnect_count := st_reconnect_count s + 1, st_last_reconnect_at := Some utc\<rparr>)"

definition record_message_sent :: "pyfloat \<Rightarrow> nat \<Rightarrow> stats \<Rightarrow> stats" where
  "record_message_sent utc byte_count s =
     s\<lparr>st_messages_sent := st_messages_sent s + 1, st_bytes_sent := st_bytes_sent s + byte_count,
       st_last_message_at := Some utc\<rparr>"

definition record_message_received :: "pyfloat \<Rightarrow> nat \<Rightarrow> stats \<Rightarrow> stats" where
  "record_message_received utc byte_count s =
     s\<lparr>st_messages_received := st_messages_received s + 1,
       st_bytes_received := st_bytes_received s + byte_count, st_last_message_at := Some utc\<rparr>"

definition record_error :: "stats \<Rightarrow> stats" where
  "record_error s = s\<lparr>st_errors := st_errors s + 1\<rparr>"

definition update_latency :: "pyfloat \<Rightarrow> pyfloat option \<Rightarrow> stats \<Rightarrow> stats" where
  "update_latency latency_ms avg_ms s = s\<lparr>st_latency_ms := Some latency_ms, st_latency_avg_ms := avg_ms\<rparr>"

definition stats_reset :: "stats \<Rightarrow> stats" where
  "stats_reset s =
     s\<lparr>st_messages_sent := 0, st_messages_received := 0, st_bytes_sent := 0, st_bytes_received := 0,
       st_reconnect_count := 0, st_errors := 0, st_connected_at := None, st_first_connect_at := None,
       st_last_reconnect_at := None, st_last_message_at := None, st_latency_ms := None,
       st_latency_avg_ms := None\<rparr>"

definition snapshot :: "pyfloat \<Rightarrow> stats \<Rightarrow> connection_stats" where
  "snapshot now s =
     \<lparr>cs_state = stats_get_state s,
      cs_uptime_seconds = (case st_connected_at s of Some t \<Rightarrow> now - t | None \<Rightarrow> 0),
      cs_messages_sent = st_messages_sent s, cs_messages_received = st_messages_received s,
      cs_bytes_sent = st_bytes_sent s, cs_bytes_received = st_bytes_received s,
      cs_reconnect_count = st_reconnect_count s, cs_last_reconnect_at = st_last_reconnect_at s,
      cs_latency_ms = st_latency_ms s, cs_latency_avg_ms = st_latency_avg_ms s,
      cs_last_message_at = st_last_message_at s,
      cs_connection_age_seconds = (case st_first_connect_at s of Some t \<Rightarrow> now - t | None \<Rightarrow> 0),
      cs_errors = st_errors s\<rparr>"

subsection \<open>Accounting\<close>

datatype stats_op =
    MarkConnected | MarkDisconnected | MarkReconnected
  | Sent nat | Received nat | Errored | Latency pyfloat "pyfloat option" | SetState conn_state | ResetStats

fun stats_apply :: "pyfloat \<times> pyfloat \<times> stats_op \<Rightarrow> stats \<Rightarrow> stats" where
  "stats_apply (now, utc, MarkConnected) s = mark_connected now s"
| "stats_apply (now, utc, MarkDisconnected) s = mark_disconnected s"
| "stats_apply (now, utc, MarkReconnected) s = mark_reconnected now utc s"
| "stats_apply (now, utc, Sent n) s = record_message_sent utc n s"
| "stats_apply (now, utc, Received n) s = record_message_received utc n s"
| "stats_apply (now, utc, Errored) s = record_error s"
| "stats_apply (now, utc, Latency l a) s = update_latency l a s"
| "stats_apply (now, utc, SetState x) s = stats_set_state x s"
| "stats_apply (now, utc, ResetStats) s = stats_reset s"

definition stats_run :: "(pyfloat \<times> pyfloat \<times> stats_op) list \<Rightarrow> stats \<Rightarrow> stats" where
  "stats_run ops s = fold stats_apply ops s"

lemmas stats_op_defs = mark_connected_def mark_disconnected_def mark_reconnected_def
  record_message_sent_def record_message_received_def record_error_def update_latency_def
  stats_set_state_def stats_reset_def

definition sizes_sent :: "(pyfloat \<times> pyfloat \<times> stats_op) list \<Rightarrow> nat list" where
  "sizes_sent ops = List.map_filter (\<lambda>(_, _, x). case x of Sent n \<Rightarrow> Some n | _ \<Rightarrow> None) ops"

definition sizes_received :: "(pyfloat \<times> pyfloat \<times> stats_op) list \<Rightarrow> nat list" where
  "sizes_received ops = List.map_filter (\<lambda>(_, _, x). case x of Received n \<Rightarrow> Some n | _ \<Rightarrow> None) ops"

lemma stats_run_counts:
  assumes "ResetStats \<notin> (snd \<circ> snd) ` set ops"
  shows "st_messages_sent (stats_run ops s) = st_messages_sent s + length (sizes_sent ops)
     \<and> st_bytes_sent (stats_run ops s) = st_bytes_sent s + sum_list (sizes_sent ops)
     \<and> st_messages_received (stats_run ops s) = st_messages_received s + length (sizes_received ops)
     \<and> st_bytes_received (stats_run ops s) = st_bytes_received s + sum_list (sizes_received ops)"
  using assms
proof (induction ops arbitrary: s)
  case (Cons p ops)
  obtain now utc x where p: "p = (now, utc, x)" by (cases p)
  have "stats_run (p # ops) s = stats_run ops (stats_apply p s)" by (simp add: stats_run_def)
  with Cons p show ?case
    by (cases x) (simp_all add: sizes_sent_def sizes_received_def List.map_filter_simps stats_op_defs Let_def)
qed (simp add: stats_run_def sizes_sent_def sizes_received_def List.map_filter_simps)

definition clocks_ordered :: "pyfloat \<Rightarrow> stats \<Rightarrow> bool" where
  "clocks_ordered now s \<longleftrightarrow>
     (\<forall>t. st_connected_at s = Some t \<longrightarrow> t \<le> now \<and> (\<exists>f \<le> t. st_first_connect_at s = Some f))
     \<and> (\<forall>f. st_first_connect_at s = Some f \<longrightarrow> f \<le> now)"

lemma clocks_ordered_apply:
  assumes "clocks_ordered t s" and "t \<le> now"
  shows "clocks_ordered now (stats_apply (now, utc, x) s)"
  using assms by (cases x) (force simp: clocks_ordered_def stats_op_defs Let_def)+

lemma clocks_ordered_run:
  assumes "clocks_ordered t s" and "sorted (t # map fst ops)"
  shows "clocks_ordered (last (t # map fst ops)) (stats_run ops s)"
  using assms
proof (induction ops arbitrary: t s)
  case (Cons p ops)
  obtain now utc x where p: "p = (now, utc, x)" by (cases p)
  have "clocks_ordered now (stats_apply p s)"
    using clocks_ordered_apply [OF Cons.prems(1), of now utc x] Cons.prems(2) p by simp
  from Cons.IH [OF this] Cons.prems(2) p show ?case by (simp add: stats_run_def)
qed (simp add: stats_run_def)

text \<open>
  The statistics add up: after any sequence of operations without a reset, performed on a
  monotonic clock, a snapshot reports the number and total size of the messages sent and
  received, and \<^verbatim>\<open>0 \<le> uptime \<le> connection age\<close>.
\<close>

theorem stats_add_up:
  assumes "ResetStats \<notin> (snd \<circ> snd) ` set ops" and "sorted (map fst ops @ [now])"
  defines "cs \<equiv> snapshot now (stats_run ops new_stats)"
  shows "cs_messages_sent cs = length (sizes_sent ops) \<and> cs_bytes_sent cs = sum_list (sizes_sent ops)
     \<and> cs_messages_received cs = length (sizes_received ops)
     \<and> cs_bytes_received cs = sum_list (sizes_received ops)
     \<and> 0 \<le> cs_uptime_seconds cs \<and> cs_uptime_seconds cs \<le> cs_connection_age_seconds cs"
proof -
  let ?s = "stats_run ops new_stats"
  obtain t where t: "sorted (t # map fst ops)" "last (t # map fst ops) \<le> now"
  proof (cases ops)
    case Nil
    then show ?thesis using that [of now] by simp
  next
    case (Cons p ps)
    then have "last (fst p # map fst ops) \<in> fst ` set ops" by (auto simp: last_map)
    moreover have "x \<le> now" if "x \<in> fst ` set ops" for x using that assms(2) by (auto simp: sorted_append)
    ultimately show ?thesis using that [of "fst p"] assms(2) Cons by (auto simp: sorted_append)
  qed
  have "clocks_ordered t new_stats" by (simp add: clocks_ordered_def new_stats_def)
  from clocks_ordered_run [OF this t(1)] t(2) have c: "clocks_ordered now ?s"
    by (force simp: clocks_ordered_def)
  then have "0 \<le> cs_uptime_seconds cs \<and> cs_uptime_seconds cs \<le> cs_connection_age_seconds cs"
    unfolding cs_def snapshot_def clocks_ordered_def by (auto split: option.splits)
  with stats_run_counts [OF assms(1), of new_stats] show ?thesis
    by (simp add: cs_def snapshot_def new_stats_def)
qed

theorem stats_add_up_witness:
  "cs_bytes_sent (snapshot 9 (stats_run [(1, 0, MarkConnected), (2, 0, Sent 5), (3, 0, Sent 7)] new_stats)) = 12"
  using stats_add_up [of "[(1, 0, MarkConnected), (2, 0, Sent 5), (3, 0, Sent 7)]" 9]
  by (simp add: sizes_sent_def List.map_filter_simps)

end
