(* ===== verification/Jet_Events.thy ===== *)
theory Jet_Events
  imports Jet_Exceptions Jet_State
begin

text \<open>
  Events (\<^verbatim>\<open>src/jetsocket/events.py\<close>): the event objects and the emitter that dispatches them.

  The event classes become the constructors of one datatype, with the type of a decoded message
  and of a sequence identifier as parameters. The emitter maps an event name to its handlers in
  registration order (\<^verbatim>\<open>dict\<close> as an association list in insertion order). What a handler does is a parameter:
  calling it, and awaiting the coroutine it may return, transforms a state of the application,
  which may contain the emitter itself, and may raise. Raising is restricted to the subclasses
  of \<^verbatim>\<open>Exception\<close>, the ones the emitter catches.
\<close>

datatype initiator = Local | Remote

datatype ('m, 's) event_data =
    ConnectingEvent string int
  | ConnectedEvent string "string option" "string list"
  | DisconnectedEvent int string bool
  | ReconnectingEvent int pyfloat "exn option"
  | ReconnectedEvent string int pyfloat
  | MessageEvent 'm bytes
  | RawMessageEvent bytes int
  | ErrorEvent exn bool
  | StateChangeEvent conn_state conn_state
  | PingEvent bytes
  | PongEvent bytes "pyfloat option"
  | ClosingEvent int string initiator
  | ClosedEvent int string bool
  | ReplayStartedEvent string "'s option" nat
  | ReplayCompletedEvent string nat pyfloat
  | BufferOverflowEvent int nat string

text \<open>The name under which the library emits each kind of event.\<close>

fun event_name :: "('m, 's) event_data \<Rightarrow> string" where
  "event_name (ConnectingEvent _ _) = ''connecting''"
| "event_name (ConnectedEvent _ _ _) = ''connected''"
| "event_name (DisconnectedEvent _ _ _) = ''disconnected''"
| "event_name (ReconnectingEvent _ _ _) = ''reconnecting''"
| "event_name (ReconnectedEvent _ _ _) = ''reconnected''"
| "event_name (MessageEvent _ _) = ''message''"
| "event_name (RawMessageEvent _ _) = ''raw_message''"
| "event_name (ErrorEvent _ _) = ''error''"
| "event_name (StateChangeEvent _ _) = ''state_change''"
| "event_name (PingEvent _) = ''ping''"
| "event_name (PongEvent _ _) = ''pong''"
| "event_name (ClosingEvent _ _ _) = ''closing''"
| "event_name (ClosedEvent _ _ _) = ''closed''"
| "event_name (ReplayStartedEvent _ _ _) = ''replay_started''"
| "event_name (ReplayCompletedEvent _ _ _) = ''replay_completed''"
| "event_name (BufferOverflowEvent _ _ _) = ''buffer_overflow''"

subsection \<open>The emitter\<close>

type_synonym 'h emitter = "(string \<times> 'h list) list"

definition new_emitter :: "'h emitter" where
  "new_emitter = []"

definition add_handler :: "string \<Rightarrow> 'h \<Rightarrow> 'h emitter \<Rightarrow> 'h emitter" where
  "add_handler event handler em =
     (let em1 = (if map_of em event = None then dict_set event [] em else em);
          hs = the (map_of em1 event)
      in if \<not> List.member hs handler then dict_set event (hs @ [handler]) em1 else em1)"

text \<open>\<^verbatim>\<open>on(event)\<close> returns a decorator; applied to a handler it registers and returns it.\<close>

definition on_decorator :: "string \<Rightarrow> 'h \<Rightarrow> 'h emitter \<Rightarrow> 'h \<times> 'h emitter" where
  "on_decorator event handler em = (handler, add_handler event handler em)"

definition remove_handler :: "string \<Rightarrow> 'h \<Rightarrow> 'h emitter \<Rightarrow> bool \<times> 'h emitter" where
  "remove_handler event handler em =
     (case map_of em event of
        Some hs \<Rightarrow> if List.member hs handler then (True, dict_set event (remove1 handler hs) em) else (False, em)
      | None \<Rightarrow> (False, em))"

definition clear_handlers :: "string option \<Rightarrow> 'h emitter \<Rightarrow> 'h emitter" where
  "clear_handlers event em =
     (case event of
        None \<Rightarrow> []
      | Some e \<Rightarrow> if map_of em e \<noteq> None then dict_set e [] em else em)"

definition handlers_of :: "string \<Rightarrow> 'h emitter \<Rightarrow> 'h list" where
  "handlers_of event em = (case map_of em event of None \<Rightarrow> [] | Some hs \<Rightarrow> hs)"

definition handler_count :: "string option \<Rightarrow> 'h emitter \<Rightarrow> nat" where
  "handler_count event em =
     (case event of
        None \<Rightarrow> sum_list (map (length \<circ> snd) em)
      | Some e \<Rightarrow> length (handlers_of e em))"

text \<open>
  Calling a handler gives a plain value or a coroutine; \<^verbatim>\<open>emit_async\<close> awaits the latter,
  \<^verbatim>\<open>emit_sync\<close> schedules it on the running loop or, when there is none, closes it.
\<close>

datatype call_result = Value | Coroutine

type_synonym ('h, 'd, 'w) handler_call = "'h \<Rightarrow> 'd \<Rightarrow> 'w \<Rightarrow> (exn + call_result) \<times> 'w"
type_synonym ('h, 'd, 'w) handler_await = "'h \<Rightarrow> 'd \<Rightarrow> 'w \<Rightarrow> (exn + unit) \<times> 'w"

primrec emit_async_loop :: "('h, 'd, 'w) handler_call \<Rightarrow> ('h, 'd, 'w) handler_await
    \<Rightarrow> 'd \<Rightarrow> 'h list \<Rightarrow> 'w \<Rightarrow> 'w" where
  "emit_async_loop call await data [] w = w"
| "emit_async_loop call await data (handler # handlers) w =
     (let (result, w1) = call handler data w;
          w2 = (case result of
                  Inl _ \<Rightarrow> w1
                | Inr Value \<Rightarrow> w1
                | Inr Coroutine \<Rightarrow> snd (await handler data w1))
      in emit_async_loop call await data handlers w2)"

definition emit_async :: "('w \<Rightarrow> 'h emitter) \<Rightarrow> ('h, 'd, 'w) handler_call \<Rightarrow> ('h, 'd, 'w) handler_await
    \<Rightarrow> string \<Rightarrow> 'd \<Rightarrow> 'w \<Rightarrow> 'w" where
  "emit_async emitter call await event data w =
     emit_async_loop call await data (handlers_of event (emitter w)) w"

primrec emit_sync_loop :: "bool \<Rightarrow> ('h, 'd, 'w) handler_call \<Rightarrow> ('h \<Rightarrow> 'd \<Rightarrow> 'w \<Rightarrow> 'w)
    \<Rightarrow> 'd \<Rightarrow> 'h list \<Rightarrow> 'w \<Rightarrow> 'w" where
  "emit_sync_loop running call create_task data [] w = w"
| "emit_sync_loop running call create_task data (handler # handlers) w =
     (let (result, w1) = call handler data w;
          w2 = (case result of
                  Inl _ \<Rightarrow> w1
                | Inr Value \<Rightarrow> w1
                | Inr Coroutine \<Rightarrow> if running then create_task handler data w1 else w1)
      in emit_sync_loop running call create_task data handlers w2)"

definition emit_sync :: "('w \<Rightarrow> 'h emitter) \<Rightarrow> bool \<Rightarrow> ('h, 'd, 'w) handler_call
    \<Rightarrow> ('h \<Rightarrow> 'd \<Rightarrow> 'w \<Rightarrow> 'w) \<Rightarrow> string \<Rightarrow> 'd \<Rightarrow> 'w \<Rightarrow> 'w" where
  "emit_sync emitter running call create_task event data w =
     emit_sync_loop running call create_task data (handlers_of event (emitter w)) w"

subsection \<open>Registration\<close>

definition emitter_inv :: "'h emitter \<Rightarrow> bool" where
  "emitter_inv em \<longleftrightarrow> distinct (map fst em) \<and> (\<forall>(e, hs) \<in> set em. distinct hs)"

lemma emitter_inv_lookup: "emitter_inv em \<Longrightarrow> map_of em e = Some hs \<Longrightarrow> distinct hs"
  using map_of_SomeD by (fastforce simp: emitter_inv_def)

lemma emitter_inv_dict_set: "emitter_inv em \<Longrightarrow> distinct hs \<Longrightarrow> emitter_inv (dict_set e hs em)"
proof -
  have "set (dict_set e hs em) \<subseteq> insert (e, hs) (set em)"
    by (induction e hs em rule: dict_set.induct) auto
  then show "emitter_inv em \<Longrightarrow> distinct hs \<Longrightarrow> emitter_inv (dict_set e hs em)"
    by (fastforce simp: emitter_inv_def dict_set_distinct)
qed

lemma handlers_of_add:
  "handlers_of e (add_handler e' h em) =
     (if e = e' \<and> h \<notin> set (handlers_of e em) then handlers_of e em @ [h] else handlers_of e em)"
  by (auto simp: handlers_of_def add_handler_def Let_def split: option.splits)

lemma handlers_of_remove:
  "handlers_of e (snd (remove_handler e' h em)) =
     (if e = e' then remove1 h (handlers_of e em) else handlers_of e em)"
  "fst (remove_handler e' h em) \<longleftrightarrow> h \<in> set (handlers_of e' em)"
  by (auto simp: handlers_of_def remove_handler_def remove1_idem split: option.splits)

lemma handlers_of_clear:
  "handlers_of e (clear_handlers ev em) = (if ev = None \<or> ev = Some e then [] else handlers_of e em)"
  by (auto simp: handlers_of_def clear_handlers_def split: option.splits)

lemma emitter_inv_ops [jet_inv]:
  "emitter_inv new_emitter"
  "emitter_inv em \<Longrightarrow> emitter_inv (add_handler e h em)"
  "emitter_inv em \<Longrightarrow> emitter_inv (snd (remove_handler e h em))"
  "emitter_inv em \<Longrightarrow> emitter_inv (clear_handlers ev em)"
proof -
  show "emitter_inv new_emitter" by (simp add: emitter_inv_def new_emitter_def)
  assume inv: "emitter_inv em"
  let ?em1 = "if map_of em e = None then dict_set e [] em else em"
  have inv1: "emitter_inv ?em1" using inv by (simp add: emitter_inv_dict_set)
  moreover have "distinct (the (map_of ?em1 e))"
    using inv emitter_inv_lookup [OF inv, of e] by (auto split: option.splits)
  ultimately show "emitter_inv (add_handler e h em)"
    unfolding add_handler_def Let_def by (simp add: emitter_inv_dict_set)
  show "emitter_inv (snd (remove_handler e h em))"
    using inv emitter_inv_lookup [OF inv, of e]
    by (auto simp: remove_handler_def emitter_inv_dict_set distinct_remove1 split: option.split)
  show "emitter_inv (clear_handlers ev em)"
    using inv by (auto simp: clear_handlers_def emitter_inv_dict_set emitter_inv_def [of "[]"] split: option.split)
qed

text \<open>
  Registration is idempotent and undone by removal: registering a handler makes it the last
  one of its event unless it was already there, in which case nothing changes; removing it
  afterwards finds it, and brings back the handler list when it was new; other events are not
  touched.
\<close>

theorem handler_registration:
  assumes "emitter_inv em"
  shows "handlers_of e (add_handler e h em)
       = (if h \<in> set (handlers_of e em) then handlers_of e em else handlers_of e em @ [h])
     \<and> handlers_of e (add_handler e h (add_handler e h em)) = handlers_of e (add_handler e h em)
     \<and> fst (remove_handler e h (add_handler e h em))
     \<and> (h \<notin> set (handlers_of e em) \<longrightarrow>
          handlers_of e (snd (remove_handler e h (add_handler e h em))) = handlers_of e em)
     \<and> h \<notin> set (handlers_of e (snd (remove_handler e h em)))
     \<and> (e' \<noteq> e \<longrightarrow> handlers_of e' (add_handler e h em) = handlers_of e' em
          \<and> handlers_of e' (snd (remove_handler e h em)) = handlers_of e' em)"
proof -
  have "distinct (handlers_of e em)"
    using emitter_inv_lookup [OF assms] by (auto simp: handlers_of_def split: option.split)
  then show ?thesis
    by (auto simp: handlers_of_add handlers_of_remove remove1_append distinct_remove1_removeAll)
qed

theorem handler_registration_witness:
  "handlers_of ''message'' (snd (remove_handler ''message'' (3 :: nat)
      (add_handler ''message'' 3 (add_handler ''message'' 2 new_emitter)))) = [2]"
  using handler_registration [of "add_handler ''message'' (2 :: nat) new_emitter" "''message''" 3]
  by (simp add: jet_inv handlers_of_add) (simp add: handlers_of_def new_emitter_def)

subsection \<open>Dispatch\<close>

text \<open>
  Instrumentation: a call that also notes the handler in a log. The rest of the application's
  state, and with it the emitter, may be changed by the handler in any way.
\<close>

definition noting :: "('h, 'd, 'w) handler_call \<Rightarrow> ('h, 'd, 'h list \<times> 'w) handler_call" where
  "noting call h d = (\<lambda>(calls, w). let (r, w') = call h d w in (r, calls @ [h], w'))"

definition below :: "('h \<Rightarrow> 'd \<Rightarrow> 'w \<Rightarrow> 'r \<times> 'w) \<Rightarrow> 'h \<Rightarrow> 'd \<Rightarrow> 'l \<times> 'w \<Rightarrow> 'r \<times> 'l \<times> 'w" where
  "below f h d = (\<lambda>(calls, w). let (r, w') = f h d w in (r, calls, w'))"

lemma emit_async_loop_log:
  "fst (emit_async_loop (noting call) (below await) d hs (calls, w)) = calls @ hs"
  by (induction hs arbitrary: calls w)
     (auto simp: noting_def below_def split_def Let_def split: sum.split call_result.split)

text \<open>
  Emitting an event calls every handler registered for it at that moment exactly once and in
  registration order, even when some of them raise, return coroutines that raise, or add and
  remove handlers while the emission is going on.
\<close>

theorem emit_async_calls_all:
  "fst (emit_async (emitter \<circ> snd) (noting call) (below await) event data (calls, w))
     = calls @ handlers_of event (emitter w)"
  by (simp add: emit_async_def emit_async_loop_log)

end
