(* ===== verification/Jet_Ring_Buffer.thy ===== *)
theory Jet_Ring_Buffer
  imports Jet_Exceptions
begin

text \<open>
  The ring buffers: \<^verbatim>\<open>RingBuffer\<close> of \<^verbatim>\<open>src/jetsocket/_core.pyx\<close>, which \<^verbatim>\<open>MessageBuffer\<close> uses,
  and its pure-Python twin \<^verbatim>\<open>_PythonRingBuffer\<close> of \<^verbatim>\<open>src/jetsocket/buffer.py\<close>. Both keep a
  fixed array of cells, indices of head and tail, a length and a count of dropped items. A stored
  cell is a pair of an item and an optional sequence identifier; an item is of type \<^typ>\<open>'a option\<close>
  because \<^verbatim>\<open>None\<close> is a legal message (JSON \<^verbatim>\<open>null\<close>) that \<^verbatim>\<open>pop\<close> and \<^verbatim>\<open>drain\<close> cannot tell
  from an empty answer.

  The locale \<^verbatim>\<open>bounded_queue\<close> is the contract the message buffer relies on: a FIFO queue of
  bounded length with three overflow policies. Both classes are interpretations of it.
\<close>

type_synonym ('a, 's) cell = "'a option \<times> 's option"

record ('a, 's) ring =
  rb_buffer :: "('a, 's) cell option list"
  rb_head :: nat
  rb_tail :: nat
  rb_len :: nat
  rb_capacity :: nat
  rb_policy :: string
  rb_total_dropped :: nat

subsection \<open>\<^verbatim>\<open>RingBuffer\<close> of the core module\<close>

definition ring_new :: "int \<Rightarrow> string \<Rightarrow> exn + ('a, 's) ring" where
  "ring_new capacity policy =
     (if capacity \<le> 0 then Inl (ValueError ''Buffer capacity must be greater than 0'')
      else Inr \<lparr>rb_buffer = replicate (nat capacity) None, rb_head = 0, rb_tail = 0, rb_len = 0,
                rb_capacity = nat capacity, rb_policy = policy, rb_total_dropped = 0\<rparr>)"

text \<open>The part of \<^verbatim>\<open>push\<close> that stores the item.\<close>

definition ring_store :: "('a, 's) cell \<Rightarrow> ('a, 's) ring \<Rightarrow> ('a, 's) ring" where
  "ring_store c r =
     r\<lparr>rb_buffer := (rb_buffer r)[rb_tail r := Some c],
       rb_tail := (rb_tail r + 1) mod rb_capacity r,
       rb_len := rb_len r + 1\<rparr>"

definition ring_push :: "'a option \<Rightarrow> 's option \<Rightarrow> ('a, 's) ring \<Rightarrow> exn + bool \<times> ('a, 's) ring" where
  "ring_push item sequence_id r =
     (if rb_len r = rb_capacity r then
        (if rb_policy r = ''drop_oldest'' then
           Inr (True, ring_store (item, sequence_id)
                  (r\<lparr>rb_head := (rb_head r + 1) mod rb_capacity r, rb_len := rb_len r - 1,
                     rb_total_dropped := rb_total_dropped r + 1\<rparr>))
         else if rb_policy r = ''drop_newest'' then
           Inr (False, r\<lparr>rb_total_dropped := rb_total_dropped r + 1\<rparr>)
         else Inl (BufferOverflowError ''Buffer is full'' (int (rb_capacity r)) (int (rb_len r))))
      else Inr (True, ring_store (item, sequence_id) r))"

text \<open>The step that \<^verbatim>\<open>pop\<close> and the two drain loops share: take the cell at the head.\<close>

definition ring_take :: "('a, 's) ring \<Rightarrow> ('a, 's) cell option \<times> ('a, 's) ring" where
  "ring_take r =
     (rb_buffer r ! rb_head r,
      r\<lparr>rb_buffer := (rb_buffer r)[rb_head r := None],
        rb_head := (rb_head r + 1) mod rb_capacity r,
        rb_len := rb_len r - 1\<rparr>)"

definition ring_pop :: "('a, 's) ring \<Rightarrow> 'a option \<times> ('a, 's) ring" where
  "ring_pop r =
     (if rb_len r = 0 then (None, r)
      else let (item_tuple, r') = ring_take r
           in (case item_tuple of Some (item, _) \<Rightarrow> item | None \<Rightarrow> None, r'))"

definition ring_peek :: "('a, 's) ring \<Rightarrow> 'a option" where
  "ring_peek r =
     (if rb_len r = 0 then None
      else case rb_buffer r ! rb_head r of Some (item, _) \<Rightarrow> item | None \<Rightarrow> None)"

lemma ring_pop_len [simp]: "rb_len (snd (ring_pop r)) = rb_len r - 1"
  by (simp add: ring_pop_def ring_take_def)

lemma ring_take_len [simp]: "rb_len (snd (ring_take r)) = rb_len r - 1"
  by (simp add: ring_take_def)

function ring_drain :: "('a, 's) ring \<Rightarrow> 'a list \<times> ('a, 's) ring" where
  "ring_drain r =
     (if rb_len r > 0 then
        (let (items, r2) = ring_drain (snd (ring_pop r))
         in (case fst (ring_pop r) of None \<Rightarrow> items | Some x \<Rightarrow> x # items, r2))
      else ([], r))"
  by pat_completeness auto
termination
  by (relation "measure rb_len") simp_all

function ring_drain_with_sequences :: "('a, 's) ring \<Rightarrow> ('a, 's) cell list \<times> ('a, 's) ring" where
  "ring_drain_with_sequences r =
     (if rb_len r > 0 then
        (let (items, r2) = ring_drain_with_sequences (snd (ring_take r))
         in (case fst (ring_take r) of None \<Rightarrow> items | Some x \<Rightarrow> x # items, r2))
      else ([], r))"
  by pat_completeness auto
termination
  by (relation "measure rb_len") simp_all

declare ring_drain.simps [simp del] ring_drain_with_sequences.simps [simp del]

definition ring_clear :: "('a, 's) ring \<Rightarrow> ('a, 's) ring" where
  "ring_clear r =
     r\<lparr>rb_buffer := fold (\<lambda>i xs. xs[i := None]) [0..<rb_capacity r] (rb_buffer r),
       rb_head := 0, rb_tail := 0, rb_len := 0\<rparr>"

definition ring_reset_dropped_counter :: "('a, 's) ring \<Rightarrow> ('a, 's) ring" where
  "ring_reset_dropped_counter r = r\<lparr>rb_total_dropped := 0\<rparr>"

definition ring_is_empty :: "('a, 's) ring \<Rightarrow> bool" where
  "ring_is_empty r \<longleftrightarrow> rb_len r = 0"

definition ring_is_full :: "('a, 's) ring \<Rightarrow> bool" where
  "ring_is_full r \<longleftrightarrow> rb_len r = rb_capacity r"

definition ring_fill_ratio :: "('a, 's) ring \<Rightarrow> pyfloat" where
  "ring_fill_ratio r =
     (if rb_capacity r > 0 then of_nat (rb_len r) / of_nat (rb_capacity r) else 0)"

subsection \<open>The invariant and the abstraction to a list\<close>

definition ring_slot :: "('a, 's) ring \<Rightarrow> nat \<Rightarrow> ('a, 's) cell option" where
  "ring_slot r i = rb_buffer r ! ((rb_head r + i) mod rb_capacity r)"

text \<open>
  The live cells are occupied, every other cell is \<^verbatim>\<open>None\<close> (no stale references are kept).
\<close>

definition ring_inv :: "('a, 's) ring \<Rightarrow> bool" where
  "ring_inv r \<longleftrightarrow>
     0 < rb_capacity r \<and> length (rb_buffer r) = rb_capacity r \<and> rb_head r < rb_capacity r
     \<and> rb_len r \<le> rb_capacity r \<and> rb_tail r = (rb_head r + rb_len r) mod rb_capacity r
     \<and> (\<forall>i < rb_capacity r. (ring_slot r i \<noteq> None) = (i < rb_len r))"

definition ring_list :: "('a, 's) ring \<Rightarrow> ('a, 's) cell list" where
  "ring_list r = map (\<lambda>i. the (ring_slot r i)) [0..<rb_len r]"

lemma length_ring_list [simp]: "length (ring_list r) = rb_len r"
  by (simp add: ring_list_def)

lemma mod_add_inj:
  fixes h i j c :: nat
  assumes "(h + i) mod c = (h + j) mod c" and "i < c" and "j < c"
  shows "i = j"
proof -
  have aux: "i = j" if "(h + i) mod c = (h + j) mod c" "i \<le> j" "j < c" for i j
  proof -
    from that have "c dvd (h + j) - (h + i)" by (intro mod_eq_dvd_iff_nat [THEN iffD1]) simp_all
    then have "c dvd j - i" by simp
    with that show ?thesis by (metis diff_is_0_eq dvd_imp_le le_antisym less_imp_diff_less linorder_not_less neq0_conv)
  qed
  from assms aux [of i j] aux [of j i] show ?thesis by (cases "i \<le> j") auto
qed

lemma ring_inv_new: "ring_new c policy = Inr r \<Longrightarrow> ring_inv r \<and> ring_list r = [] \<and> rb_capacity r = nat c
    \<and> rb_policy r = policy \<and> rb_total_dropped r = 0"
  by (auto simp: ring_new_def ring_inv_def ring_slot_def ring_list_def split: if_splits)

text \<open>Storing at a tail that is free appends to the list.\<close>

lemma ring_store_correct:
  assumes cap: "0 < rb_capacity r" and len: "length (rb_buffer r) = rb_capacity r"
    and head: "rb_head r < rb_capacity r" and free: "rb_len r < rb_capacity r"
    and tail: "rb_tail r = (rb_head r + rb_len r) mod rb_capacity r"
    and occ: "\<And>i. i < rb_capacity r \<Longrightarrow> i \<noteq> rb_len r \<Longrightarrow> (ring_slot r i \<noteq> None) = (i < rb_len r)"
  shows "ring_inv (ring_store c r)" and "ring_list (ring_store c r) = ring_list r @ [c]"
proof -
  let ?c = "rb_capacity r"
  have ne: "(rb_head r + i) mod ?c \<noteq> rb_tail r" if "i < ?c" "i \<noteq> rb_len r" for i
    using mod_add_inj [of "rb_head r" i ?c "rb_len r"] that free tail by auto
  have slot: "ring_slot (ring_store c r) i = (if i = rb_len r then Some c else ring_slot r i)"
    if "i < ?c" for i
    using that ne [of i] cap len tail by (auto simp: ring_slot_def ring_store_def)
  have "(rb_tail r + 1) mod ?c = (rb_head r + (rb_len r + 1)) mod ?c"
    using tail by (simp add: mod_Suc_eq)
  with cap len head free slot occ show "ring_inv (ring_store c r)"
    by (auto simp: ring_inv_def ring_store_def less_Suc_eq)
  show "ring_list (ring_store c r) = ring_list r @ [c]"
    using slot free by (auto simp: ring_list_def) (auto simp: ring_store_def)
qed

lemma mod_head_step: "0 < n \<Longrightarrow> ((h + 1) mod c + (n - 1)) mod c = (h + n) mod c" for h n c :: nat
  by (cases n) (simp_all add: mod_simps)

text \<open>Taking the head cell of a non-empty ring removes the first element of the list.\<close>

lemma ring_slot_take:
  assumes "ring_inv r" and "i < rb_capacity r" and "0 < rb_len r"
  shows "ring_slot (snd (ring_take r)) i = (if i = rb_capacity r - 1 then None else ring_slot r (i + 1))"
proof -
  let ?c = "rb_capacity r"
  have c: "0 < ?c" "rb_head r < ?c" "length (rb_buffer r) = ?c" using assms(1) by (simp_all add: ring_inv_def)
  have eq: "((rb_head r + 1) mod ?c + i) mod ?c = (rb_head r + (i + 1)) mod ?c"
    by (simp add: mod_simps add.commute add.left_commute)
  show ?thesis
  proof (cases "i = ?c - 1")
    case True
    with c have "(rb_head r + (i + 1)) mod ?c = rb_head r" by simp
    with True c eq show ?thesis by (simp add: ring_slot_def ring_take_def)
  next
    case False
    with assms(2) have "i + 1 < ?c" by linarith
    with mod_add_inj [of "rb_head r" "i + 1" ?c 0] c
    have "(rb_head r + (i + 1)) mod ?c \<noteq> rb_head r" by auto
    with False c eq show ?thesis by (simp add: ring_slot_def ring_take_def)
  qed
qed

lemma ring_take_correct:
  assumes inv: "ring_inv r" and ne: "0 < rb_len r"
  shows "ring_inv (snd (ring_take r))" and "fst (ring_take r) = Some (hd (ring_list r))"
    and "ring_list (snd (ring_take r)) = tl (ring_list r)"
proof -
  let ?c = "rb_capacity r"
  have c: "0 < ?c" "rb_head r < ?c" "length (rb_buffer r) = ?c" "rb_len r \<le> ?c"
    and occ: "\<And>i. i < ?c \<Longrightarrow> (ring_slot r i \<noteq> None) = (i < rb_len r)"
    and tail: "rb_tail r = (rb_head r + rb_len r) mod ?c"
    using inv by (simp_all add: ring_inv_def)
  have "((rb_head r + 1) mod ?c + (rb_len r - 1)) mod ?c = (rb_head r + rb_len r) mod ?c"
    by (rule mod_head_step [OF ne])
  moreover have "(ring_slot (snd (ring_take r)) i \<noteq> None) = (i < rb_len r - 1)" if "i < ?c" for i
    using that ring_slot_take [OF inv that ne] occ [of "i + 1"] c(1,4) by (auto split: if_splits)
  ultimately show "ring_inv (snd (ring_take r))"
    using c tail by (simp add: ring_inv_def ring_take_def)
  have s0: "ring_slot r 0 = rb_buffer r ! rb_head r" using c by (simp add: ring_slot_def)
  have hd: "hd (ring_list r) = the (ring_slot r 0)"
    using ne by (simp add: ring_list_def hd_map)
  show "fst (ring_take r) = Some (hd (ring_list r))"
    using occ [of 0] ne c(1) s0 hd by (simp add: ring_take_def)
  have "ring_list (snd (ring_take r)) = map (\<lambda>i. the (ring_slot r (i + 1))) [0..<rb_len r - 1]"
    unfolding ring_list_def ring_take_len
    using ring_slot_take [OF inv _ ne] c(4) by (intro map_cong) auto
  also have "\<dots> = tl (ring_list r)"
    by (rule nth_equalityI) (simp_all add: ring_list_def nth_tl less_diff_conv)
  finally show "ring_list (snd (ring_take r)) = tl (ring_list r)" .
qed

lemma ring_pop_correct:
  assumes "ring_inv r"
  shows "ring_inv (snd (ring_pop r))"
    and "fst (ring_pop r) = (case ring_list r of [] \<Rightarrow> None | c # _ \<Rightarrow> fst c)"
    and "ring_list (snd (ring_pop r)) = tl (ring_list r)"
proof -
  have e: "rb_len r = 0 \<Longrightarrow> ring_list r = []" by (simp add: ring_list_def)
  show "ring_inv (snd (ring_pop r))"
    using ring_take_correct(1) [OF assms] assms by (auto simp: ring_pop_def split: prod.splits)
  show "fst (ring_pop r) = (case ring_list r of [] \<Rightarrow> None | c # _ \<Rightarrow> fst c)"
    using ring_take_correct(2) [OF assms] e length_ring_list [of r]
    by (cases "ring_list r") (auto simp: ring_pop_def split: prod.splits)
  show "ring_list (snd (ring_pop r)) = tl (ring_list r)"
    using ring_take_correct(3) [OF assms] e by (auto simp: ring_pop_def split: prod.splits)
qed

lemma ring_pop_frame [simp]:
  "rb_capacity (snd (ring_pop r)) = rb_capacity r"
  "rb_policy (snd (ring_pop r)) = rb_policy r"
  "rb_total_dropped (snd (ring_pop r)) = rb_total_dropped r"
  by (simp_all add: ring_pop_def ring_take_def)

lemma ring_push_room:
  assumes "ring_inv r" and "rb_len r < rb_capacity r"
  shows "\<exists>r'. ring_push x s r = Inr (True, r') \<and> ring_inv r' \<and> ring_list r' = ring_list r @ [(x, s)]
           \<and> rb_total_dropped r' = rb_total_dropped r"
proof -
  have "ring_inv (ring_store (x, s) r)" "ring_list (ring_store (x, s) r) = ring_list r @ [(x, s)]"
    by (rule ring_store_correct; use assms in \<open>auto simp: ring_inv_def\<close>)+
  with assms show ?thesis by (simp add: ring_push_def ring_store_def)
qed

lemma ring_push_drop_oldest:
  assumes inv: "ring_inv r" and full: "rb_len r = rb_capacity r" and pol: "rb_policy r = ''drop_oldest''"
  shows "\<exists>r'. ring_push x s r = Inr (True, r') \<and> ring_inv r' \<and> ring_list r' = tl (ring_list r) @ [(x, s)]
           \<and> rb_total_dropped r' = rb_total_dropped r + 1"
proof -
  let ?c = "rb_capacity r"
  let ?r1 = "r\<lparr>rb_head := (rb_head r + 1) mod ?c, rb_len := rb_len r - 1,
               rb_total_dropped := rb_total_dropped r + 1\<rparr>"
  have c: "0 < ?c" "rb_head r < ?c" "length (rb_buffer r) = ?c" using inv by (simp_all add: ring_inv_def)
  have ne: "0 < rb_len r" using full c by simp
  have same: "ring_slot ?r1 i = ring_slot (snd (ring_take r)) i" if "i < ?c" "i \<noteq> ?c - 1" for i
  proof -
    have "((rb_head r + 1) mod ?c + i) mod ?c = (rb_head r + (i + 1)) mod ?c"
      by (simp add: mod_simps add.commute add.left_commute)
    then show ?thesis using that ring_slot_take [OF inv that(1) ne] by (simp add: ring_slot_def)
  qed
  have occ: "(ring_slot ?r1 i \<noteq> None) = (i < rb_len ?r1)" if "i < ?c" "i \<noteq> rb_len ?r1" for i
    using same [of i] that full ring_take_correct(1) [OF inv ne]
    by (simp add: ring_inv_def) (simp add: ring_take_def)
  have lst: "ring_list ?r1 = tl (ring_list r)"
  proof -
    have "ring_list ?r1 = map (\<lambda>i. the (ring_slot (snd (ring_take r)) i)) [0..<rb_len r - 1]"
      unfolding ring_list_def using same full by (intro map_cong) auto
    also have "\<dots> = ring_list (snd (ring_take r))" by (simp add: ring_list_def)
    finally show ?thesis by (simp add: ring_take_correct(3) [OF inv ne])
  qed
  have tail: "rb_tail r = ((rb_head r + 1) mod ?c + (rb_len r - 1)) mod ?c"
    using inv mod_head_step [OF ne] by (simp add: ring_inv_def)
  have "ring_inv (ring_store (x, s) ?r1)" "ring_list (ring_store (x, s) ?r1) = ring_list ?r1 @ [(x, s)]"
    by (rule ring_store_correct; use c ne full occ tail in \<open>simp add: mod_Suc_eq\<close>)+
  with full pol lst show ?thesis by (simp add: ring_push_def ring_store_def)
qed

lemma ring_push_frame:
  "ring_push x s r = Inr (b, r') \<Longrightarrow> rb_capacity r' = rb_capacity r \<and> rb_policy r' = rb_policy r"
  by (auto simp: ring_push_def ring_store_def split: if_splits)

lemma ring_drain_correct:
  assumes "ring_inv r"
  shows "fst (ring_drain r) = List.map_filter fst (ring_list r)
       \<and> ring_inv (snd (ring_drain r)) \<and> ring_list (snd (ring_drain r)) = []"
  using assms
proof (induction r rule: ring_drain.induct)
  case (1 r)
  show ?case
  proof (cases "rb_len r > 0")
    case True
    then obtain c cs where cs: "ring_list r = c # cs"
      using length_ring_list [of r] by (cases "ring_list r") auto
    have "ring_drain r = (let (items, r2) = ring_drain (snd (ring_pop r))
        in (case fst (ring_pop r) of None \<Rightarrow> items | Some x \<Rightarrow> x # items, r2))"
      using True by (subst ring_drain.simps) (simp add: Let_def split_def)
    with "1.IH" [OF True ring_pop_correct(1) [OF "1.prems"]] ring_pop_correct(2,3) [OF "1.prems"] cs
    show ?thesis
      by (cases "fst c") (auto simp: Let_def split_def List.map_filter_simps)
  next
    case False
    then have "ring_list r = []" by (simp add: ring_list_def)
    with False "1.prems" show ?thesis by (simp add: ring_drain.simps List.map_filter_simps)
  qed
qed

lemma ring_drain_with_sequences_correct:
  assumes "ring_inv r"
  shows "fst (ring_drain_with_sequences r) = ring_list r
       \<and> ring_inv (snd (ring_drain_with_sequences r)) \<and> ring_list (snd (ring_drain_with_sequences r)) = []"
  using assms
proof (induction r rule: ring_drain_with_sequences.induct)
  case (1 r)
  show ?case
  proof (cases "rb_len r > 0")
    case True
    then obtain c cs where cs: "ring_list r = c # cs"
      using length_ring_list [of r] by (cases "ring_list r") auto
    have "ring_drain_with_sequences r = (let (items, r2) = ring_drain_with_sequences (snd (ring_take r))
        in (case fst (ring_take r) of None \<Rightarrow> items | Some x \<Rightarrow> x # items, r2))"
      using True by (subst ring_drain_with_sequences.simps) (simp add: Let_def split_def)
    with "1.IH" [OF True ring_take_correct(1) [OF "1.prems" True]]
      ring_take_correct(2,3) [OF "1.prems" True] cs
    show ?thesis by (auto simp: Let_def split_def)
  next
    case False
    then have "ring_list r = []" by (simp add: ring_list_def)
    with False "1.prems" show ?thesis by (simp add: ring_drain_with_sequences.simps)
  qed
qed

lemma ring_clear_correct:
  assumes "ring_inv r"
  shows "ring_inv (ring_clear r) \<and> ring_list (ring_clear r) = []
       \<and> rb_buffer (ring_clear r) = replicate (rb_capacity r) None"
proof -
  have len: "length (fold (\<lambda>i xs. xs[i := None]) is xs) = length xs" for "is" and xs :: "'c option list"
    by (induction "is" arbitrary: xs) simp_all
  have "fold (\<lambda>i xs. xs[i := None]) [0..<n] xs = replicate n None @ drop n xs"
    if "n \<le> length xs" for n and xs :: "('a, 'b) cell option list"
    using that
  proof (induction n)
    case (Suc n)
    then have "drop n xs = xs ! n # drop (Suc n) xs" by (simp add: Cons_nth_drop_Suc)
    with Suc show ?case by (simp add: list_update_append replicate_append_same [symmetric] del: replicate_append_same)
  qed simp
  from this [of "rb_capacity r" "rb_buffer r"] assms show ?thesis
    by (simp add: ring_inv_def ring_clear_def ring_list_def ring_slot_def)
qed

subsection \<open>The contract of a bounded queue\<close>

primrec push_all :: "('i \<Rightarrow> 'r \<Rightarrow> exn + bool \<times> 'r) \<Rightarrow> 'i list \<Rightarrow> 'r \<Rightarrow> exn + 'r" where
  "push_all push [] r = Inr r"
| "push_all push (x # xs) r = bind_result (push x r) (\<lambda>(_, r'). push_all push xs r')"

locale bounded_queue =
  fixes push :: "'i \<Rightarrow> 'r \<Rightarrow> exn + bool \<times> 'r"
    and pop :: "'r \<Rightarrow> 'a option \<times> 'r"
    and item :: "'i \<Rightarrow> 'a option"
    and contents :: "'r \<Rightarrow> 'i list"
    and capacity :: "'r \<Rightarrow> nat"
    and policy :: "'r \<Rightarrow> string"
    and dropped :: "'r \<Rightarrow> nat"
    and invar :: "'r \<Rightarrow> bool"
  assumes capacity_pos: "invar r \<Longrightarrow> 0 < capacity r"
    and bounded: "invar r \<Longrightarrow> length (contents r) \<le> capacity r"
    and push_room: "invar r \<Longrightarrow> length (contents r) < capacity r \<Longrightarrow>
      \<exists>r'. push x r = Inr (True, r') \<and> invar r' \<and> contents r' = contents r @ [x] \<and> dropped r' = dropped r"
    and push_oldest: "invar r \<Longrightarrow> length (contents r) = capacity r \<Longrightarrow> policy r = ''drop_oldest'' \<Longrightarrow>
      \<exists>r'. push x r = Inr (True, r') \<and> invar r' \<and> contents r' = tl (contents r) @ [x]
         \<and> dropped r' = dropped r + 1"
    and push_newest: "invar r \<Longrightarrow> length (contents r) = capacity r \<Longrightarrow> policy r = ''drop_newest'' \<Longrightarrow>
      \<exists>r'. push x r = Inr (False, r') \<and> invar r' \<and> contents r' = contents r
         \<and> dropped r' = dropped r + 1"
    and push_error: "invar r \<Longrightarrow> length (contents r) = capacity r \<Longrightarrow>
      policy r \<noteq> ''drop_oldest'' \<Longrightarrow> policy r \<noteq> ''drop_newest'' \<Longrightarrow>
      push x r = Inl (BufferOverflowError ''Buffer is full'' (int (capacity r)) (int (capacity r)))"
    and push_frame: "push x r = Inr (b, r') \<Longrightarrow> capacity r' = capacity r \<and> policy r' = policy r"
    and pop_invar: "invar r \<Longrightarrow> invar (snd (pop r))"
    and pop_contents: "invar r \<Longrightarrow> contents (snd (pop r)) = tl (contents r)"
    and pop_item: "invar r \<Longrightarrow> fst (pop r) = (case contents r of [] \<Rightarrow> None | x # _ \<Rightarrow> item x)"
begin

lemma push_all_drop_oldest:
  assumes "invar r" and "policy r = ''drop_oldest''"
  shows "\<exists>r'. push_all push xs r = Inr r' \<and> invar r'
           \<and> contents r' = drop (length (contents r) + length xs - capacity r) (contents r @ xs)
           \<and> dropped r' = dropped r + (length (contents r) + length xs - capacity r)"
  using assms
proof (induction xs arbitrary: r)
  case Nil
  with bounded [of r] show ?case by simp
next
  case (Cons x xs)
  let ?n = "length (contents r)"
  have le: "?n \<le> capacity r" using Cons.prems bounded by blast
  show ?case
  proof (cases "?n = capacity r")
    case True
    from push_oldest [OF Cons.prems(1) True Cons.prems(2)] obtain r1 where
      r1: "push x r = Inr (True, r1)" "invar r1" "contents r1 = tl (contents r) @ [x]"
        "dropped r1 = dropped r + 1" by blast
    have f: "capacity r1 = capacity r" "policy r1 = policy r" using push_frame [OF r1(1)] by simp_all
    have ne: "contents r \<noteq> []" using True capacity_pos [OF Cons.prems(1)] by auto
    then have "length (contents r1) = capacity r" using r1(3) True by (cases "contents r") simp_all
    moreover have "drop (length xs) (contents r1 @ xs) = drop (Suc (length xs)) (contents r @ x # xs)"
      using r1(3) ne by (cases "contents r") simp_all
    ultimately show ?thesis
      using Cons.IH [OF r1(2)] Cons.prems(2) f r1(1,4) True by auto
  next
    case False
    with le have lt: "?n < capacity r" by simp
    from push_room [OF Cons.prems(1) lt] obtain r1 where
      r1: "push x r = Inr (True, r1)" "invar r1" "contents r1 = contents r @ [x]"
        "dropped r1 = dropped r" by blast
    have f: "capacity r1 = capacity r" "policy r1 = policy r" using push_frame [OF r1(1)] by simp_all
    from Cons.IH [OF r1(2)] Cons.prems(2) f r1 show ?thesis by auto
  qed
qed

lemma push_all_drop_newest:
  assumes "invar r" and "policy r = ''drop_newest''"
  shows "\<exists>r'. push_all push xs r = Inr r' \<and> invar r'
           \<and> contents r' = take (capacity r) (contents r @ xs)
           \<and> dropped r' = dropped r + (length (contents r) + length xs - capacity r)"
  using assms
proof (induction xs arbitrary: r)
  case Nil
  with bounded [of r] show ?case by simp
next
  case (Cons x xs)
  show ?case
  proof (cases "length (contents r) = capacity r")
    case True
    from push_newest [OF Cons.prems(1) True Cons.prems(2)] obtain r1 where
      r1: "push x r = Inr (False, r1)" "invar r1" "contents r1 = contents r"
        "dropped r1 = dropped r + 1" by blast
    have f: "capacity r1 = capacity r" "policy r1 = policy r" using push_frame [OF r1(1)] by simp_all
    from Cons.IH [OF r1(2)] Cons.prems(2) f r1 True show ?thesis by auto
  next
    case False
    with bounded [OF Cons.prems(1)] have lt: "length (contents r) < capacity r" by simp
    from push_room [OF Cons.prems(1) lt] obtain r1 where
      r1: "push x r = Inr (True, r1)" "invar r1" "contents r1 = contents r @ [x]"
        "dropped r1 = dropped r" by blast
    have f: "capacity r1 = capacity r" "policy r1 = policy r" using push_frame [OF r1(1)] by simp_all
    from Cons.IH [OF r1(2)] Cons.prems(2) f r1 show ?thesis by auto
  qed
qed

end

interpretation rbq: bounded_queue
  "\<lambda>(x, s). ring_push x s" ring_pop fst ring_list rb_capacity rb_policy rb_total_dropped ring_inv
proof unfold_locales
  fix r :: "('a, 'b) ring" and x :: "('a, 'b) cell"
  show "(case x of (y, s) \<Rightarrow> ring_push y s) r
      = Inl (BufferOverflowError ''Buffer is full'' (int (rb_capacity r)) (int (rb_capacity r)))"
    if "ring_inv r" "length (ring_list r) = rb_capacity r" "rb_policy r \<noteq> ''drop_oldest''"
      "rb_policy r \<noteq> ''drop_newest''"
    using that by (cases x) (simp add: ring_push_def)
next
  fix r :: "('a, 'b) ring" and x :: "('a, 'b) cell"
  show "\<exists>r'. (case x of (y, s) \<Rightarrow> ring_push y s) r = Inr (False, r') \<and> ring_inv r'
      \<and> ring_list r' = ring_list r \<and> rb_total_dropped r' = rb_total_dropped r + 1"
    if "ring_inv r" "length (ring_list r) = rb_capacity r" "rb_policy r = ''drop_newest''"
    using that by (cases x) (auto simp: ring_push_def ring_inv_def ring_list_def ring_slot_def)
next
  fix r :: "('a, 'b) ring" and x :: "('a, 'b) cell"
  show "\<exists>r'. (case x of (y, s) \<Rightarrow> ring_push y s) r = Inr (True, r') \<and> ring_inv r'
      \<and> ring_list r' = tl (ring_list r) @ [x] \<and> rb_total_dropped r' = rb_total_dropped r + 1"
    if "ring_inv r" "length (ring_list r) = rb_capacity r" "rb_policy r = ''drop_oldest''"
    using that ring_push_drop_oldest [of r] by (cases x) simp
next
  show "length (ring_list r) \<le> rb_capacity r" if "ring_inv r" for r :: "('a, 'b) ring"
    using that by (simp add: ring_inv_def)
qed (auto simp: ring_pop_correct ring_push_room ring_inv_def [THEN iffD1, THEN conjunct1]
    dest: ring_push_frame split: prod.splits)

subsection \<open>The pure-Python twin\<close>

text \<open>
  \<^verbatim>\<open>_PythonRingBuffer\<close> does not check its capacity: its only caller passes the capacity of a
  \<^verbatim>\<open>BufferConfig\<close>, which is positive. The loops of \<^verbatim>\<open>drain\<close> accumulate their answer.
\<close>

definition py_ring_new :: "nat \<Rightarrow> string \<Rightarrow> ('a, 's) ring" where
  "py_ring_new capacity policy =
     \<lparr>rb_buffer = replicate capacity None, rb_head = 0, rb_tail = 0, rb_len = 0,
      rb_capacity = capacity, rb_policy = policy, rb_total_dropped = 0\<rparr>"

definition py_ring_push :: "'a option \<Rightarrow> 's option \<Rightarrow> ('a, 's) ring \<Rightarrow> exn + bool \<times> ('a, 's) ring" where
  "py_ring_push item sequence_id r =
     (let store = (\<lambda>r. Inr (True,
            r\<lparr>rb_buffer := (rb_buffer r)[rb_tail r := Some (item, sequence_id)],
              rb_tail := (rb_tail r + 1) mod rb_capacity r,
              rb_len := rb_len r + 1\<rparr>))
      in if rb_len r = rb_capacity r then
           (if rb_policy r = ''drop_oldest'' then
              store (r\<lparr>rb_head := (rb_head r + 1) mod rb_capacity r, rb_len := rb_len r - 1,
                       rb_total_dropped := rb_total_dropped r + 1\<rparr>)
            else if rb_policy r = ''drop_newest'' then
              Inr (False, r\<lparr>rb_total_dropped := rb_total_dropped r + 1\<rparr>)
            else Inl (BufferOverflowError ''Buffer is full'' (int (rb_capacity r)) (int (rb_len r))))
         else store r)"

definition py_ring_pop :: "('a, 's) ring \<Rightarrow> 'a option \<times> ('a, 's) ring" where
  "py_ring_pop r =
     (if rb_len r = 0 then (None, r)
      else (case rb_buffer r ! rb_head r of Some (item, _) \<Rightarrow> item | None \<Rightarrow> None,
            r\<lparr>rb_buffer := (rb_buffer r)[rb_head r := None],
              rb_head := (rb_head r + 1) mod rb_capacity r,
              rb_len := rb_len r - 1\<rparr>))"

function py_ring_drain_loop :: "'a list \<Rightarrow> ('a, 's) ring \<Rightarrow> 'a list \<times> ('a, 's) ring" where
  "py_ring_drain_loop items r =
     (if rb_len r > 0 then
        py_ring_drain_loop
          (case fst (py_ring_pop r) of None \<Rightarrow> items | Some item \<Rightarrow> items @ [item])
          (snd (py_ring_pop r))
      else (items, r))"
  by pat_completeness auto
termination
  by (relation "measure (rb_len \<circ> snd)") (simp_all add: py_ring_pop_def)

definition py_ring_drain :: "('a, 's) ring \<Rightarrow> 'a list \<times> ('a, 's) ring" where
  "py_ring_drain r = py_ring_drain_loop [] r"

function py_ring_drain_seq_loop ::
    "('a, 's) cell list \<Rightarrow> ('a, 's) ring \<Rightarrow> ('a, 's) cell list \<times> ('a, 's) ring" where
  "py_ring_drain_seq_loop items r =
     (if rb_len r > 0 then
        py_ring_drain_seq_loop
          (case rb_buffer r ! rb_head r of None \<Rightarrow> items | Some item_tuple \<Rightarrow> items @ [item_tuple])
          (r\<lparr>rb_buffer := (rb_buffer r)[rb_head r := None],
             rb_head := (rb_head r + 1) mod rb_capacity r,
             rb_len := rb_len r - 1\<rparr>)
      else (items, r))"
  by pat_completeness auto
termination
  by (relation "measure (rb_len \<circ> snd)") simp_all

definition py_ring_drain_with_sequences :: "('a, 's) ring \<Rightarrow> ('a, 's) cell list \<times> ('a, 's) ring" where
  "py_ring_drain_with_sequences r = py_ring_drain_seq_loop [] r"

declare py_ring_drain_loop.simps [simp del] py_ring_drain_seq_loop.simps [simp del]

primrec py_ring_clear_loop :: "nat list \<Rightarrow> ('a, 's) ring \<Rightarrow> ('a, 's) ring" where
  "py_ring_clear_loop [] r = r"
| "py_ring_clear_loop (i # is) r = py_ring_clear_loop is (r\<lparr>rb_buffer := (rb_buffer r)[i := None]\<rparr>)"

definition py_ring_clear :: "('a, 's) ring \<Rightarrow> ('a, 's) ring" where
  "py_ring_clear r =
     (py_ring_clear_loop [0..<rb_capacity r] r)\<lparr>rb_head := 0, rb_tail := 0, rb_len := 0\<rparr>"

definition py_ring_is_empty :: "('a, 's) ring \<Rightarrow> bool" where
  "py_ring_is_empty r \<longleftrightarrow> rb_len r = 0"

definition py_ring_is_full :: "('a, 's) ring \<Rightarrow> bool" where
  "py_ring_is_full r \<longleftrightarrow> rb_len r = rb_capacity r"

definition py_ring_fill_ratio :: "('a, 's) ring \<Rightarrow> pyfloat" where
  "py_ring_fill_ratio r =
     (if rb_capacity r > 0 then of_nat (rb_len r) / of_nat (rb_capacity r) else 0)"

lemma py_ring_pop_eq: "py_ring_pop r = ring_pop r"
  by (simp add: py_ring_pop_def ring_pop_def ring_take_def)

lemma py_ring_push_eq: "py_ring_push x s r = ring_push x s r"
  by (simp add: py_ring_push_def ring_push_def ring_store_def)

lemma py_ring_drain_loop_eq:
  "py_ring_drain_loop items r = (items @ fst (ring_drain r), snd (ring_drain r))"
proof (induction items r rule: py_ring_drain_loop.induct)
  case (1 items r)
  then show ?case
    by (subst py_ring_drain_loop.simps, subst (1 2) ring_drain.simps)
       (simp add: py_ring_pop_eq split_def Let_def split: option.split)
qed

lemma py_ring_drain_seq_loop_eq:
  "py_ring_drain_seq_loop items r
     = (items @ fst (ring_drain_with_sequences r), snd (ring_drain_with_sequences r))"
proof (induction items r rule: py_ring_drain_seq_loop.induct)
  case (1 items r)
  then show ?case
    by (subst py_ring_drain_seq_loop.simps, subst (1 2) ring_drain_with_sequences.simps)
       (simp add: ring_take_def split_def Let_def split: option.split)
qed

lemma py_ring_clear_loop_eq:
  "py_ring_clear_loop is r = r\<lparr>rb_buffer := fold (\<lambda>i xs. xs[i := None]) is (rb_buffer r)\<rparr>"
  by (induction "is" arbitrary: r) simp_all

lemma py_ring_clear_eq: "py_ring_clear r = ring_clear r"
  by (simp add: py_ring_clear_def ring_clear_def py_ring_clear_loop_eq)

lemmas py_ring_eqs = py_ring_pop_eq py_ring_push_eq py_ring_clear_eq

interpretation pyrbq: bounded_queue
  "\<lambda>(x, s). py_ring_push x s" py_ring_pop fst ring_list rb_capacity rb_policy rb_total_dropped ring_inv
  unfolding py_ring_eqs [abs_def] by (rule rbq.bounded_queue_axioms)

text \<open>
  The two ring buffers are interchangeable: started with the same positive capacity and
  policy, every operation of the pure-Python class answers as the compiled one does and leaves
  the same buffer, on every state.
\<close>

theorem ring_twins_agree:
  fixes r :: "('a, 's) ring"
  shows "(0 < capacity \<longrightarrow> ring_new (int capacity) policy = Inr (py_ring_new capacity policy :: ('a, 's) ring))
   \<and> py_ring_push item sequence_id r = ring_push item sequence_id r
   \<and> py_ring_pop r = ring_pop r \<and> py_ring_drain r = ring_drain r
   \<and> py_ring_drain_with_sequences r = ring_drain_with_sequences r
   \<and> py_ring_clear r = ring_clear r \<and> py_ring_fill_ratio r = ring_fill_ratio r"
  by (simp add: ring_new_def py_ring_new_def py_ring_eqs py_ring_drain_def py_ring_drain_loop_eq
      py_ring_drain_with_sequences_def py_ring_drain_seq_loop_eq py_ring_fill_ratio_def
      ring_fill_ratio_def)

theorem ring_twins_agree_witness:
  "ring_new 3 ''error'' = Inr (py_ring_new 3 ''error'' :: (nat, nat) ring)"
  using ring_twins_agree [of 3 "''error''" None None "py_ring_new 3 ''error'' :: (nat, nat) ring"] by simp

subsection \<open>Refinement of a list queue\<close>

datatype ('a, 's) ring_op =
    Push "'a option" "'s option" | Pop | Peek | Drain | DrainWithSequences | Clear | ResetDropped

datatype ('a, 's) ring_answer =
    Pushed bool | Raised exn | Got "'a option" | Items "'a list" | Cells "('a, 's) cell list" | Done

fun ring_step :: "('a, 's) ring_op \<Rightarrow> ('a, 's) ring \<Rightarrow> ('a, 's) ring_answer \<times> ('a, 's) ring" where
  "ring_step (Push x s) r =
     (case ring_push x s r of Inl e \<Rightarrow> (Raised e, r) | Inr (b, r') \<Rightarrow> (Pushed b, r'))"
| "ring_step Pop r = (let (x, r') = ring_pop r in (Got x, r'))"
| "ring_step Peek r = (Got (ring_peek r), r)"
| "ring_step Drain r = (let (xs, r') = ring_drain r in (Items xs, r'))"
| "ring_step DrainWithSequences r = (let (xs, r') = ring_drain_with_sequences r in (Cells xs, r'))"
| "ring_step Clear r = (Done, ring_clear r)"
| "ring_step ResetDropped r = (Done, ring_reset_dropped_counter r)"

text \<open>
  The abstract queue is the list of its cells, oldest first, and the number of messages lost; it
  has a bound and a policy. \<^verbatim>\<open>None\<close> items are skipped by \<^verbatim>\<open>Drain\<close>.
\<close>

fun queue_step :: "nat \<Rightarrow> string \<Rightarrow> ('a, 's) ring_op \<Rightarrow> ('a, 's) cell list \<times> nat
    \<Rightarrow> ('a, 's) ring_answer \<times> ('a, 's) cell list \<times> nat" where
  "queue_step cap policy (Push x s) (q, lost) =
     (if length q < cap then (Pushed True, q @ [(x, s)], lost)
      else if policy = ''drop_oldest'' then (Pushed True, tl q @ [(x, s)], lost + 1)
      else if policy = ''drop_newest'' then (Pushed False, q, lost + 1)
      else (Raised (BufferOverflowError ''Buffer is full'' (int cap) (int cap)), q, lost))"
| "queue_step cap policy Pop (q, lost) =
     (Got (case q of [] \<Rightarrow> None | c # _ \<Rightarrow> fst c), tl q, lost)"
| "queue_step cap policy Peek (q, lost) = (Got (case q of [] \<Rightarrow> None | c # _ \<Rightarrow> fst c), q, lost)"
| "queue_step cap policy Drain (q, lost) = (Items (List.map_filter fst q), [], lost)"
| "queue_step cap policy DrainWithSequences (q, lost) = (Cells q, [], lost)"
| "queue_step cap policy Clear (q, lost) = (Done, [], lost)"
| "queue_step cap policy ResetDropped (q, lost) = (Done, q, 0)"

primrec run_ops :: "('o \<Rightarrow> 'r \<Rightarrow> 'b \<times> 'r) \<Rightarrow> 'o list \<Rightarrow> 'r \<Rightarrow> 'b list \<times> 'r" where
  "run_ops step [] r = ([], r)"
| "run_ops step (x # xs) r =
     (let (a, r1) = step x r; (as, r2) = run_ops step xs r1 in (a # as, r2))"

definition ring_abs :: "('a, 's) ring \<Rightarrow> ('a, 's) cell list \<times> nat" where
  "ring_abs r = (ring_list r, rb_total_dropped r)"

lemma ring_drain_frame [simp]:
  "rb_capacity (snd (ring_drain r)) = rb_capacity r \<and> rb_policy (snd (ring_drain r)) = rb_policy r
   \<and> rb_total_dropped (snd (ring_drain r)) = rb_total_dropped r"
proof (induction r rule: ring_drain.induct)
  case (1 r)
  then show ?case by (subst (1 2 3) ring_drain.simps) (simp add: split_def Let_def)
qed

lemma ring_drain_with_sequences_frame [simp]:
  "rb_capacity (snd (ring_drain_with_sequences r)) = rb_capacity r
   \<and> rb_policy (snd (ring_drain_with_sequences r)) = rb_policy r
   \<and> rb_total_dropped (snd (ring_drain_with_sequences r)) = rb_total_dropped r"
proof (induction r rule: ring_drain_with_sequences.induct)
  case (1 r)
  then show ?case
    by (subst (1 2 3) ring_drain_with_sequences.simps) (simp add: split_def Let_def ring_take_def)
qed

lemma ring_peek_correct:
  assumes "ring_inv r"
  shows "ring_peek r = (case ring_list r of [] \<Rightarrow> None | c # _ \<Rightarrow> fst c)"
proof -
  have "ring_peek r = fst (ring_pop r)"
    by (simp add: ring_peek_def ring_pop_def ring_take_def)
  then show ?thesis by (simp add: ring_pop_correct(2) [OF assms])
qed

lemma ring_push_refines:
  assumes "ring_inv r" and "ring_step (Push x s) r = (a, r')"
  shows "ring_inv r' \<and> rb_capacity r' = rb_capacity r \<and> rb_policy r' = rb_policy r
       \<and> queue_step (rb_capacity r) (rb_policy r) (Push x s) (ring_abs r) = (a, ring_abs r')"
proof (cases "length (ring_list r) = rb_capacity r")
  case False
  then have "length (ring_list r) < rb_capacity r" using rbq.bounded [OF assms(1)] by linarith
  with rbq.push_room [OF assms(1), of "(x, s)"] assms(2) show ?thesis
    by (auto simp: ring_abs_def dest: ring_push_frame)
next
  case True
  consider (oldest) "rb_policy r = ''drop_oldest''" | (newest) "rb_policy r = ''drop_newest''"
    | (error) "rb_policy r \<noteq> ''drop_oldest''" "rb_policy r \<noteq> ''drop_newest''" by blast
  then show ?thesis
  proof cases
    case oldest
    from rbq.push_oldest [OF assms(1), of "(x, s)"] True oldest obtain r1 where r1: "ring_push x s r = Inr (True, r1)" "ring_inv r1"
        "ring_list r1 = tl (ring_list r) @ [(x, s)]" "rb_total_dropped r1 = rb_total_dropped r + 1" by auto
    with ring_push_frame [OF r1(1)] True oldest assms(2) show ?thesis by (simp add: ring_abs_def)
  next
    case newest
    from rbq.push_newest [OF assms(1), of "(x, s)"] True newest obtain r1 where r1: "ring_push x s r = Inr (False, r1)" "ring_inv r1"
        "ring_list r1 = ring_list r" "rb_total_dropped r1 = rb_total_dropped r + 1" by auto
    with ring_push_frame [OF r1(1)] True newest assms(2) show ?thesis by (simp add: ring_abs_def)
  next
    case error
    with rbq.push_error [OF assms(1), of "(x, s)"] True assms show ?thesis by (auto simp: ring_abs_def)
  qed
qed

lemma ring_step_refines:
  assumes "ring_inv r" and "ring_step op r = (a, r')"
  shows "ring_inv r' \<and> rb_capacity r' = rb_capacity r \<and> rb_policy r' = rb_policy r
       \<and> queue_step (rb_capacity r) (rb_policy r) op (ring_abs r) = (a, ring_abs r')"
proof (cases op)
  case (Push x s)
  with ring_push_refines [OF assms(1)] assms(2) show ?thesis by blast
next
  case Clear
  with assms ring_clear_correct [OF assms(1)] show ?thesis
    by (auto simp: ring_abs_def ring_clear_def)
next
  case ResetDropped
  with assms show ?thesis
    by (auto simp: ring_abs_def ring_reset_dropped_counter_def ring_inv_def ring_list_def ring_slot_def)
qed (use assms ring_pop_correct [OF assms(1)] ring_peek_correct [OF assms(1)]
      ring_drain_correct [OF assms(1)] ring_drain_with_sequences_correct [OF assms(1)]
      in \<open>auto simp: ring_abs_def split_def\<close>)

lemma run_ops_refines:
  assumes "ring_inv r"
  shows "let (as, r') = run_ops ring_step ops r
     in ring_inv r' \<and> run_ops (queue_step (rb_capacity r) (rb_policy r)) ops (ring_abs r) = (as, ring_abs r')"
  using assms
proof (induction ops arbitrary: r)
  case (Cons op ops)
  obtain a r1 where s: "ring_step op r = (a, r1)" by fastforce
  from ring_step_refines [OF Cons.prems s] Cons.IH [of r1] s show ?case
    by (auto simp: Let_def split_def)
qed simp

text \<open>
  C8. Whatever sequence of pushes, pops, peeks, drains, clears and counter resets is performed on
  a fresh ring buffer, its answers are those of a FIFO list of at most \<^verbatim>\<open>capacity\<close> cells under the
  chosen overflow policy, its contents are that list, the dropped counter is the number of
  messages lost, and the cells outside the live window hold no stale reference.
\<close>

theorem ring_refines_queue:
  assumes "ring_new capacity policy = Inr r" and "run_ops ring_step ops r = (answers, r')"
  shows "run_ops (queue_step (nat capacity) policy) ops ([], 0) = (answers, ring_list r', rb_total_dropped r')
    \<and> ring_inv r'"
  using ring_inv_new [OF assms(1)] run_ops_refines [of r ops] assms(2)
  by (simp add: ring_abs_def)

theorem ring_refines_queue_witness:
  "snd (run_ops (queue_step 2 ''drop_oldest'')
     [Push (Some 1) None, Push (Some 2) (Some (7 :: nat)), Push (Some (3 :: nat)) None, Pop] ([], 0))
   = ([(Some 3, None)], 1)"
proof -
  let ?r = "py_ring_new 2 ''drop_oldest'' :: (nat, nat) ring"
  let ?ops = "[Push (Some 1) None, Push (Some 2) (Some 7), Push (Some 3) None, Pop]"
  have n: "ring_new 2 ''drop_oldest'' = Inr ?r" by (simp add: ring_new_def py_ring_new_def)
  obtain as r' where run: "run_ops ring_step ?ops ?r = (as, r')" by fastforce
  then have "ring_list r' = [(Some 3, None)] \<and> rb_total_dropped r' = 1"
    by (auto simp: ring_push_def ring_store_def ring_pop_def ring_take_def py_ring_new_def
        ring_list_def ring_slot_def numeral_2_eq_2)
  with ring_refines_queue [OF n run] show ?thesis by simp
qed

text \<open>
  Under \<^verbatim>\<open>drop_oldest\<close> a ring buffer of capacity \<^verbatim>\<open>c\<close> always ends up with exactly the last
  \<^verbatim>\<open>c\<close> messages pushed, in order and with their sequence identifiers, and counts the others as
  dropped; no push fails.
\<close>

theorem ring_drop_oldest_keeps_latest:
  assumes "ring_new c ''drop_oldest'' = Inr r"
  shows "\<exists>r'. push_all (\<lambda>(x, s). ring_push x s) cells r = Inr r'
     \<and> fst (ring_drain_with_sequences r') = drop (length cells - nat c) cells
     \<and> rb_total_dropped r' = length cells - nat c"
  using rbq.push_all_drop_oldest [of r cells] ring_inv_new [OF assms]
  by (auto simp: ring_drain_with_sequences_correct)

theorem ring_drop_oldest_keeps_latest_witness:
  "\<exists>r'. push_all (\<lambda>(x, s). ring_push x s) [(Some 1, None), (Some 2, None), (Some (3 :: nat), Some (9 :: nat))]
        (py_ring_new 2 ''drop_oldest'') = Inr r'
     \<and> fst (ring_drain_with_sequences r') = [(Some 2, None), (Some 3, Some 9)]"
  using ring_drop_oldest_keeps_latest [of 2 "py_ring_new 2 ''drop_oldest'' :: (nat, nat) ring"
      "[(Some 1, None), (Some 2, None), (Some 3, Some 9)]"]
  by (auto simp: ring_new_def py_ring_new_def)

text \<open>
  Under \<^verbatim>\<open>drop_newest\<close> the buffer keeps exactly the first \<^verbatim>\<open>c\<close> messages pushed, and counts the
  others as dropped.
\<close>

theorem ring_drop_newest_keeps_first:
  assumes "ring_new c ''drop_newest'' = Inr r"
  shows "\<exists>r'. push_all (\<lambda>(x, s). ring_push x s) cells r = Inr r'
     \<and> fst (ring_drain_with_sequences r') = take (nat c) cells
     \<and> rb_total_dropped r' = length cells - nat c"
  using rbq.push_all_drop_newest [of r cells] ring_inv_new [OF assms]
  by (auto simp: ring_drain_with_sequences_correct)

theorem ring_drop_newest_keeps_first_witness:
  "\<exists>r'. push_all (\<lambda>(x, s). ring_push x s) [(Some 1, None), (Some (2 :: nat), Some (9 :: nat))]
        (py_ring_new 1 ''drop_newest'') = Inr r'
     \<and> fst (ring_drain_with_sequences r') = [(Some 1, None)]"
  using ring_drop_newest_keeps_first [of 1 "py_ring_new 1 ''drop_newest'' :: (nat, nat) ring"
      "[(Some 1, None), (Some 2, Some 9)]"]
  by (auto simp: ring_new_def py_ring_new_def)

end
