(* ===== verification/Jet_Message_Buffer.thy ===== *)
theory Jet_Message_Buffer
  imports Jet_Ring_Buffer
begin

text \<open>
  \<^verbatim>\<open>MessageBuffer\<close> of \<^verbatim>\<open>src/jetsocket/buffer.py\<close>: a ring buffer with the last sequence
  identifier and a bounded window of identifiers already seen, an \<^verbatim>\<open>OrderedDict\<close> whose keys are
  listed here oldest first. An operation that raises may have changed the buffer before it did,
  so \<^verbatim>\<open>push\<close> returns the new state beside its result.
\<close>

record buffer_config =
  bc_capacity :: int
  bc_overflow_policy :: string
  bc_enable_dedup :: bool
  bc_dedup_window :: int

definition default_buffer_config :: buffer_config where
  "default_buffer_config = \<lparr>bc_capacity = 1000, bc_overflow_policy = ''drop_oldest'',
     bc_enable_dedup = False, bc_dedup_window = 100\<rparr>"

text \<open>\<^verbatim>\<open>BufferConfig.__post_init__\<close>: the configuration object exists only when the checks pass.\<close>

definition buffer_config_check :: "buffer_config \<Rightarrow> exn + buffer_config" where
  "buffer_config_check c =
     (if bc_capacity c \<le> 0 then Inl (ValueError ''capacity must be positive'')
      else if bc_overflow_policy c \<notin> {''drop_oldest'', ''drop_newest'', ''error''}
        then Inl (ValueError ''Invalid overflow_policy'')
      else if bc_dedup_window c \<le> 0 then Inl (ValueError ''dedup_window must be positive'')
      else Inr c)"

text \<open>
  \<^verbatim>\<open>ReplayConfig\<close>: the two callables belong to the application; they are values of the record
  and may raise.
\<close>

record ('m, 's) replay_config =
  rc_mode :: string
  rc_sequence_extractor :: "('m \<Rightarrow> exn + 's) option"
  rc_on_replay :: "('s \<Rightarrow> exn + unit) option"

definition replay_config_check :: "('m, 's) replay_config \<Rightarrow> exn + ('m, 's) replay_config" where
  "replay_config_check c =
     (if rc_mode c \<notin> {''none'', ''sequence_id'', ''full_buffer''}
        then Inl (ValueError ''Invalid replay mode'')
      else if rc_mode c = ''sequence_id'' \<and> rc_on_replay c = None
        then Inl (ValueError ''on_replay callback is required for sequence_id mode'')
      else Inr c)"

record ('m, 's) message_buffer =
  mb_config :: buffer_config
  mb_buffer :: "('m, 's) ring"
  mb_last_sequence_id :: "'s option"
  mb_seen_sequences :: "'s list"

definition message_buffer_new :: "buffer_config option \<Rightarrow> exn + ('m, 's) message_buffer" where
  "message_buffer_new config =
     (let c = (case config of None \<Rightarrow> default_buffer_config | Some c \<Rightarrow> c)
      in bind_result (ring_new (bc_capacity c) (bc_overflow_policy c))
           (\<lambda>r. Inr \<lparr>mb_config = c, mb_buffer = r, mb_last_sequence_id = None, mb_seen_sequences = []\<rparr>))"

definition is_duplicate :: "'s \<Rightarrow> ('m, 's) message_buffer \<Rightarrow> bool" where
  "is_duplicate sequence_id b \<longleftrightarrow> List.member (mb_seen_sequences b) sequence_id"

text \<open>The eviction loop: \<^verbatim>\<open>popitem(last=False)\<close> while the dictionary is longer than the window.\<close>

fun evict_loop :: "int \<Rightarrow> 's list \<Rightarrow> 's list" where
  "evict_loop window seen =
     (case seen of [] \<Rightarrow> [] | _ # rest \<Rightarrow> if int (length seen) > window then evict_loop window rest else seen)"

declare evict_loop.simps [simp del]

definition track_sequence :: "'s \<Rightarrow> ('m, 's) message_buffer \<Rightarrow> ('m, 's) message_buffer" where
  "track_sequence sequence_id b =
     b\<lparr>mb_seen_sequences := evict_loop (bc_dedup_window (mb_config b))
        ((if List.member (mb_seen_sequences b) sequence_id
          then remove1 sequence_id (mb_seen_sequences b) else mb_seen_sequences b) @ [sequence_id])\<rparr>"

definition buffer_push :: "'m option \<Rightarrow> 's option \<Rightarrow> ('m, 's) message_buffer
    \<Rightarrow> (exn + bool) \<times> ('m, 's) message_buffer" where
  "buffer_push message sequence_id b =
     (let store = (\<lambda>b. case ring_push message sequence_id (mb_buffer b) of
                Inl e \<Rightarrow> (Inl e, b)
              | Inr (added, r) \<Rightarrow> (Inr added, b\<lparr>mb_buffer := r\<rparr>))
      in case sequence_id of
           None \<Rightarrow> store b
         | Some s \<Rightarrow>
             if bc_enable_dedup (mb_config b) \<and> is_duplicate s b then (Inr False, b)
             else let b1 = b\<lparr>mb_last_sequence_id := Some s\<rparr>;
                      b2 = (if bc_enable_dedup (mb_config b1) then track_sequence s b1 else b1)
                  in store b2)"

definition buffer_pop :: "('m, 's) message_buffer \<Rightarrow> 'm option \<times> ('m, 's) message_buffer" where
  "buffer_pop b = (let (x, r) = ring_pop (mb_buffer b) in (x, b\<lparr>mb_buffer := r\<rparr>))"

definition buffer_drain :: "('m, 's) message_buffer \<Rightarrow> 'm list \<times> ('m, 's) message_buffer" where
  "buffer_drain b = (let (xs, r) = ring_drain (mb_buffer b) in (xs, b\<lparr>mb_buffer := r\<rparr>))"

definition buffer_drain_with_sequences ::
    "('m, 's) message_buffer \<Rightarrow> ('m, 's) cell list \<times> ('m, 's) message_buffer" where
  "buffer_drain_with_sequences b =
     (let (xs, r) = ring_drain_with_sequences (mb_buffer b) in (xs, b\<lparr>mb_buffer := r\<rparr>))"

definition buffer_clear :: "('m, 's) message_buffer \<Rightarrow> ('m, 's) message_buffer" where
  "buffer_clear b = b\<lparr>mb_buffer := ring_clear (mb_buffer b)\<rparr>"

definition buffer_clear_dedup :: "('m, 's) message_buffer \<Rightarrow> ('m, 's) message_buffer" where
  "buffer_clear_dedup b = b\<lparr>mb_seen_sequences := []\<rparr>"

definition buffer_reset :: "('m, 's) message_buffer \<Rightarrow> ('m, 's) message_buffer" where
  "buffer_reset b = (buffer_clear_dedup (buffer_clear b))\<lparr>mb_last_sequence_id := None\<rparr>"

definition buffer_fill_ratio :: "('m, 's) message_buffer \<Rightarrow> pyfloat" where
  "buffer_fill_ratio b = ring_fill_ratio (mb_buffer b)"

definition buffer_is_empty :: "('m, 's) message_buffer \<Rightarrow> bool" where
  "buffer_is_empty b = ring_is_empty (mb_buffer b)"

definition buffer_is_full :: "('m, 's) message_buffer \<Rightarrow> bool" where
  "buffer_is_full b = ring_is_full (mb_buffer b)"

definition buffer_total_dropped :: "('m, 's) message_buffer \<Rightarrow> nat" where
  "buffer_total_dropped b = rb_total_dropped (mb_buffer b)"

definition buffer_len :: "('m, 's) message_buffer \<Rightarrow> nat" where
  "buffer_len b = rb_len (mb_buffer b)"

subsection \<open>The invariant\<close>

definition mb_inv :: "('m, 's) message_buffer \<Rightarrow> bool" where
  "mb_inv b \<longleftrightarrow>
     buffer_config_check (mb_config b) = Inr (mb_config b)
     \<and> ring_inv (mb_buffer b) \<and> int (rb_capacity (mb_buffer b)) = bc_capacity (mb_config b)
     \<and> rb_policy (mb_buffer b) = bc_overflow_policy (mb_config b)
     \<and> distinct (mb_seen_sequences b)
     \<and> int (length (mb_seen_sequences b)) \<le> bc_dedup_window (mb_config b)
     \<and> (\<forall>s. mb_last_sequence_id b = Some s \<longrightarrow> bc_enable_dedup (mb_config b) \<longrightarrow>
            mb_seen_sequences b = [] \<or> last (mb_seen_sequences b) = s)"

lemma evict_loop_eq: "0 < window \<Longrightarrow> evict_loop window seen = drop (length seen - nat window) seen"
proof (induction window seen rule: evict_loop.induct)
  case (1 window seen)
  then show ?case
    by (subst evict_loop.simps) (auto split: list.split simp: Suc_diff_le)
qed

lemma track_sequence_new:
  assumes "0 < bc_dedup_window (mb_config b)" and "\<not> is_duplicate s b"
  shows "mb_seen_sequences (track_sequence s b)
     = drop (length (mb_seen_sequences b) + 1 - nat (bc_dedup_window (mb_config b)))
         (mb_seen_sequences b @ [s])"
  using assms by (simp add: track_sequence_def evict_loop_eq is_duplicate_def)

lemma track_sequence_frame [simp]:
  "mb_config (track_sequence s b) = mb_config b"
  "mb_buffer (track_sequence s b) = mb_buffer b"
  "mb_last_sequence_id (track_sequence s b) = mb_last_sequence_id b"
  by (simp_all add: track_sequence_def)

lemma ring_push_inv: "ring_inv r \<Longrightarrow> ring_push x s r = Inr (a, r') \<Longrightarrow> ring_inv r'"
  using ring_step_refines [of r "Push x s"] by simp

lemma mb_inv_window: "mb_inv b \<Longrightarrow> 0 < bc_dedup_window (mb_config b)"
  by (auto simp: mb_inv_def buffer_config_check_def split: if_splits)

lemma is_duplicate_last_update [simp]: "is_duplicate s (b\<lparr>mb_last_sequence_id := x\<rparr>) = is_duplicate s b"
  by (simp add: is_duplicate_def)

text \<open>
  The state that \<^verbatim>\<open>push\<close> hands to the ring buffer: the sequence bookkeeping is already done.
\<close>

definition buffer_note :: "'s option \<Rightarrow> ('m, 's) message_buffer \<Rightarrow> ('m, 's) message_buffer" where
  "buffer_note sequence_id b =
     (case sequence_id of None \<Rightarrow> b
      | Some s \<Rightarrow> let b1 = b\<lparr>mb_last_sequence_id := Some s\<rparr>
                  in if bc_enable_dedup (mb_config b) then track_sequence s b1 else b1)"

definition rejected :: "'s option \<Rightarrow> ('m, 's) message_buffer \<Rightarrow> bool" where
  "rejected sequence_id b \<longleftrightarrow>
     (case sequence_id of None \<Rightarrow> False | Some s \<Rightarrow> bc_enable_dedup (mb_config b) \<and> is_duplicate s b)"

lemma buffer_note_frame [simp]:
  "mb_config (buffer_note q b) = mb_config b" "mb_buffer (buffer_note q b) = mb_buffer b"
  by (simp_all add: buffer_note_def Let_def split: option.split)

lemma buffer_push_rejected: "rejected q b \<Longrightarrow> buffer_push m q b = (Inr False, b)"
  by (auto simp: rejected_def buffer_push_def Let_def split: option.splits)

lemma buffer_push_accepted:
  "\<not> rejected q b \<Longrightarrow> buffer_push m q b =
     (case ring_push m q (mb_buffer b) of
        Inl e \<Rightarrow> (Inl e, buffer_note q b)
      | Inr (added, r) \<Rightarrow> (Inr added, (buffer_note q b)\<lparr>mb_buffer := r\<rparr>))"
  by (auto simp: rejected_def buffer_push_def buffer_note_def Let_def split: option.splits sum.splits)

lemma buffer_note_seen:
  assumes "mb_inv b" and "\<not> rejected q b"
  shows "mb_seen_sequences (buffer_note q b) =
     (if q = None \<or> \<not> bc_enable_dedup (mb_config b) then mb_seen_sequences b
      else drop (length (mb_seen_sequences b) + 1 - nat (bc_dedup_window (mb_config b)))
             (mb_seen_sequences b @ [the q]))"
  using assms track_sequence_new [of "b\<lparr>mb_last_sequence_id := q\<rparr>" "the q"] mb_inv_window [OF assms(1)]
  by (auto simp: buffer_note_def rejected_def Let_def split: option.splits)

lemma buffer_note_inv [jet_inv]:
  assumes "mb_inv b" and "\<not> rejected q b"
  shows "mb_inv (buffer_note q b)"
proof (cases "q = None \<or> \<not> bc_enable_dedup (mb_config b)")
  case True
  with assms show ?thesis by (auto simp: mb_inv_def buffer_note_def split: option.split)
next
  case False
  then obtain s where q: "q = Some s" and d: "bc_enable_dedup (mb_config b)" by auto
  let ?w = "nat (bc_dedup_window (mb_config b))"
  have w: "0 < ?w" using mb_inv_window [OF assms(1)] by simp
  have new: "s \<notin> set (mb_seen_sequences b)"
    using assms(2) q d by (simp add: rejected_def is_duplicate_def)
  have seen: "mb_seen_sequences (buffer_note q b)
      = drop (length (mb_seen_sequences b) + 1 - ?w) (mb_seen_sequences b @ [s])"
    using buffer_note_seen [OF assms] q d by simp
  have "distinct (mb_seen_sequences b @ [s])" using assms(1) new by (simp add: mb_inv_def)
  then have "distinct (mb_seen_sequences (buffer_note q b))" by (simp only: seen distinct_drop)
  moreover have "int (length (mb_seen_sequences (buffer_note q b))) \<le> bc_dedup_window (mb_config b)"
    using w by (simp add: seen)
  moreover have "last (mb_seen_sequences (buffer_note q b)) = s"
    using w by (simp add: seen)
  moreover have "mb_last_sequence_id (buffer_note q b) = Some s"
    by (simp add: buffer_note_def q d Let_def)
  ultimately show ?thesis using assms(1) by (simp add: mb_inv_def)
qed

lemma buffer_push_inv [jet_inv]: "mb_inv b \<Longrightarrow> mb_inv (snd (buffer_push m q b))"
proof (cases "rejected q b")
  case False
  assume "mb_inv b"
  then have "mb_inv (buffer_note q b)" using False by (rule buffer_note_inv)
  then show ?thesis
    by (auto simp: buffer_push_accepted [OF False] mb_inv_def split: sum.split
        dest: ring_push_inv ring_push_frame)
qed (simp add: buffer_push_rejected)

lemma buffer_pop_inv [jet_inv]: "mb_inv b \<Longrightarrow> mb_inv (snd (buffer_pop b))"
  by (auto simp: buffer_pop_def mb_inv_def split_def ring_pop_correct)

lemma buffer_drain_inv [jet_inv]: "mb_inv b \<Longrightarrow> mb_inv (snd (buffer_drain b))"
  by (auto simp: buffer_drain_def mb_inv_def split_def ring_drain_correct)

lemma buffer_drain_with_sequences_inv [jet_inv]:
  "mb_inv b \<Longrightarrow> mb_inv (snd (buffer_drain_with_sequences b))"
  by (auto simp: buffer_drain_with_sequences_def mb_inv_def split_def ring_drain_with_sequences_correct)

lemma buffer_clear_inv [jet_inv]: "mb_inv b \<Longrightarrow> mb_inv (buffer_clear b)"
  by (auto simp: buffer_clear_def mb_inv_def ring_clear_correct) (simp_all add: ring_clear_def)

lemma buffer_clear_dedup_inv [jet_inv]: "mb_inv b \<Longrightarrow> mb_inv (buffer_clear_dedup b)"
  by (auto simp: buffer_clear_dedup_def mb_inv_def buffer_config_check_def split: if_splits)

lemma buffer_reset_inv [jet_inv]: "mb_inv b \<Longrightarrow> mb_inv (buffer_reset b)"
  using buffer_clear_dedup_inv [OF buffer_clear_inv, of b] by (simp add: buffer_reset_def mb_inv_def)

lemma message_buffer_new_inv [jet_inv]:
  assumes "buffer_config_check c = Inr c" and "message_buffer_new (Some c) = Inr b"
  shows "mb_inv b"
  using assms
  by (auto simp: message_buffer_new_def bind_result_Inr_conv mb_inv_def buffer_config_check_def
      dest: ring_inv_new split: if_splits)

inductive buffer_reachable :: "buffer_config \<Rightarrow> ('m, 's) message_buffer \<Rightarrow> bool" for c where
  new: "message_buffer_new (Some c) = Inr b \<Longrightarrow> buffer_reachable c b"
| push: "buffer_reachable c b \<Longrightarrow> buffer_reachable c (snd (buffer_push m q b))"
| pop: "buffer_reachable c b \<Longrightarrow> buffer_reachable c (snd (buffer_pop b))"
| drain: "buffer_reachable c b \<Longrightarrow> buffer_reachable c (snd (buffer_drain b))"
| drain_seq: "buffer_reachable c b \<Longrightarrow> buffer_reachable c (snd (buffer_drain_with_sequences b))"
| clear: "buffer_reachable c b \<Longrightarrow> buffer_reachable c (buffer_clear b)"
| clear_dedup: "buffer_reachable c b \<Longrightarrow> buffer_reachable c (buffer_clear_dedup b)"
| reset: "buffer_reachable c b \<Longrightarrow> buffer_reachable c (buffer_reset b)"

lemma buffer_reachable_inv:
  assumes "buffer_config_check c = Inr c" and "buffer_reachable c b"
  shows "mb_inv b"
  using assms(2) by induction (simp_all add: jet_inv assms(1) message_buffer_new_inv [OF assms(1)])

lemma buffer_push_config [simp]: "mb_config (snd (buffer_push m q b)) = mb_config b"
  by (cases "rejected q b") (auto simp: buffer_push_rejected buffer_push_accepted split: sum.split)

lemma buffer_reachable_config:
  assumes "buffer_reachable c b"
  shows "mb_config b = c"
  using assms
  by induction (auto simp: message_buffer_new_def bind_result_Inr_conv buffer_pop_def buffer_drain_def
      buffer_drain_with_sequences_def buffer_clear_def buffer_clear_dedup_def buffer_reset_def split_def Let_def)

lemma ring_fill_ratio_bounds: "ring_inv r \<Longrightarrow> 0 \<le> ring_fill_ratio r \<and> ring_fill_ratio r \<le> 1"
  by (simp add: ring_fill_ratio_def ring_inv_def)

text \<open>
  In every state that any sequence of operations can bring a message buffer of a valid
  configuration to, the number of messages is at most the capacity, the fill ratio lies between 0
  and 1, and the deduplication window holds no identifier twice and at most \<^verbatim>\<open>dedup_window\<close>
  identifiers.
\<close>

theorem message_buffer_bounded:
  assumes "buffer_config_check c = Inr c" and "buffer_reachable c b"
  shows "int (buffer_len b) \<le> bc_capacity c
     \<and> 0 \<le> buffer_fill_ratio b \<and> buffer_fill_ratio b \<le> 1
     \<and> distinct (mb_seen_sequences b)
     \<and> int (length (mb_seen_sequences b)) \<le> bc_dedup_window c"
  using buffer_reachable_inv [OF assms] buffer_reachable_config [OF assms(2)] ring_fill_ratio_bounds [of "mb_buffer b"]
  by (auto simp: mb_inv_def buffer_len_def buffer_fill_ratio_def ring_inv_def)

definition sample_buffer_config :: "string \<Rightarrow> buffer_config" where
  "sample_buffer_config policy = \<lparr>bc_capacity = 2, bc_overflow_policy = policy,
     bc_enable_dedup = True, bc_dedup_window = 2\<rparr>"

definition sample_buffer :: "string \<Rightarrow> (nat, nat) message_buffer" where
  "sample_buffer policy = \<lparr>mb_config = sample_buffer_config policy,
     mb_buffer = py_ring_new 2 policy, mb_last_sequence_id = None, mb_seen_sequences = []\<rparr>"

lemma sample_buffer_new:
  "message_buffer_new (Some (sample_buffer_config policy)) = Inr (sample_buffer policy)"
  by (simp add: message_buffer_new_def sample_buffer_def sample_buffer_config_def ring_new_def py_ring_new_def)

lemma sample_buffer_check:
  "policy \<in> {''drop_oldest'', ''drop_newest'', ''error''} \<Longrightarrow>
   buffer_config_check (sample_buffer_config policy) = Inr (sample_buffer_config policy)"
  by (simp add: buffer_config_check_def sample_buffer_config_def)

lemma sample_buffer_inv: "policy \<in> {''drop_oldest'', ''drop_newest'', ''error''} \<Longrightarrow> mb_inv (sample_buffer policy)"
  by (rule message_buffer_new_inv [OF sample_buffer_check sample_buffer_new])

theorem message_buffer_bounded_witness:
  "int (buffer_len (snd (buffer_push (Some 5) (Some 1) (sample_buffer ''drop_oldest'')))) \<le> 2"
proof -
  have "buffer_reachable (sample_buffer_config ''drop_oldest'')
      (snd (buffer_push (Some 5) (Some 1) (sample_buffer ''drop_oldest'')))"
    by (intro buffer_reachable.push buffer_reachable.new sample_buffer_new)
  from message_buffer_bounded [OF sample_buffer_check this] show ?thesis
    by (simp add: sample_buffer_config_def)
qed

subsection \<open>Deduplication\<close>

primrec push_cells :: "('m, 's) cell list \<Rightarrow> ('m, 's) message_buffer \<Rightarrow> ('m, 's) message_buffer" where
  "push_cells [] b = b"
| "push_cells (c # cs) b = push_cells cs (snd (buffer_push (fst c) (snd c) b))"

text \<open>The reference: of the messages that carry an identifier only the first of each is kept.\<close>

fun keep_first :: "'s list \<Rightarrow> ('m, 's) cell list \<Rightarrow> ('m, 's) cell list" where
  "keep_first seen [] = []"
| "keep_first seen ((m, None) # cs) = (m, None) # keep_first seen cs"
| "keep_first seen ((m, Some s) # cs) =
     (if s \<in> set seen then keep_first seen cs else (m, Some s) # keep_first (seen @ [s]) cs)"

lemma push_cells_keep_first:
  assumes "mb_inv b" and "bc_enable_dedup (mb_config b)"
    and "int (length (mb_seen_sequences b) + length cells) \<le> bc_dedup_window (mb_config b)"
    and "int (buffer_len b + length cells) \<le> bc_capacity (mb_config b)"
  shows "mb_inv (push_cells cells b)
    \<and> ring_list (mb_buffer (push_cells cells b)) = ring_list (mb_buffer b) @ keep_first (mb_seen_sequences b) cells"
  using assms
proof (induction cells arbitrary: b)
  case (Cons c cells)
  obtain m q where c: "c = (m, q)" by (cases c)
  let ?b1 = "snd (buffer_push m q b)"
  have inv1: "mb_inv ?b1" by (rule buffer_push_inv [OF Cons.prems(1)])
  show ?case
  proof (cases "rejected q b")
    case True
    then obtain s where "q = Some s" "s \<in> set (mb_seen_sequences b)"
      by (auto simp: rejected_def is_duplicate_def split: option.splits)
    with True Cons c show ?thesis by (simp add: buffer_push_rejected)
  next
    case False
    have "rb_len (mb_buffer b) < rb_capacity (mb_buffer b)"
      using Cons.prems(1,4) by (simp add: mb_inv_def buffer_len_def)
    then obtain r where r: "ring_push m q (mb_buffer b) = Inr (True, r)"
        "ring_list r = ring_list (mb_buffer b) @ [(m, q)]"
      using ring_push_room [of "mb_buffer b" m q] Cons.prems(1) by (auto simp: mb_inv_def)
    then have len: "rb_len r = rb_len (mb_buffer b) + 1"
      by (metis length_ring_list length_append_singleton Suc_eq_plus1)
    have b1: "?b1 = (buffer_note q b)\<lparr>mb_buffer := r\<rparr>"
      by (simp add: buffer_push_accepted [OF False] r)
    have seen: "mb_seen_sequences (buffer_note q b)
        = (case q of None \<Rightarrow> mb_seen_sequences b | Some s \<Rightarrow> mb_seen_sequences b @ [s])"
      using buffer_note_seen [OF Cons.prems(1) False] Cons.prems(2,3) by (auto split: option.split)
    have "length (mb_seen_sequences (buffer_note q b)) \<le> length (mb_seen_sequences b) + 1"
      by (auto simp: seen split: option.split)
    then have "mb_inv (push_cells cells ?b1)
        \<and> ring_list (mb_buffer (push_cells cells ?b1)) = ring_list r @ keep_first (mb_seen_sequences ?b1) cells"
      using Cons.IH [OF inv1] Cons.prems(2-4) b1 len by (simp add: buffer_len_def)
    moreover have "q = Some s \<Longrightarrow> s \<notin> set (mb_seen_sequences b)" for s
      using False Cons.prems(2) by (simp add: rejected_def is_duplicate_def)
    ultimately show ?thesis using r c b1 seen by (cases q) simp_all
  qed
qed simp

text \<open>
  With deduplication enabled, a fresh buffer whose capacity and window are large enough for
  the messages offered holds, in order, exactly the messages without an identifier and the first
  message of each identifier.
\<close>

theorem dedup_keeps_first:
  assumes "buffer_config_check c = Inr c" and "message_buffer_new (Some c) = Inr b"
    and "bc_enable_dedup c" and "int (length cells) \<le> min (bc_capacity c) (bc_dedup_window c)"
  shows "fst (buffer_drain_with_sequences (push_cells cells b)) = keep_first [] cells"
proof -
  have b: "mb_config b = c" "mb_seen_sequences b = []" "ring_list (mb_buffer b) = []" "buffer_len b = 0"
    using assms(2) by (auto simp: message_buffer_new_def bind_result_Inr_conv buffer_len_def ring_new_def
        ring_list_def split: if_splits)
  have inv: "mb_inv b" by (rule message_buffer_new_inv [OF assms(1,2)])
  from push_cells_keep_first [OF inv, of cells] b assms(3,4)
  have "mb_inv (push_cells cells b)" "ring_list (mb_buffer (push_cells cells b)) = keep_first [] cells"
    by simp_all
  then show ?thesis
    by (simp add: buffer_drain_with_sequences_def split_def mb_inv_def ring_drain_with_sequences_correct)
qed

theorem dedup_keeps_first_witness:
  "fst (buffer_drain_with_sequences (push_cells [(Some 10, Some 1), (Some 11, Some 1)] (sample_buffer ''error'')))
     = [(Some 10, Some 1)]"
  using dedup_keeps_first [OF sample_buffer_check sample_buffer_new, of "''error''" "[(Some 10, Some 1), (Some 11, Some 1)]"]
  by (simp add: sample_buffer_config_def)

text \<open>An identifier among the last \<^verbatim>\<open>n\<close> seen is, after one more push, among the last \<^verbatim>\<open>n + 1\<close>.\<close>

definition seen_recently :: "nat \<Rightarrow> 's \<Rightarrow> ('m, 's) message_buffer \<Rightarrow> bool" where
  "seen_recently n s b \<longleftrightarrow> s \<in> set (drop (length (mb_seen_sequences b) - n) (mb_seen_sequences b))"

lemma set_drop_mono: "m \<le> n \<Longrightarrow> set (drop n xs) \<subseteq> set (drop m xs)"
  by (rule set_drop_subset_set_drop)

lemma seen_recently_push:
  assumes "mb_inv b" and "seen_recently n s b" and "int n < bc_dedup_window (mb_config b)"
  shows "seen_recently (n + 1) s (snd (buffer_push m q b))"
proof -
  let ?b1 = "snd (buffer_push m q b)" and ?seen = "mb_seen_sequences b"
  let ?w = "nat (bc_dedup_window (mb_config b))"
  have weaken: "seen_recently (n + 1) s b"
    using assms(2) set_drop_mono [OF diff_le_mono2, of n "n + 1" "length ?seen" ?seen]
    by (auto simp: seen_recently_def)
  have "mb_seen_sequences ?b1 = ?seen
      \<or> mb_seen_sequences ?b1 = drop (length ?seen + 1 - ?w) (?seen @ [the q])"
    by (cases "rejected q b")
       (auto simp: buffer_push_rejected buffer_push_accepted buffer_note_seen [OF assms(1)] split: sum.split)
  then show ?thesis
  proof
    assume e: "mb_seen_sequences ?b1 = drop (length ?seen + 1 - ?w) (?seen @ [the q])"
    have "drop (length (mb_seen_sequences ?b1) - (n + 1)) (mb_seen_sequences ?b1)
        = drop (length (mb_seen_sequences ?b1) - (n + 1) + (length ?seen + 1 - ?w)) (?seen @ [the q])"
      by (simp only: e drop_drop)
    moreover have "length (mb_seen_sequences ?b1) - (n + 1) + (length ?seen + 1 - ?w) \<le> length ?seen - n"
      using assms(3) by (simp add: e)
    moreover have "s \<in> set (drop (length ?seen - n) (?seen @ [the q]))"
      using assms(2) by (simp add: seen_recently_def)
    ultimately show ?thesis using set_drop_mono by (fastforce simp: seen_recently_def)
  qed (use weaken in \<open>simp add: seen_recently_def\<close>)
qed

lemma seen_recently_push_cells:
  assumes "mb_inv b" and "seen_recently n s b" and "int (n + length cells) \<le> bc_dedup_window (mb_config b)"
  shows "mb_inv (push_cells cells b) \<and> mb_config (push_cells cells b) = mb_config b
    \<and> seen_recently (n + length cells) s (push_cells cells b)"
  using assms
proof (induction cells arbitrary: b n)
  case (Cons c cells)
  from seen_recently_push [OF Cons.prems(1,2)] Cons.prems(3)
  have "seen_recently (n + 1) s (snd (buffer_push (fst c) (snd c) b))" by simp
  from Cons.IH [OF buffer_push_inv [OF Cons.prems(1)] this] Cons.prems(3) show ?case by simp
qed simp

lemma push_seen_recently:
  assumes "mb_inv b" and "bc_enable_dedup (mb_config b)" and "\<not> is_duplicate s b"
  shows "seen_recently 1 s (snd (buffer_push m (Some s) b))"
proof -
  have nr: "\<not> rejected (Some s) b" using assms(3) by (simp add: rejected_def)
  have "mb_seen_sequences (snd (buffer_push m (Some s) b)) = mb_seen_sequences (buffer_note (Some s) b)"
    by (auto simp: buffer_push_accepted [OF nr] split: sum.split)
  with buffer_note_seen [OF assms(1) nr] assms(2) mb_inv_window [OF assms(1)] show ?thesis
    by (auto simp: seen_recently_def Suc_diff_le)
qed

text \<open>
  C26. The window guarantee: once a message with a new identifier has been offered, the same
  identifier is refused, and the buffer left unchanged, for at least \<^verbatim>\<open>dedup_window - 1\<close> further
  pushes, whatever they are.
\<close>

theorem dedup_window_guarantee:
  assumes "mb_inv b" and "bc_enable_dedup (mb_config b)" and "\<not> is_duplicate s b"
    and "int (length cells) < bc_dedup_window (mb_config b)"
    and "b' = push_cells cells (snd (buffer_push m (Some s) b))"
  shows "buffer_push m' (Some s) b' = (Inr False, b')"
proof -
  from seen_recently_push_cells [OF buffer_push_inv [OF assms(1)] push_seen_recently [OF assms(1-3)]] assms(4,5)
  have "seen_recently (1 + length cells) s b'" "mb_config b' = mb_config b" by simp_all
  then have "rejected (Some s) b'"
    using assms(2) by (auto simp: rejected_def is_duplicate_def seen_recently_def dest: in_set_dropD)
  then show ?thesis by (rule buffer_push_rejected)
qed

theorem dedup_window_guarantee_witness:
  "fst (buffer_push (Some 3) (Some 1) (push_cells [(Some 2, Some 2)]
     (snd (buffer_push (Some 1) (Some 1) (sample_buffer ''drop_oldest''))))) = Inr False"
  using dedup_window_guarantee [OF sample_buffer_inv, of "''drop_oldest''" 1 "[(Some 2, Some 2)]"]
  by (simp add: sample_buffer_def sample_buffer_config_def is_duplicate_def)

text \<open>
  A message that the full buffer did not take is remembered as seen all the same: under
  \<^verbatim>\<open>drop_newest\<close> and \<^verbatim>\<open>error\<close> the failed push leaves the contents unchanged, and when it is
  offered again after the buffer has been drained it is refused as a duplicate. The message can
  not be delivered any more while its identifier is in the window.
\<close>

theorem dropped_message_refused_later:
  assumes "mb_inv b" and "bc_enable_dedup (mb_config b)" and "\<not> is_duplicate s b"
    and "buffer_is_full b" and "bc_overflow_policy (mb_config b) \<noteq> ''drop_oldest''"
    and "buffer_push m (Some s) b = (res, b1)" and "buffer_drain b1 = (items, b2)"
  shows "res \<noteq> Inr True \<and> ring_list (mb_buffer b1) = ring_list (mb_buffer b)
     \<and> buffer_len b2 = 0 \<and> buffer_push m (Some s) b2 = (Inr False, b2)"
proof -
  have nr: "\<not> rejected (Some s) b" using assms(3) by (simp add: rejected_def)
  have inv1: "mb_inv b1" using buffer_push_inv [OF assms(1), of m "Some s"] assms(6) by simp
  have b1: "res \<noteq> Inr True \<and> ring_list (mb_buffer b1) = ring_list (mb_buffer b)"
    using assms(1,4,5,6)
    by (auto simp: buffer_push_accepted [OF nr] ring_push_def mb_inv_def buffer_is_full_def
        ring_is_full_def ring_list_def ring_slot_def split: if_splits)
  have b2: "mb_seen_sequences b2 = mb_seen_sequences b1" "mb_config b2 = mb_config b1"
      "ring_list (mb_buffer b2) = []"
    using assms(7) inv1 by (auto simp: buffer_drain_def split_def Let_def mb_inv_def ring_drain_correct)
  then have "buffer_len b2 = 0"
    using length_ring_list [of "mb_buffer b2"] by (simp add: buffer_len_def del: length_ring_list)
  moreover have "mb_config b1 = mb_config b" using buffer_push_config [of m "Some s" b] assms(6) by simp
  moreover have "seen_recently 1 s b1" using push_seen_recently [OF assms(1-3), of m] assms(6) by simp
  ultimately have "rejected (Some s) b2"
    using assms(2) b2 by (auto simp: rejected_def is_duplicate_def seen_recently_def dest: in_set_dropD)
  with b1 \<open>buffer_len b2 = 0\<close> show ?thesis by (simp add: buffer_push_rejected)
qed

definition full_sample_buffer :: "(nat, nat) message_buffer" where
  "full_sample_buffer = push_cells [(Some 1, None), (Some 2, None)] (sample_buffer ''drop_newest'')"

theorem dropped_message_refused_later_witness:
  "buffer_push (Some 3) (Some 9) (snd (buffer_drain (snd (buffer_push (Some 3) (Some 9) full_sample_buffer))))
     = (Inr False, snd (buffer_drain (snd (buffer_push (Some 3) (Some 9) full_sample_buffer))))"
proof -
  have inv: "mb_inv full_sample_buffer"
    by (simp add: full_sample_buffer_def buffer_push_inv sample_buffer_inv)
  have st: "bc_enable_dedup (mb_config full_sample_buffer)" "\<not> is_duplicate 9 full_sample_buffer"
      "buffer_is_full full_sample_buffer"
      "bc_overflow_policy (mb_config full_sample_buffer) \<noteq> ''drop_oldest''"
    by (simp_all add: full_sample_buffer_def sample_buffer_def sample_buffer_config_def is_duplicate_def
        buffer_push_def py_ring_new_def ring_push_def ring_store_def buffer_is_full_def ring_is_full_def)
  show ?thesis
    using dropped_message_refused_later [OF inv st prod.collapse [symmetric] prod.collapse [symmetric]]
    by blast
qed

end
