(* ===== verification/Jet_Manager.thy ===== *)
theory Jet_Manager
  imports Jet_Types Jet_Backoff Jet_Heartbeat Jet_Stats Jet_Events Jet_Message_Buffer
begin

text \<open>
  The WebSocket manager (\<^verbatim>\<open>src/jetsocket/manager.py\<close>): connection lifecycle, message loop,
  reconnection, replay.

  \<^item> The state of the \<^verbatim>\<open>WebSocket\<close> object is the record \<^verbatim>\<open>ws\<close>. Its event emitter is observed: the
    field \<^verbatim>\<open>ws_events\<close> lists the events emitted so far, and handlers are taken not to call back
    into the manager.
  \<^item> A coroutine is split at the points where it waits for the network or for time:
    \<^verbatim>\<open>AsyncTransport.connect\<close>, \<^verbatim>\<open>AsyncTransport.recv\<close>, \<^verbatim>\<open>AsyncTransport.close\<close> and
    \<^verbatim>\<open>asyncio.sleep\<close>. What the awaited call returned is an argument of the function that
    resumes. \<^verbatim>\<open>resume_at\<close> says where a segment left the coroutine.
  \<^item> A deserialized message is not \<^verbatim>\<open>None\<close>: JSON \<^verbatim>\<open>null\<close>, which a draining buffer drops, is left out here.
  \<^item> A transport is identified by a number; every \<^verbatim>\<open>_connect_internal\<close> creates a new one.
  \<^item> Clock readings (\<^verbatim>\<open>now\<close>, \<^verbatim>\<open>utc\<close>) and the draw of \<^verbatim>\<open>random.random()\<close> (\<^verbatim>\<open>rnd\<close>) are arguments.
\<close>

definition FATAL_HTTP_CODES :: "int set" where
  "FATAL_HTTP_CODES = {401, 403, 404, 410}"

definition FATAL_WS_CODES :: "int set" where
  "FATAL_WS_CODES = {CloseCode POLICY_VIOLATION, 4401, 4403}"

text \<open>\<^verbatim>\<open>str(e)\<close>\<close>

fun exn_str :: "exn \<Rightarrow> string" where
  "exn_str (JetSocketError m) = m"
| "exn_str (ConnectionError m) = m"
| "exn_str (ProtocolError m _) = m"
| "exn_str (HandshakeError m _ _) = m"
| "exn_str (CloseError m _ _) = m"
| "exn_str (TimeoutError m _ _) = m"
| "exn_str (BufferOverflowError m _ _) = m"
| "exn_str (InvalidStateError m _ _) = m"
| "exn_str (PoolExhaustedError m _ _) = m"
| "exn_str (PoolClosedError m) = m"
| "exn_str (ValueError m) = m"
| "exn_str (TypeError m) = m"
| "exn_str (RuntimeError m) = m"
| "exn_str (OverflowError m) = m"
| "exn_str (StructError m) = m"
| "exn_str (OSError m) = m"
| "exn_str (OtherException m) = m"
| "exn_str UnicodeDecodeError = ''codec can't decode''"
| "exn_str UnicodeEncodeError = ''codec can't encode''"

record ('m, 's) ws =
  ws_uri :: string
  ws_reconnect_enabled :: bool
  ws_max_connection_age :: "pyfloat option"
  ws_heartbeat_config :: "'m heartbeat_config option"
  ws_buffer_config :: "buffer_config option"
  ws_replay_config :: "('m, 's) replay_config option"
  ws_serializer :: "'m \<Rightarrow> exn + bytes"
  ws_deserializer :: "bytes \<Rightarrow> exn + 'm"
  ws_state :: conn_state
  ws_transport :: "nat option"
  ws_backoff :: backoff
  ws_heartbeat :: "'m heartbeat option"
  ws_stats :: stats
  ws_buffer :: "('m, 's) message_buffer option"
  ws_message_task :: "nat option"
  ws_age_task :: bool
  ws_message_queue :: "'m list"
  ws_running :: bool
  ws_user_closed :: bool
  ws_disconnect_time :: "pyfloat option"
  ws_attempt :: nat
  ws_last_error :: "exn option"
  ws_last_dropped_count :: nat
  ws_events :: "('m, 's) event_data list"
  ws_sent :: "(nat \<times> bytes) list"
  ws_next_id :: nat

subsection \<open>Construction\<close>

datatype 'm heartbeat_arg = HbNone | HbInterval pyfloat | HbConfig "'m heartbeat_config"

datatype buffer_arg = BufNone | BufCapacity int | BufConfig buffer_config

definition normalize_heartbeat :: "'m heartbeat_arg \<Rightarrow> exn + 'm heartbeat_config option" where
  "normalize_heartbeat a = (case a of
     HbNone \<Rightarrow> Inr None
   | HbInterval x \<Rightarrow> bind_result (heartbeat_config_check (default_heartbeat_config\<lparr>hc_interval := x\<rparr>)) (\<lambda>c. Inr (Some c))
   | HbConfig c \<Rightarrow> Inr (Some c))"

definition normalize_buffer :: "buffer_arg \<Rightarrow> exn + buffer_config option" where
  "normalize_buffer a = (case a of
     BufNone \<Rightarrow> Inr None
   | BufCapacity n \<Rightarrow> bind_result (buffer_config_check (default_buffer_config\<lparr>bc_capacity := n\<rparr>)) (\<lambda>c. Inr (Some c))
   | BufConfig c \<Rightarrow> Inr (Some c))"

definition websocket_new :: "string \<Rightarrow> bool \<Rightarrow> backoff_config option \<Rightarrow> pyfloat option \<Rightarrow> 'm heartbeat_arg
    \<Rightarrow> buffer_arg \<Rightarrow> ('m, 's) replay_config option \<Rightarrow> ('m \<Rightarrow> exn + bytes) \<Rightarrow> (bytes \<Rightarrow> exn + 'm)
    \<Rightarrow> exn + ('m, 's) ws" where
  "websocket_new uri reconnect backoff_cfg max_age heartbeat buffer replay serializer deserializer =
     bind_result (normalize_heartbeat heartbeat) (\<lambda>hc.
     bind_result (normalize_buffer buffer) (\<lambda>bc.
     bind_result (case bc of None \<Rightarrow> Inr None
                  | Some c \<Rightarrow> bind_result (message_buffer_new (Some c)) (\<lambda>b. Inr (Some b))) (\<lambda>mb.
       Inr \<lparr>ws_uri = uri, ws_reconnect_enabled = reconnect, ws_max_connection_age = max_age,
            ws_heartbeat_config = hc, ws_buffer_config = bc, ws_replay_config = replay,
            ws_serializer = serializer, ws_deserializer = deserializer,
            ws_state = IDLE, ws_transport = None,
            ws_backoff = new_backoff (Some (case backoff_cfg of Some c \<Rightarrow> c | None \<Rightarrow> default_backoff_config)),
            ws_heartbeat = None, ws_stats = new_stats, ws_buffer = mb,
            ws_message_task = None, ws_age_task = False, ws_message_queue = [],
            ws_running = False, ws_user_closed = False, ws_disconnect_time = None, ws_attempt = 0,
            ws_last_error = None, ws_last_dropped_count = 0, ws_events = [], ws_sent = [], ws_next_id = 0\<rparr>)))"

subsection \<open>Internal helpers\<close>

definition emit :: "('m, 's) event_data \<Rightarrow> ('m, 's) ws \<Rightarrow> ('m, 's) ws" where
  "emit ev w = w\<lparr>ws_events := ws_events w @ [ev]\<rparr>"

text \<open>\<^verbatim>\<open>_set_state\<close>: the validity of the transition is computed and ignored.\<close>

definition set_state :: "conn_state \<Rightarrow> ('m, 's) ws \<Rightarrow> ('m, 's) ws" where
  "set_state new_state w =
     (if new_state = ws_state w then w
      else emit (StateChangeEvent (ws_state w) new_state)
             (w\<lparr>ws_state := new_state, ws_stats := stats_set_state new_state (ws_stats w)\<rparr>))"

definition upd_stats :: "(stats \<Rightarrow> stats) \<Rightarrow> ('m, 's) ws \<Rightarrow> ('m, 's) ws" where
  "upd_stats g w = w\<lparr>ws_stats := g (ws_stats w)\<rparr>"

definition is_fatal_error :: "exn \<Rightarrow> bool" where
  "is_fatal_error e = (case e of
     ValueError _ \<Rightarrow> True | UnicodeDecodeError \<Rightarrow> True | UnicodeEncodeError \<Rightarrow> True | TypeError _ \<Rightarrow> True
   | HandshakeError _ (Some status_code) _ \<Rightarrow> status_code \<in> FATAL_HTTP_CODES
   | _ \<Rightarrow> False)"

definition is_fatal_code :: "int \<Rightarrow> bool" where
  "is_fatal_code code \<longleftrightarrow> code \<in> FATAL_WS_CODES"

text \<open>Where a segment leaves its coroutine.\<close>

datatype resume_at = NDone | NRaise exn | NSleep pyfloat | NConnect

text \<open>\<^verbatim>\<open>_schedule_reconnect\<close> up to the sleep.\<close>

definition schedule_reconnect :: "pyfloat \<Rightarrow> ('m, 's) ws \<Rightarrow> resume_at \<times> ('m, 's) ws" where
  "schedule_reconnect rnd w =
     (if exhausted (ws_backoff w) then
        (NDone, emit (ErrorEvent (ConnectionError ''Max reconnection attempts exhausted'') True) (set_state FAILED w))
      else let w1 = set_state RECONNECTING w
           in case next_delay rnd (ws_backoff w1) of
                Inl e \<Rightarrow> (NRaise e, w1)
              | Inr (delay, b) \<Rightarrow>
                  let w2 = w1\<lparr>ws_backoff := b\<rparr>
                  in (NSleep delay,
                      set_state BACKING_OFF
                        (emit (ReconnectingEvent (int (bo_attempt b)) delay (ws_last_error w2)) w2)))"

text \<open>\<^verbatim>\<open>_connect_internal\<close> up to \<^verbatim>\<open>transport.connect\<close>.\<close>

definition connect_internal_begin :: "('m, 's) ws \<Rightarrow> ('m, 's) ws" where
  "connect_internal_begin w =
     (let w1 = w\<lparr>ws_attempt := ws_attempt w + 1\<rparr>;
          w2 = emit (ConnectingEvent (ws_uri w1) (int (ws_attempt w1))) (set_state CONNECTING w1)
      in w2\<lparr>ws_transport := Some (ws_next_id w2), ws_next_id := ws_next_id w2 + 1\<rparr>)"

text \<open>After the sleep of \<^verbatim>\<open>_schedule_reconnect\<close>.\<close>

definition backoff_wake :: "('m, 's) ws \<Rightarrow> resume_at \<times> ('m, 's) ws" where
  "backoff_wake w =
     (if \<not> ws_running w \<or> ws_user_closed w then (NDone, w) else (NConnect, connect_internal_begin w))"

definition connect :: "('m, 's) ws \<Rightarrow> exn + ('m, 's) ws" where
  "connect w =
     (if ws_state w \<notin> {IDLE, DISCONNECTED} then
        Inl (InvalidStateError ''Cannot connect in state'' (state_value (ws_state w)) [''idle'', ''disconnected''])
      else Inr (connect_internal_begin (w\<lparr>ws_user_closed := False, ws_running := True\<rparr>)))"

text \<open>\<^verbatim>\<open>send\<close> and \<^verbatim>\<open>send_raw\<close>: the outcome of the transport's \<^verbatim>\<open>send\<close> is an argument.\<close>

definition cannot_send :: "('m, 's) ws \<Rightarrow> exn" where
  "cannot_send w = InvalidStateError ''Cannot send in state'' (state_value (ws_state w)) [''connected'']"

definition transmit :: "pyfloat \<Rightarrow> exn + unit \<Rightarrow> bytes \<Rightarrow> ('m, 's) ws \<Rightarrow> (exn + unit) \<times> ('m, 's) ws" where
  "transmit utc tx dat w =
     (case tx of
        Inl e \<Rightarrow> (Inl e, w)
      | Inr _ \<Rightarrow> (Inr (), upd_stats (record_message_sent utc (length dat))
                      (w\<lparr>ws_sent := ws_sent w @ [(the (ws_transport w), dat)]\<rparr>)))"

definition ws_send :: "pyfloat \<Rightarrow> exn + unit \<Rightarrow> 'm \<Rightarrow> ('m, 's) ws \<Rightarrow> (exn + unit) \<times> ('m, 's) ws" where
  "ws_send utc tx data w =
     (if \<not> can_send (ws_state w) \<or> ws_transport w = None then (Inl (cannot_send w), w)
      else case ws_serializer w data of
             Inl e \<Rightarrow> (Inl e, w)
           | Inr serialized \<Rightarrow> transmit utc tx serialized w)"

definition ws_send_raw :: "pyfloat \<Rightarrow> exn + unit \<Rightarrow> bytes \<Rightarrow> ('m, 's) ws \<Rightarrow> (exn + unit) \<times> ('m, 's) ws" where
  "ws_send_raw utc tx data w =
     (if \<not> can_send (ws_state w) \<or> ws_transport w = None then (Inl (cannot_send w), w)
      else transmit utc tx data w)"

subsection \<open>Replay\<close>

text \<open>
  The resend loop of \<^verbatim>\<open>full_buffer\<close> mode: it stops at the first message that cannot be sent. The
  rest of the drained messages is gone.
\<close>

fun replay_messages :: "pyfloat \<Rightarrow> (nat \<Rightarrow> exn + unit) \<Rightarrow> nat \<Rightarrow> 'm list \<Rightarrow> ('m, 's) ws \<Rightarrow> nat \<times> ('m, 's) ws" where
  "replay_messages utc tx n [] w = (n, w)"
| "replay_messages utc tx n (m # ms) w =
     (case ws_send utc (tx n) m w of
        (Inr _, w1) \<Rightarrow> replay_messages utc tx (n + 1) ms w1
      | (Inl e, w1) \<Rightarrow> (n, emit (ErrorEvent e False) (upd_stats record_error w1)))"

definition replay_on_reconnect :: "pyfloat \<Rightarrow> pyfloat \<Rightarrow> pyfloat \<Rightarrow> (nat \<Rightarrow> exn + unit) \<Rightarrow> ('m, 's) ws \<Rightarrow> ('m, 's) ws" where
  "replay_on_reconnect start_time end_time utc tx w =
     (case ws_replay_config w of
        None \<Rightarrow> w
      | Some rc \<Rightarrow>
          if rc_mode rc = ''none'' then w
          else
            let nonempty = (case ws_buffer w of None \<Rightarrow> False | Some b \<Rightarrow> \<not> buffer_is_empty b);
                last_seq = (if nonempty then mb_last_sequence_id (the (ws_buffer w)) else None);
                message_count = (if nonempty then buffer_len (the (ws_buffer w)) else 0);
                w1 = emit (ReplayStartedEvent (rc_mode rc) last_seq message_count) w;
                (replayed_count, w2) =
                  (if rc_mode rc = ''sequence_id'' then
                     (case (last_seq, rc_on_replay rc) of
                        (Some s, Some f) \<Rightarrow>
                          (case f s of
                             Inr _ \<Rightarrow> (1, w1)
                           | Inl e \<Rightarrow> (0, emit (ErrorEvent e False) (upd_stats record_error w1)))
                      | _ \<Rightarrow> (0, w1))
                   else if rc_mode rc = ''full_buffer'' then
                     (case ws_buffer w1 of
                        None \<Rightarrow> (0, w1)
                      | Some b \<Rightarrow> let (messages, b') = buffer_drain b
                                  in replay_messages utc tx 0 messages (w1\<lparr>ws_buffer := Some b'\<rparr>))
                   else (0, w1))
            in emit (ReplayCompletedEvent (rc_mode rc) replayed_count ((end_time - start_time) * 1000)) w2)"

subsection \<open>The rest of \<^verbatim>\<open>_connect_internal\<close>\<close>

text \<open>
  The outcome of \<^verbatim>\<open>transport.connect\<close>: an exception, or the negotiated subprotocol and
  extensions. Only the three exception classes of the \<^verbatim>\<open>except\<close> clause are handled.
\<close>

fun connect_error_handled :: "exn \<Rightarrow> bool" where
  "connect_error_handled (ConnectionError _) = True"
| "connect_error_handled (HandshakeError _ _ _) = True"
| "connect_error_handled (TimeoutError _ _ _) = True"
| "connect_error_handled _ = False"

definition connect_failed :: "pyfloat \<Rightarrow> exn \<Rightarrow> ('m, 's) ws \<Rightarrow> resume_at \<times> ('m, 's) ws" where
  "connect_failed rnd e w =
     (if \<not> connect_error_handled e then (NRaise e, w)
      else let w1 = emit (ErrorEvent e (is_fatal_error e)) (upd_stats record_error (w\<lparr>ws_last_error := Some e\<rparr>))
           in if is_fatal_error e then (NRaise e, set_state FAILED w1)
              else if ws_reconnect_enabled w1 then schedule_reconnect rnd w1
              else (NRaise e, set_state FAILED w1))"

text \<open>The background tasks that a successful connection starts.\<close>

definition start_tasks :: "('m, 's) ws \<Rightarrow> ('m, 's) ws" where
  "start_tasks w =
     (let w1 = (case ws_heartbeat_config w of None \<Rightarrow> w
                | Some c \<Rightarrow> w\<lparr>ws_heartbeat := Some (hb_start (new_heartbeat c))\<rparr>);
          w2 = (if ws_max_connection_age w1 \<noteq> None then w1\<lparr>ws_age_task := True\<rparr> else w1)
      in w2\<lparr>ws_message_task := Some (ws_next_id w2), ws_next_id := ws_next_id w2 + 1\<rparr>)"

definition connect_succeeded :: "pyfloat \<Rightarrow> pyfloat \<Rightarrow> pyfloat \<Rightarrow> (nat \<Rightarrow> exn + unit) \<Rightarrow> string option \<Rightarrow> string list
    \<Rightarrow> ('m, 's) ws \<Rightarrow> ('m, 's) ws" where
  "connect_succeeded now end_time utc tx subprotocol extensions w =
     (let is_reconnect = ws_attempt w > 1;
          w1 = (if is_reconnect then
                  emit (ReconnectedEvent (ws_uri w) (int (ws_attempt w))
                          (case ws_disconnect_time w of Some t \<Rightarrow> now - t | None \<Rightarrow> 0))
                    (upd_stats (mark_reconnected now utc) w)
                else upd_stats (mark_connected now) w);
          w2 = set_state CONNECTED
                 (w1\<lparr>ws_backoff := backoff_success now (ws_backoff w1), ws_last_error := None,
                     ws_disconnect_time := None\<rparr>);
          w3 = emit (if ws_transport w2 = None then ConnectedEvent (ws_uri w2) None []
                     else ConnectedEvent (ws_uri w2) subprotocol extensions) w2;
          w4 = (if is_reconnect then replay_on_reconnect now end_time utc tx w3 else w3)
      in start_tasks w4)"

definition connect_internal_end :: "pyfloat \<Rightarrow> pyfloat \<Rightarrow> pyfloat \<Rightarrow> pyfloat \<Rightarrow> (nat \<Rightarrow> exn + unit)
    \<Rightarrow> exn + string option \<times> string list \<Rightarrow> ('m, 's) ws \<Rightarrow> resume_at \<times> ('m, 's) ws" where
  "connect_internal_end now end_time utc rnd tx result w =
     (case result of
        Inl e \<Rightarrow> connect_failed rnd e w
      | Inr (subprotocol, extensions) \<Rightarrow> (NDone, connect_succeeded now end_time utc tx subprotocol extensions w))"

subsection \<open>Disconnection\<close>

definition handle_disconnect :: "pyfloat \<Rightarrow> pyfloat \<Rightarrow> int \<Rightarrow> string \<Rightarrow> bool \<Rightarrow> ('m, 's) ws \<Rightarrow> resume_at \<times> ('m, 's) ws" where
  "handle_disconnect now rnd code reason was_clean w =
     (let w1 = upd_stats mark_disconnected (w\<lparr>ws_disconnect_time := Some now\<rparr>);
          w2 = w1\<lparr>ws_heartbeat := map_option (\<lambda>h. hb_reset (hb_stop h)) (ws_heartbeat w1), ws_age_task := False\<rparr>;
          w3 = emit (DisconnectedEvent code reason was_clean) (set_state DISCONNECTED w2)
      in if ws_reconnect_enabled w3 \<and> \<not> ws_user_closed w3 \<and> \<not> is_fatal_code code then
           schedule_reconnect rnd w3
         else (NDone, emit (ClosedEvent code reason False) (set_state CLOSED w3)))"

definition send_ping :: "exn + unit \<Rightarrow> bytes \<Rightarrow> ('m, 's) ws \<Rightarrow> (exn + unit) \<times> ('m, 's) ws" where
  "send_ping tx payload w =
     (if ws_transport w = None \<or> \<not> can_send (ws_state w) then (Inr (), w)
      else case tx of
             Inl e \<Rightarrow> (Inl e, w)
           | Inr _ \<Rightarrow> (Inr (), emit (PingEvent payload) w))"

definition handle_pong :: "pyfloat \<Rightarrow> bytes \<Rightarrow> ('m, 's) ws \<Rightarrow> ('m, 's) ws" where
  "handle_pong now payload w =
     (case ws_heartbeat w of
        None \<Rightarrow> emit (PongEvent payload None) w
      | Some h \<Rightarrow> let (latency_ms, h') = on_pong now payload h
                  in emit (PongEvent payload latency_ms) (w\<lparr>ws_heartbeat := Some h'\<rparr>))"

definition handle_heartbeat_timeout :: "pyfloat \<Rightarrow> pyfloat \<Rightarrow> ('m, 's) ws \<Rightarrow> resume_at \<times> ('m, 's) ws" where
  "handle_heartbeat_timeout now rnd w =
     handle_disconnect now rnd (CloseCode ABNORMAL) ''Heartbeat timeout'' False
       (emit (ErrorEvent (TimeoutError ''Heartbeat timeout'' 0 ''pong'') True) w)"

text \<open>\<^verbatim>\<open>_connection_age_timer\<close> after its sleep.\<close>

definition connection_age_reached :: "pyfloat \<Rightarrow> pyfloat \<Rightarrow> ('m, 's) ws \<Rightarrow> resume_at \<times> ('m, 's) ws" where
  "connection_age_reached now rnd w =
     (if ws_state w = CONNECTED then
        handle_disconnect now rnd (CloseCode NORMAL) ''Max connection age reached'' True
          (emit (ClosingEvent (CloseCode NORMAL) ''Max connection age reached'' Local) w)
      else (NDone, w))"

subsection \<open>The message loop\<close>

text \<open>
  \<^verbatim>\<open>_track_received_message\<close>: exceptions of the extractor and of the buffer are suppressed.
\<close>

definition track_received_message :: "'m \<Rightarrow> ('m, 's) ws \<Rightarrow> ('m, 's) ws" where
  "track_received_message data w =
     (case (ws_buffer w, ws_replay_config w) of
        (Some b, Some rc) \<Rightarrow>
          (let sequence_id = (case rc_sequence_extractor rc of None \<Rightarrow> None
                              | Some f \<Rightarrow> (case f data of Inl _ \<Rightarrow> None | Inr s \<Rightarrow> Some s));
               b' = snd (buffer_push (Some data) sequence_id b);
               w1 = w\<lparr>ws_buffer := Some b'\<rparr>
           in if buffer_total_dropped b' > buffer_total_dropped b then
                emit (BufferOverflowEvent (int (rb_capacity (mb_buffer b')))
                        (buffer_total_dropped b' - ws_last_dropped_count w1)
                        (case ws_buffer_config w1 of Some c \<Rightarrow> bc_overflow_policy c | None \<Rightarrow> ''drop_oldest''))
                  (w1\<lparr>ws_last_dropped_count := buffer_total_dropped b'\<rparr>)
              else w1)
      | _ \<Rightarrow> w)"

definition message_error :: "exn \<Rightarrow> ('m, 's) ws \<Rightarrow> ('m, 's) ws" where
  "message_error e w = emit (ErrorEvent e False) (upd_stats record_error w)"

definition deliver_message :: "pyfloat \<Rightarrow> 'm \<Rightarrow> bytes \<Rightarrow> ('m, 's) ws \<Rightarrow> ('m, 's) ws" where
  "deliver_message utc data raw w =
     (let w1 = emit (MessageEvent data raw) (track_received_message data w)
      in upd_stats (record_message_received utc (length raw))
           (w1\<lparr>ws_message_queue := ws_message_queue w1 @ [data]\<rparr>))"

text \<open>The part of one iteration that handles a frame.\<close>

definition handle_frame :: "pyfloat \<Rightarrow> pyfloat \<Rightarrow> frame \<Rightarrow> ('m, 's) ws \<Rightarrow> ('m, 's) ws" where
  "handle_frame now utc f w =
     (if f_opcode f = PONG then handle_pong now (f_payload f) w
      else let w1 = emit (RawMessageEvent (f_payload f) (int (opcode_value (f_opcode f)))) w
           in case ws_deserializer w1 (f_payload f) of
                Inl e \<Rightarrow> message_error e w1
              | Inr data \<Rightarrow>
                  (case ws_heartbeat w1 of
                     None \<Rightarrow> deliver_message utc data (f_payload f) w1
                   | Some h \<Rightarrow>
                       (case on_application_message now data h of
                          (Inl e, h') \<Rightarrow> message_error e (w1\<lparr>ws_heartbeat := Some h'\<rparr>)
                        | (Inr True, h') \<Rightarrow> w1\<lparr>ws_heartbeat := Some h'\<rparr>
                        | (Inr False, h') \<Rightarrow> deliver_message utc data (f_payload f) (w1\<lparr>ws_heartbeat := Some h'\<rparr>))))"

text \<open>The \<^verbatim>\<open>except\<close> clauses around an iteration.\<close>

definition recv_failed :: "pyfloat \<Rightarrow> pyfloat \<Rightarrow> exn \<Rightarrow> ('m, 's) ws \<Rightarrow> resume_at \<times> ('m, 's) ws" where
  "recv_failed now rnd e w =
     (let w1 = upd_stats record_error (w\<lparr>ws_last_error := Some e\<rparr>)
      in if is_ConnectionError e then handle_disconnect now rnd (CloseCode ABNORMAL) (exn_str e) False w1
         else handle_disconnect now rnd (CloseCode INTERNAL_ERROR) (exn_str e) False (emit (ErrorEvent e True) w1))"

definition loop_guard :: "('m, 's) ws \<Rightarrow> bool" where
  "loop_guard w \<longleftrightarrow> ws_running w \<and> ws_state w = CONNECTED"

text \<open>
  One resumption of \<^verbatim>\<open>_message_loop\<close> at its \<^verbatim>\<open>recv\<close>: the loop continues to the next \<^verbatim>\<open>recv\<close>
  (\<^verbatim>\<open>Inl ()\<close>), or it has ended, leaving the task at the given point.
\<close>

definition message_loop_step :: "pyfloat \<Rightarrow> pyfloat \<Rightarrow> pyfloat \<Rightarrow> exn + frame \<Rightarrow> ('m, 's) ws
    \<Rightarrow> (unit + resume_at) \<times> ('m, 's) ws" where
  "message_loop_step now utc rnd received w =
     (case received of
        Inr f \<Rightarrow> let w1 = handle_frame now utc f w in ((if loop_guard w1 then Inl () else Inr NDone), w1)
      | Inl e \<Rightarrow> let (n, w1) = recv_failed now rnd e w in (Inr n, w1))"

subsection \<open>\<^verbatim>\<open>run\<close>, \<^verbatim>\<open>recv\<close>, \<^verbatim>\<open>close\<close> and the statistics\<close>

definition run_check :: "('m, 's) ws \<Rightarrow> exn + unit" where
  "run_check w =
     (if ws_state w \<notin> {CONNECTED, RECONNECTING, BACKING_OFF} then
        Inl (InvalidStateError ''Cannot run in state'' (state_value (ws_state w)) [''connected''])
      else Inr ())"

text \<open>\<^verbatim>\<open>recv\<close>: \<^verbatim>\<open>None\<close> when the call waits for the queue.\<close>

definition ws_recv :: "('m, 's) ws \<Rightarrow> (exn + 'm) option \<times> ('m, 's) ws" where
  "ws_recv w =
     (case ws_message_queue w of
        m # ms \<Rightarrow> (Some (Inr m), w\<lparr>ws_message_queue := ms\<rparr>)
      | [] \<Rightarrow>
          if ws_state w \<notin> {CONNECTED, RECONNECTING, BACKING_OFF} then
            (Some (Inl (InvalidStateError ''Cannot receive in state'' (state_value (ws_state w)) [''connected''])), w)
          else (None, w))"

text \<open>\<^verbatim>\<open>__anext__\<close>: the left value is \<^verbatim>\<open>StopAsyncIteration\<close>.\<close>

definition anext :: "('m, 's) ws \<Rightarrow> (unit + 'm) option \<times> ('m, 's) ws" where
  "anext w =
     (if \<not> ws_running w \<and> ws_message_queue w = [] then (Some (Inl ()), w)
      else case ws_message_queue w of
             m # ms \<Rightarrow> (Some (Inr m), w\<lparr>ws_message_queue := ms\<rparr>)
           | [] \<Rightarrow> (None, w))"

text \<open>
  \<^verbatim>\<open>close\<close> up to the wait for the transport, and from there to the end. The flag says whether the
  call goes on.
\<close>

definition close_begin :: "int \<Rightarrow> string \<Rightarrow> ('m, 's) ws \<Rightarrow> bool \<times> ('m, 's) ws" where
  "close_begin code reason w =
     (let w1 = w\<lparr>ws_user_closed := True, ws_running := False\<rparr>
      in if is_terminal (ws_state w1) then (False, w1)
         else let w2 = (if ws_state w1 = CONNECTED
                        then set_state DISCONNECTING (emit (ClosingEvent code reason Local) w1) else w1)
              in (True, w2\<lparr>ws_heartbeat := None, ws_age_task := False\<rparr>))"

definition close_end :: "int \<Rightarrow> string \<Rightarrow> ('m, 's) ws \<Rightarrow> ('m, 's) ws" where
  "close_end code reason w =
     (let w1 = upd_stats mark_disconnected (w\<lparr>ws_transport := None, ws_message_task := None\<rparr>)
      in emit (ClosedEvent code reason False) (set_state CLOSED w1))"

definition ws_get_stats :: "pyfloat \<Rightarrow> ('m, 's) ws \<Rightarrow> connection_stats \<times> ('m, 's) ws" where
  "ws_get_stats now w =
     (let w1 = upd_stats (stats_set_state (ws_state w)) w;
          w2 = (case ws_heartbeat w1 of
                  None \<Rightarrow> w1
                | Some h \<Rightarrow> (case hb_last_latency h of
                      None \<Rightarrow> w1
                    | Some latency \<Rightarrow> upd_stats (update_latency latency (latency_avg_ms h)) w1))
      in (snapshot now (ws_stats w2), w2))"

definition ws_buffer_fill_ratio :: "('m, 's) ws \<Rightarrow> pyfloat" where
  "ws_buffer_fill_ratio w =
     (case ws_buffer w of Some b \<Rightarrow> if \<not> buffer_is_empty b then buffer_fill_ratio b else 0 | None \<Rightarrow> 0)"

end
