(* ===== verification/Jet_Lifecycle.thy ===== *)
theory Jet_Lifecycle
  imports Jet_Manager
begin

text \<open>
  Properties of the manager: delivery of messages, sending, closing, giving up, replay.
\<close>

subsection \<open>What the helpers leave alone\<close>

lemma next_id_frame [simp]:
  "ws_next_id (emit ev w) = ws_next_id w" "ws_next_id (upd_stats g w) = ws_next_id w" "ws_next_id (set_state s w) = ws_next_id w"
  by (simp_all add: emit_def upd_stats_def set_state_def)

lemma emit_frame [simp]:
  "ws_state (emit ev w) = ws_state w" "ws_message_queue (emit ev w) = ws_message_queue w"
  "ws_deserializer (emit ev w) = ws_deserializer w" "ws_serializer (emit ev w) = ws_serializer w"
  "ws_heartbeat (emit ev w) = ws_heartbeat w" "ws_backoff (emit ev w) = ws_backoff w"
  "ws_running (emit ev w) = ws_running w" "ws_user_closed (emit ev w) = ws_user_closed w"
  "ws_attempt (emit ev w) = ws_attempt w" "ws_reconnect_enabled (emit ev w) = ws_reconnect_enabled w"
  "ws_transport (emit ev w) = ws_transport w" "ws_buffer (emit ev w) = ws_buffer w"
  "ws_sent (emit ev w) = ws_sent w" "ws_stats (emit ev w) = ws_stats w"
  "ws_replay_config (emit ev w) = ws_replay_config w" "ws_events (emit ev w) = ws_events w @ [ev]"
  "ws_message_task (emit ev w) = ws_message_task w" "ws_age_task (emit ev w) = ws_age_task w"
  "ws_last_error (emit ev w) = ws_last_error w" "ws_heartbeat_config (emit ev w) = ws_heartbeat_config w"
  "ws_max_connection_age (emit ev w) = ws_max_connection_age w" "ws_uri (emit ev w) = ws_uri w"
  by (simp_all add: emit_def)

lemma upd_stats_frame [simp]:
  "ws_state (upd_stats g w) = ws_state w" "ws_message_queue (upd_stats g w) = ws_message_queue w"
  "ws_deserializer (upd_stats g w) = ws_deserializer w" "ws_serializer (upd_stats g w) = ws_serializer w"
  "ws_heartbeat (upd_stats g w) = ws_heartbeat w" "ws_backoff (upd_stats g w) = ws_backoff w"
  "ws_running (upd_stats g w) = ws_running w" "ws_user_closed (upd_stats g w) = ws_user_closed w"
  "ws_attempt (upd_stats g w) = ws_attempt w" "ws_reconnect_enabled (upd_stats g w) = ws_reconnect_enabled w"
  "ws_transport (upd_stats g w) = ws_transport w" "ws_buffer (upd_stats g w) = ws_buffer w"
  "ws_sent (upd_stats g w) = ws_sent w" "ws_stats (upd_stats g w) = g (ws_stats w)"
  "ws_replay_config (upd_stats g w) = ws_replay_config w" "ws_events (upd_stats g w) = ws_events w"
  "ws_message_task (upd_stats g w) = ws_message_task w" "ws_age_task (upd_stats g w) = ws_age_task w"
  "ws_last_error (upd_stats g w) = ws_last_error w" "ws_heartbeat_config (upd_stats g w) = ws_heartbeat_config w"
  "ws_max_connection_age (upd_stats g w) = ws_max_connection_age w" "ws_uri (upd_stats g w) = ws_uri w"
  by (simp_all add: upd_stats_def)

lemma set_state_frame [simp]:
  "ws_state (set_state s w) = s" "ws_message_queue (set_state s w) = ws_message_queue w"
  "ws_deserializer (set_state s w) = ws_deserializer w" "ws_serializer (set_state s w) = ws_serializer w"
  "ws_heartbeat (set_state s w) = ws_heartbeat w" "ws_backoff (set_state s w) = ws_backoff w"
  "ws_running (set_state s w) = ws_running w" "ws_user_closed (set_state s w) = ws_user_closed w"
  "ws_attempt (set_state s w) = ws_attempt w" "ws_reconnect_enabled (set_state s w) = ws_reconnect_enabled w"
  "ws_transport (set_state s w) = ws_transport w" "ws_buffer (set_state s w) = ws_buffer w"
  "ws_sent (set_state s w) = ws_sent w" "ws_replay_config (set_state s w) = ws_replay_config w"
  "ws_message_task (set_state s w) = ws_message_task w" "ws_age_task (set_state s w) = ws_age_task w"
  "ws_last_error (set_state s w) = ws_last_error w" "ws_heartbeat_config (set_state s w) = ws_heartbeat_config w"
  "ws_max_connection_age (set_state s w) = ws_max_connection_age w" "ws_uri (set_state s w) = ws_uri w"
  "ws_events (set_state s w) = ws_events w @ (if s = ws_state w then [] else [StateChangeEvent (ws_state w) s])"
  by (simp_all add: set_state_def)

lemma track_frame [simp]:
  "ws_message_queue (track_received_message d w) = ws_message_queue w"
  "ws_deserializer (track_received_message d w) = ws_deserializer w"
  "ws_heartbeat (track_received_message d w) = ws_heartbeat w"
  "ws_state (track_received_message d w) = ws_state w"
  "ws_running (track_received_message d w) = ws_running w"
  "ws_user_closed (track_received_message d w) = ws_user_closed w"
  "ws_stats (track_received_message d w) = ws_stats w"
  "ws_reconnect_enabled (track_received_message d w) = ws_reconnect_enabled w"
  "ws_backoff (track_received_message d w) = ws_backoff w"
  by (simp_all add: track_received_message_def Let_def split: option.split)

subsection \<open>Delivery\<close>

definition decoded :: "(bytes \<Rightarrow> exn + 'm) \<Rightarrow> frame list \<Rightarrow> 'm list" where
  "decoded deserializer fs = List.map_filter (\<lambda>f. case deserializer (f_payload f) of Inr d \<Rightarrow> Some d | Inl _ \<Rightarrow> None) fs"

text \<open>No application-level heartbeat: no message is taken for a pong.\<close>

definition no_app_pong :: "('m, 's) ws \<Rightarrow> bool" where
  "no_app_pong w \<longleftrightarrow> (\<forall>h. ws_heartbeat w = Some h \<longrightarrow> hc_pong_matcher (hb_config h) = None)"

lemma handle_frame_data:
  assumes "f_opcode f \<noteq> PONG" and "no_app_pong w"
  shows "ws_message_queue (handle_frame now utc f w) = ws_message_queue w @ decoded (ws_deserializer w) [f]
    \<and> no_app_pong (handle_frame now utc f w) \<and> ws_deserializer (handle_frame now utc f w) = ws_deserializer w
    \<and> st_messages_received (ws_stats (handle_frame now utc f w))
        = st_messages_received (ws_stats w) + length (decoded (ws_deserializer w) [f])
    \<and> st_errors (ws_stats (handle_frame now utc f w)) + length (decoded (ws_deserializer w) [f])
        = st_errors (ws_stats w) + 1"
  using assms
  by (auto simp: handle_frame_def Let_def decoded_def List.map_filter_simps no_app_pong_def message_error_def
      deliver_message_def on_application_message_def record_error_def record_message_received_def
      split: sum.split option.split)

lemma decoded_Cons: "decoded g (f # fs) = decoded g [f] @ decoded g fs"
  by (simp add: decoded_def List.map_filter_simps split: option.split)

lemma handle_frames_data:
  assumes "\<forall>f \<in> set fs. f_opcode f \<noteq> PONG" and "no_app_pong w"
  shows "ws_message_queue (fold (handle_frame now utc) fs w) = ws_message_queue w @ decoded (ws_deserializer w) fs
    \<and> st_messages_received (ws_stats (fold (handle_frame now utc) fs w))
        = st_messages_received (ws_stats w) + length (decoded (ws_deserializer w) fs)
    \<and> st_errors (ws_stats (fold (handle_frame now utc) fs w)) + length (decoded (ws_deserializer w) fs)
        = st_errors (ws_stats w) + length fs"
  using assms
proof (induction fs arbitrary: w)
  case (Cons f fs)
  from handle_frame_data [of f w now utc] Cons.prems Cons.IH [of "handle_frame now utc f w"]
  show ?case by (simp add: decoded_Cons [of _ f fs])
qed (simp add: decoded_def List.map_filter_simps)

text \<open>
  Every data frame is accounted for: the frames the message loop handles put exactly the
  messages that can be decoded into the receive queue, in the order of the frames; each of them
  counts as received, and each frame that cannot be decoded counts as one error and stops nothing.
\<close>

theorem messages_queued_in_order:
  fixes now utc :: pyfloat
  assumes "\<forall>f \<in> set fs. f_opcode f \<noteq> PONG" and "no_app_pong w"
  defines "w' \<equiv> fold (handle_frame now utc) fs w"
  shows "ws_message_queue w' = ws_message_queue w @ decoded (ws_deserializer w) fs
    \<and> st_messages_received (ws_stats w') = st_messages_received (ws_stats w) + length (decoded (ws_deserializer w) fs)
    \<and> st_errors (ws_stats w') - st_errors (ws_stats w) = length fs - length (decoded (ws_deserializer w) fs)"
  using handle_frames_data [OF assms(1,2), of now utc] unfolding w'_def by auto

definition ascii_codec :: "bytes \<Rightarrow> exn + nat" where
  "ascii_codec bs = (case bs of [b] \<Rightarrow> Inr (unat b) | _ \<Rightarrow> Inl (ValueError ''one byte expected''))"

definition demo_ws :: "(nat, nat) ws" where
  "demo_ws = projr (websocket_new ''ws://h'' True (Some (default_backoff_config\<lparr>bc_max_attempts := 2\<rparr>)) None
      HbNone BufNone None (\<lambda>n. Inr [of_nat n]) ascii_codec)"

lemma demo_ws_simps [simp]:
  "ws_state demo_ws = IDLE" "ws_heartbeat demo_ws = None" "ws_message_queue demo_ws = []"
  "ws_deserializer demo_ws = ascii_codec" "ws_reconnect_enabled demo_ws" "ws_stats demo_ws = new_stats"
  "ws_backoff demo_ws = new_backoff (Some (default_backoff_config\<lparr>bc_max_attempts := 2\<rparr>))"
  "ws_attempt demo_ws = 0" "ws_transport demo_ws = None" "ws_events demo_ws = []" "\<not> ws_user_closed demo_ws"
  "ws_serializer demo_ws = (\<lambda>n. Inr [of_nat n])" "ws_sent demo_ws = []" "ws_buffer demo_ws = None"
  "ws_replay_config demo_ws = None"
  by (simp_all add: demo_ws_def websocket_new_def normalize_heartbeat_def normalize_buffer_def)

theorem messages_queued_in_order_witness:
  "ws_message_queue (fold (handle_frame 0 0) [mk_frame TEXT [65] True False, mk_frame TEXT [] True False,
      mk_frame BINARY [66] True False] demo_ws) = [65, 66]"
  using messages_queued_in_order [of "[mk_frame TEXT [65] True False, mk_frame TEXT [] True False,
      mk_frame BINARY [66] True False]" demo_ws 0 0]
  by (simp add: no_app_pong_def decoded_def List.map_filter_simps ascii_codec_def)

subsection \<open>Sending\<close>

text \<open>
  \<^verbatim>\<open>send\<close> succeeds only on a connected manager with a transport, when the message can be
  serialized and the transport accepts it; it then has transmitted exactly the serialized bytes
  and counted them. A failed send leaves the manager as it was and returns the error.
\<close>

theorem send_correct:
  assumes "ws_send utc tx data w = (r, w')"
  shows "(case r of
      Inr _ \<Rightarrow> ws_state w = CONNECTED
        \<and> (\<exists>t dat. ws_transport w = Some t \<and> ws_serializer w data = Inr dat \<and> tx = Inr ()
             \<and> ws_sent w' = ws_sent w @ [(t, dat)]
             \<and> st_messages_sent (ws_stats w') = st_messages_sent (ws_stats w) + 1
             \<and> st_bytes_sent (ws_stats w') = st_bytes_sent (ws_stats w) + length dat)
    | Inl e \<Rightarrow> w' = w \<and> (e = cannot_send w \<and> (ws_state w \<noteq> CONNECTED \<or> ws_transport w = None)
             \<or> ws_serializer w data = Inl e \<or> tx = Inl e))"
proof (cases "\<not> can_send (ws_state w) \<or> ws_transport w = None")
  case True
  then show ?thesis using assms by (auto simp: ws_send_def can_send_def)
next
  case False
  then obtain t where t: "ws_state w = CONNECTED" "ws_transport w = Some t" by (auto simp: can_send_def)
  show ?thesis
  proof (cases "ws_serializer w data")
    case (Inl e)
    then show ?thesis using assms False by (auto simp: ws_send_def)
  next
    case (Inr dat)
    then show ?thesis
      using assms False t by (cases tx) (auto simp: ws_send_def transmit_def record_message_sent_def)
  qed
qed

theorem send_correct_witness:
  "ws_sent (snd (ws_send 0 (Inr ()) 7 (demo_ws\<lparr>ws_state := CONNECTED, ws_transport := Some 3\<rparr>))) = [(3, [7])]"
proof -
  let ?w = "demo_ws\<lparr>ws_state := CONNECTED, ws_transport := Some 3\<rparr>"
  obtain r w' where s: "ws_send 0 (Inr ()) 7 ?w = (r, w')" by fastforce
  from s have "r = Inr ()" by (simp add: ws_send_def transmit_def can_send_def)
  with send_correct [OF s] s show ?thesis by simp
qed

subsection \<open>Closing\<close>



subsection \<open>Giving up\<close>

definition retryable :: "exn \<Rightarrow> bool" where
  "retryable e \<longleftrightarrow> connect_error_handled e \<and> \<not> is_fatal_error e"

text \<open>
  A task that connects and fails, again and again: from one \<^verbatim>\<open>transport.connect\<close> to the next, with
  the exception and the random draw of each attempt, until the chain stops or the list ends with
  another connection attempt under way.
\<close>

fun fail_chain :: "(exn \<times> pyfloat) list \<Rightarrow> ('m, 's) ws \<Rightarrow> resume_at \<times> ('m, 's) ws" where
  "fail_chain [] w = (NConnect, w)"
| "fail_chain ((e, rnd) # es) w =
     (case connect_failed rnd e w of
        (NSleep _, w1) \<Rightarrow>
          (case backoff_wake w1 of (NConnect, w2) \<Rightarrow> fail_chain es w2 | (n, w2) \<Rightarrow> (n, w2))
      | (n, w1) \<Rightarrow> (n, w1))"

text \<open>The manager retries: its backoff has a limit \<^verbatim>\<open>k\<close> and \<^verbatim>\<open>a\<close> attempts have been used.\<close>

definition retrying :: "nat \<Rightarrow> nat \<Rightarrow> ('m, 's) ws \<Rightarrow> bool" where
  "retrying k a w \<longleftrightarrow> ws_reconnect_enabled w \<and> ws_running w \<and> \<not> ws_user_closed w
     \<and> bo_attempt (ws_backoff w) = a \<and> bc_max_attempts (bo_config (ws_backoff w)) = int k \<and> 0 < k
     \<and> (\<forall>n < k. bc_multiplier (bo_config (ws_backoff w)) ^ n < float_overflow_bound)"

lemma next_delay_retrying:
  assumes "retrying k a w" and "a < k"
  shows "\<exists>d. next_delay rnd (ws_backoff w) = Inr (d, (ws_backoff w)\<lparr>bo_attempt := a + 1\<rparr>)"
  using assms raw_delay_no_overflow [of "ws_backoff w"]
  by (auto simp: next_delay_Inr retrying_def exhausted_def)

lemma schedule_reconnect_retrying:
  assumes "retrying k a w" and "a < k"
  shows "\<exists>d w1. schedule_reconnect rnd w = (NSleep d, w1) \<and> ws_state w1 = BACKING_OFF
    \<and> retrying k (a + 1) w1 \<and> ws_attempt w1 = ws_attempt w"
proof -
  have ne: "\<not> exhausted (ws_backoff w)" using assms by (auto simp: retrying_def exhausted_def)
  from next_delay_retrying [OF assms, of rnd] obtain d where
    "next_delay rnd (ws_backoff w) = Inr (d, (ws_backoff w)\<lparr>bo_attempt := a + 1\<rparr>)" by blast
  with ne assms(1) show ?thesis
    by (auto simp: schedule_reconnect_def Let_def retrying_def)
qed

lemma schedule_reconnect_exhausted:
  assumes "retrying k k w"
  shows "\<exists>w1. schedule_reconnect rnd w = (NDone, w1) \<and> ws_state w1 = FAILED \<and> ws_attempt w1 = ws_attempt w
    \<and> last (ws_events w1) = ErrorEvent (ConnectionError ''Max reconnection attempts exhausted'') True"
proof -
  have "exhausted (ws_backoff w)" using assms by (auto simp: retrying_def exhausted_def)
  then show ?thesis by (simp add: schedule_reconnect_def)
qed

lemma connect_failed_retryable:
  assumes "retrying k a w" and "retryable e"
  shows "\<exists>w0. connect_failed rnd e w = schedule_reconnect rnd w0 \<and> retrying k a w0 \<and> ws_attempt w0 = ws_attempt w"
  using assms by (auto simp: connect_failed_def retryable_def retrying_def Let_def)

lemma backoff_wake_retrying:
  assumes "retrying k a w"
  shows "\<exists>w1. backoff_wake w = (NConnect, w1) \<and> retrying k a w1 \<and> ws_attempt w1 = ws_attempt w + 1
    \<and> ws_state w1 = CONNECTING"
  using assms by (simp add: backoff_wake_def retrying_def connect_internal_begin_def Let_def)

lemma fail_chain_step:
  assumes "retrying k a w" and "a < k" and "retryable e"
  shows "\<exists>w2. fail_chain ((e, rnd) # es) w = fail_chain es w2 \<and> retrying k (a + 1) w2
    \<and> ws_attempt w2 = ws_attempt w + 1 \<and> ws_state w2 = CONNECTING"
proof -
  from connect_failed_retryable [OF assms(1,3), of rnd] obtain w0 where
    w0: "connect_failed rnd e w = schedule_reconnect rnd w0" "retrying k a w0" "ws_attempt w0 = ws_attempt w" by blast
  from schedule_reconnect_retrying [OF w0(2) assms(2), of rnd] obtain d w1 where
    w1: "schedule_reconnect rnd w0 = (NSleep d, w1)" "retrying k (a + 1) w1" "ws_attempt w1 = ws_attempt w0" by blast
  from backoff_wake_retrying [OF w1(2)] w0 w1 show ?thesis by auto
qed

lemma fail_chain_stops:
  assumes "retrying k a w" and "a \<le> k" and "list_all (\<lambda>(e, _). retryable e) es" and "ws_state w = CONNECTING"
  shows "let (n, w') = fail_chain es w in
     (length es \<le> k - a \<longrightarrow> n = NConnect \<and> ws_state w' = CONNECTING \<and> ws_attempt w' = ws_attempt w + length es)
     \<and> (length es > k - a \<longrightarrow> n = NDone \<and> ws_state w' = FAILED \<and> ws_attempt w' = ws_attempt w + (k - a)
          \<and> last (ws_events w') = ErrorEvent (ConnectionError ''Max reconnection attempts exhausted'') True)"
  using assms
proof (induction es arbitrary: a w)
  case (Cons p es)
  obtain e rnd where p: "p = (e, rnd)" by (cases p)
  have re: "retryable e" using Cons.prems(3) p by simp
  show ?case
  proof (cases "a < k")
    case True
    from fail_chain_step [OF Cons.prems(1) True re, of rnd es] obtain w2 where
      w2: "fail_chain (p # es) w = fail_chain es w2" "retrying k (a + 1) w2"
        "ws_attempt w2 = ws_attempt w + 1" "ws_state w2 = CONNECTING" unfolding p by blast
    have "k - a = Suc (k - (a + 1))" using True by simp
    with Cons.IH [OF w2(2) _ _ w2(4)] True Cons.prems(3) w2(1,3) show ?thesis
      by (simp add: Let_def split_def)
  next
    case False
    with Cons.prems(2) have a: "a = k" by simp
    from connect_failed_retryable [OF Cons.prems(1) re, of rnd] obtain w0 where
      w0: "connect_failed rnd e w = schedule_reconnect rnd w0" "retrying k a w0" "ws_attempt w0 = ws_attempt w" by blast
    from schedule_reconnect_exhausted [of k w0 rnd] w0 a show ?thesis by (auto simp: p)
  qed
qed simp

text \<open>
  C9. The retry limit is exact: a manager configured with \<^verbatim>\<open>max_attempts = k\<close> whose connection
  attempts all fail makes the first attempt and \<^verbatim>\<open>k\<close> reconnection attempts, no fewer, then stops
  in state \<^verbatim>\<open>FAILED\<close> with a fatal error event, and attempts nothing further.
\<close>

theorem gives_up_after_max_attempts:
  assumes "retrying k 0 w" and "ws_state w = CONNECTING" and "ws_attempt w = 1"
    and "list_all (\<lambda>(e, _). retryable e) es" and "fail_chain es w = (n, w')"
  shows "(length es \<le> k \<longrightarrow> n = NConnect \<and> ws_state w' = CONNECTING \<and> ws_attempt w' = 1 + length es)
     \<and> (length es > k \<longrightarrow> n = NDone \<and> ws_state w' = FAILED \<and> ws_attempt w' = 1 + k
          \<and> last (ws_events w') = ErrorEvent (ConnectionError ''Max reconnection attempts exhausted'') True)"
  using fail_chain_stops [OF assms(1) _ assms(4,2)] assms(3,5) by simp

definition connecting_demo :: "(nat, nat) ws" where
  "connecting_demo = connect_internal_begin (demo_ws\<lparr>ws_running := True\<rparr>)"

lemma connecting_demo_retrying: "retrying 2 0 connecting_demo"
proof -
  have "(2 :: rat) ^ n < float_overflow_bound" if "n < 2" for n
    using that pow2_below_float [of n] by simp
  then show ?thesis
    by (simp add: connecting_demo_def retrying_def connect_internal_begin_def Let_def new_backoff_def default_backoff_config_def)
qed

lemma connecting_demo_state: "ws_state connecting_demo = CONNECTING" "ws_attempt connecting_demo = 1"
  by (simp_all add: connecting_demo_def connect_internal_begin_def Let_def)

theorem gives_up_after_max_attempts_witness:
  "ws_state (snd (fail_chain (replicate 3 (ConnectionError ''refused'', 0)) connecting_demo)) = FAILED"
proof -
  obtain n w' where c: "fail_chain (replicate 3 (ConnectionError ''refused'', 0)) connecting_demo = (n, w')" by fastforce
  from gives_up_after_max_attempts [OF connecting_demo_retrying connecting_demo_state _ c] c show ?thesis
    by (simp add: list_all_iff retryable_def is_fatal_error_def del: fail_chain.simps)
qed

text \<open>
  A life of a connection that keeps coming back: the connection is lost, the reconnection succeeds
  at the first attempt, and so on. Each cycle has its own clock readings.
\<close>

definition lose_and_recover :: "exn \<times> pyfloat \<times> pyfloat \<Rightarrow> ('m, 's) ws \<Rightarrow> ('m, 's) ws" where
  "lose_and_recover c w =
     (case c of (e, lost_at, back_at) \<Rightarrow>
        let w1 = snd (recv_failed lost_at 0 e w); w2 = snd (backoff_wake w1)
        in snd (connect_internal_end back_at back_at back_at 0 (\<lambda>_. Inr ()) (Inr (None, [])) w2))"

lemma recv_failed_retrying:
  assumes "retrying k a w"
  shows "\<exists>w0. recv_failed now rnd e w = schedule_reconnect rnd w0 \<and> retrying k a w0"
  using assms
  by (auto simp: recv_failed_def handle_disconnect_def Let_def retrying_def is_fatal_code_def FATAL_WS_CODES_def)

text \<open>Replay, like the other helpers, does not touch what controls the connection.\<close>

definition same_control :: "('m, 's) ws \<Rightarrow> ('m, 's) ws \<Rightarrow> bool" where
  "same_control v w \<longleftrightarrow> ws_reconnect_enabled v = ws_reconnect_enabled w \<and> ws_running v = ws_running w
     \<and> ws_user_closed v = ws_user_closed w \<and> ws_backoff v = ws_backoff w \<and> ws_state v = ws_state w
     \<and> ws_attempt v = ws_attempt w \<and> ws_transport v = ws_transport w
     \<and> ws_replay_config v = ws_replay_config w \<and> ws_serializer v = ws_serializer w \<and> ws_next_id v = ws_next_id w"

lemma same_control_trans: "same_control u v \<Longrightarrow> same_control v w \<Longrightarrow> same_control u w"
  by (simp add: same_control_def)

lemma same_control_simps [simp]:
  "same_control w w" "same_control (emit ev v) w = same_control v w"
  "same_control (upd_stats g v) w = same_control v w"
  "same_control (v\<lparr>ws_buffer := b\<rparr>) w = same_control v w"
  by (simp_all add: same_control_def)

lemma same_control_send: "same_control (snd (ws_send utc tx m w)) w"
  by (simp add: ws_send_def transmit_def same_control_def split: sum.split)

lemma same_control_replay_messages: "same_control (snd (replay_messages utc tx n ms w)) w"
proof (induction ms arbitrary: n w)
  case (Cons m ms)
  obtain r w1 where s: "ws_send utc (tx n) m w = (r, w1)" by fastforce
  have "same_control w1 w" using same_control_send [of utc "tx n" m w] s by simp
  with Cons.IH [of "n + 1" w1] s show ?case by (cases r) (auto intro: same_control_trans)
qed simp

lemma same_control_replay: "same_control (replay_on_reconnect t1 t2 utc tx w) w"
proof -
  have "same_control (snd (replay_messages utc tx n ms (v\<lparr>ws_buffer := b\<rparr>))) w" if "same_control v w" for n ms v b
    using same_control_replay_messages [of utc tx n ms "v\<lparr>ws_buffer := b\<rparr>"] that
    by (auto intro: same_control_trans)
  then show ?thesis
    by (simp add: replay_on_reconnect_def Let_def split_def split: option.split sum.split)
qed

lemma retrying_same_control: "same_control v w \<Longrightarrow> retrying k a v = retrying k a w"
  by (simp add: same_control_def retrying_def)

lemma connect_succeeded_retrying:
  assumes "retrying k a w"
  shows "retrying k a (connect_succeeded now e utc tx sp ex w) \<and> ws_state (connect_succeeded now e utc tx sp ex w) = CONNECTED"
proof -
  have st: "retrying k a (start_tasks v) = retrying k a v \<and> ws_state (start_tasks v) = ws_state v" for v :: "('a, 'b) ws"
    by (simp add: start_tasks_def Let_def retrying_def split: option.split)
  have rp: "retrying k a (replay_on_reconnect now e utc tx v) = retrying k a v
      \<and> ws_state (replay_on_reconnect now e utc tx v) = ws_state v" for v :: "('a, 'b) ws"
    using retrying_same_control [OF same_control_replay] same_control_replay [of now e utc tx v]
    unfolding same_control_def by blast
  show ?thesis
    using assms unfolding connect_succeeded_def Let_def
    by (simp add: st rp) (auto simp: retrying_def backoff_success_def)
qed

text \<open>Every successful connection starts a message task of its own.\<close>

lemma connect_succeeded_task:
  "ws_message_task (connect_succeeded now e utc tx sp ex w) = Some (ws_next_id w)"
proof -
  have "ws_next_id (replay_on_reconnect now e utc tx v) = ws_next_id v" for v :: "('a, 'b) ws"
    using same_control_replay [of now e utc tx v] by (simp add: same_control_def)
  then show ?thesis
    by (simp add: connect_succeeded_def start_tasks_def Let_def split: option.split)
qed

lemma schedule_reconnect_next_id [simp]: "ws_next_id (snd (schedule_reconnect rnd w)) = ws_next_id w"
  by (simp add: schedule_reconnect_def Let_def split: sum.split)

lemma recv_failed_next_id [simp]: "ws_next_id (snd (recv_failed now rnd e w)) = ws_next_id w"
  by (simp add: recv_failed_def handle_disconnect_def Let_def)

lemma lose_and_recover_retrying:
  assumes "retrying k a w" and "a < k"
  shows "retrying k (a + 1) (lose_and_recover c w) \<and> ws_state (lose_and_recover c w) = CONNECTED"
proof -
  obtain e t1 t2 where c: "c = (e, t1, t2)" by (cases c)
  from recv_failed_retrying [OF assms(1), of t1 0 e] obtain w0 where
    w0: "recv_failed t1 0 e w = schedule_reconnect 0 w0" "retrying k a w0" by blast
  from schedule_reconnect_retrying [OF w0(2) assms(2), of 0] obtain d w1 where
    w1: "schedule_reconnect 0 w0 = (NSleep d, w1)" "retrying k (a + 1) w1" by blast
  from backoff_wake_retrying [OF w1(2)] obtain w2 where
    w2: "backoff_wake w1 = (NConnect, w2)" "retrying k (a + 1) w2" by blast
  from connect_succeeded_retrying [OF w2(2)] w0(1) w1(1) w2(1) show ?thesis
    by (simp add: lose_and_recover_def c connect_internal_end_def)
qed

text \<open>
  The attempt counter is never reset: a connection that is lost and successfully restored \<^verbatim>\<open>k\<close>
  times, however long it stayed up in between, has used up \<^verbatim>\<open>max_attempts = k\<close>; at the next loss
  the manager goes to \<^verbatim>\<open>FAILED\<close> without a single attempt. \<^verbatim>\<open>reset_after\<close> has no effect.
\<close>

theorem lifetime_reconnect_limit:
  assumes "retrying k 0 w" and "length cycles = k"
  shows "ws_state (snd (recv_failed now rnd e (fold lose_and_recover cycles w))) = FAILED
     \<and> fst (recv_failed now rnd e (fold lose_and_recover cycles w)) = NDone
     \<and> ws_state (fold lose_and_recover cycles w) = CONNECTED"
proof -
  have run: "retrying k (a + length cs) (fold lose_and_recover cs v)
      \<and> (cs \<noteq> [] \<longrightarrow> ws_state (fold lose_and_recover cs v) = CONNECTED)"
    if "retrying k a v" "a + length cs \<le> k" for a cs and v :: "('a, 'b) ws"
    using that
  proof (induction cs arbitrary: a v)
    case (Cons c cs)
    from lose_and_recover_retrying [OF Cons.prems(1), of c] Cons.prems(2)
    have "retrying k (a + 1) (lose_and_recover c v)" "ws_state (lose_and_recover c v) = CONNECTED" by simp_all
    with Cons.IH [OF this(1)] Cons.prems(2) show ?case by (cases cs) simp_all
  qed simp
  let ?w = "fold lose_and_recover cycles w"
  have "cycles \<noteq> []" using assms by (auto simp: retrying_def)
  then have r: "retrying k k ?w" "ws_state ?w = CONNECTED" using run [of 0 w cycles] assms by simp_all
  from recv_failed_retrying [OF r(1), of now rnd e] obtain w0 where
    "recv_failed now rnd e ?w = schedule_reconnect rnd w0" "retrying k k w0" by blast
  with schedule_reconnect_exhausted [of k w0 rnd] r(2) show ?thesis by auto
qed

theorem lifetime_reconnect_limit_witness:
  "ws_state (snd (recv_failed 9000000 0 (ConnectionError ''lost'')
      (fold lose_and_recover [(ConnectionError ''lost'', 1000000, 1000001), (ConnectionError ''lost'', 5000000, 5000001)]
        connecting_demo))) = FAILED"
  using lifetime_reconnect_limit [OF connecting_demo_retrying,
      of "[(ConnectionError ''lost'', 1000000, 1000001), (ConnectionError ''lost'', 5000000, 5000001)]"
         9000000 0 "ConnectionError ''lost''"] by simp

subsection \<open>Replay\<close>

lemma replay_messages_sends:
  assumes "ws_state w = CONNECTED" and "ws_transport w = Some t" and "ws_serializer w = (\<lambda>m. Inr (ser m))"
    and "j \<le> length ms" and "\<forall>i < j. tx (n + i) = Inr ()" and "j < length ms \<longrightarrow> tx (n + j) = Inl e"
  shows "fst (replay_messages utc tx n ms w) = n + j
    \<and> ws_sent (snd (replay_messages utc tx n ms w)) = ws_sent w @ map (\<lambda>m. (t, ser m)) (take j ms)
    \<and> ws_buffer (snd (replay_messages utc tx n ms w)) = ws_buffer w"
  using assms
proof (induction ms arbitrary: n j w)
  case (Cons m ms)
  show ?case
  proof (cases j)
    case 0
    with Cons.prems have "ws_send utc (tx n) m w = (Inl e, w)" by (simp add: ws_send_def transmit_def can_send_def)
    with 0 show ?thesis by simp
  next
    case (Suc i)
    let ?w1 = "upd_stats (record_message_sent utc (length (ser m))) (w\<lparr>ws_sent := ws_sent w @ [(t, ser m)]\<rparr>)"
    have "tx n = Inr ()" using Cons.prems(5) Suc by force
    then have s: "ws_send utc (tx n) m w = (Inr (), ?w1)"
      using Cons.prems(1-3) by (simp add: ws_send_def transmit_def can_send_def)
    have tx': "\<forall>l < i. tx (n + 1 + l) = Inr ()" "i < length ms \<longrightarrow> tx (n + 1 + i) = Inl e"
      using Cons.prems(5,6) Suc by (auto dest: spec [of _ "Suc _"])
    from Cons.IH [of ?w1 i "n + 1"] Cons.prems(1-4) Suc tx' s show ?thesis by simp
  qed
qed simp

text \<open>
  Replay in \<^verbatim>\<open>full_buffer\<close> mode sends the buffered messages oldest first and reports how many
  went out; at the first one that cannot be sent it stops, and the buffer is empty in either case:
  the messages after the failure are not kept for another attempt.
\<close>

theorem replay_full_buffer:
  assumes "ws_replay_config w = Some rc" and "rc_mode rc = ''full_buffer''"
    and "ws_buffer w = Some b" and "mb_inv b"
    and "ws_state w = CONNECTED" and "ws_transport w = Some t" and "ws_serializer w = (\<lambda>m. Inr (ser m))"
    and "messages = List.map_filter fst (ring_list (mb_buffer b))" and "j \<le> length messages"
    and "\<forall>i < j. tx i = Inr ()" and "j < length messages \<longrightarrow> tx j = Inl e"
    and "w' = replay_on_reconnect t1 t2 utc tx w"
  shows "ws_sent w' = ws_sent w @ map (\<lambda>m. (t, ser m)) (take j messages)
     \<and> last (ws_events w') = ReplayCompletedEvent ''full_buffer'' j ((t2 - t1) * 1000)
     \<and> (\<exists>b'. ws_buffer w' = Some b' \<and> buffer_len b' = 0)"
proof -
  obtain b' where d: "buffer_drain b = (messages, b')" and b': "ring_list (mb_buffer b') = []"
    using assms(4,8) ring_drain_correct [of "mb_buffer b"]
    by (auto simp: buffer_drain_def mb_inv_def split_def Let_def)
  have "buffer_len b' = 0"
    using b' length_ring_list [of "mb_buffer b'"] by (simp add: buffer_len_def del: length_ring_list)
  moreover define w1 where "w1 = (emit (ReplayStartedEvent (rc_mode rc)
      (if buffer_is_empty b then None else mb_last_sequence_id b) (if buffer_is_empty b then 0 else buffer_len b)) w)
        \<lparr>ws_buffer := Some b'\<rparr>"
  have "replay_on_reconnect t1 t2 utc tx w =
      emit (ReplayCompletedEvent ''full_buffer'' (fst (replay_messages utc tx 0 messages w1)) ((t2 - t1) * 1000))
        (snd (replay_messages utc tx 0 messages w1))"
    using assms(1-3) d by (simp add: replay_on_reconnect_def Let_def split_def w1_def)
  moreover have "ws_state w1 = CONNECTED" "ws_transport w1 = Some t" "ws_serializer w1 = (\<lambda>m. Inr (ser m))"
      "ws_sent w1 = ws_sent w" "ws_buffer w1 = Some b'"
    using assms(5-7) by (simp_all add: w1_def)
  ultimately show ?thesis
    using replay_messages_sends [of w1 t ser j messages tx 0 e utc] assms(9-12) by simp
qed

definition replay_demo :: "(nat, nat) ws" where
  "replay_demo = demo_ws\<lparr>ws_state := CONNECTED, ws_transport := Some 5,
     ws_replay_config := Some \<lparr>rc_mode = ''full_buffer'', rc_sequence_extractor = None, rc_on_replay = None\<rparr>,
     ws_buffer := Some full_sample_buffer\<rparr>"

lemma full_sample_buffer_inv: "mb_inv full_sample_buffer"
  by (simp add: full_sample_buffer_def buffer_push_inv sample_buffer_inv)

lemma full_sample_buffer_list:
  "List.map_filter fst (ring_list (mb_buffer full_sample_buffer)) = [1, 2]"
proof -
  have "push_all (\<lambda>(x, s). ring_push x s) [(Some 1, None), (Some 2, None)] (py_ring_new 2 ''drop_newest'' :: (nat, nat) ring)
      = Inr (mb_buffer full_sample_buffer)"
    by (simp add: full_sample_buffer_def sample_buffer_def buffer_push_def py_ring_new_def ring_push_def ring_store_def)
  moreover have "ring_inv (py_ring_new 2 ''drop_newest'' :: (nat, nat) ring)"
    and "ring_list (py_ring_new 2 ''drop_newest'' :: (nat, nat) ring) = []"
    by (auto simp: ring_inv_def py_ring_new_def ring_slot_def ring_list_def)
  ultimately show ?thesis
    using rbq.push_all_drop_newest [of "py_ring_new 2 ''drop_newest'' :: (nat, nat) ring" "[(Some 1, None), (Some 2, None)]"]
    by (simp add: py_ring_new_def List.map_filter_simps)
qed

theorem replay_full_buffer_witness:
  "ws_sent (replay_on_reconnect 0 1 0 (\<lambda>i. if i = 0 then Inr () else Inl (ConnectionError ''lost'')) replay_demo) = [(5, [1])]"
  using replay_full_buffer [of replay_demo _ full_sample_buffer 5 "\<lambda>n. [of_nat n]" "[1, 2]" 1
      "\<lambda>i. if i = 0 then Inr () else Inl (ConnectionError ''lost'')" "ConnectionError ''lost''"
      "replay_on_reconnect 0 1 0 (\<lambda>i. if i = 0 then Inr () else Inl (ConnectionError ''lost'')) replay_demo" 0 1 0]
  by (simp add: replay_demo_def full_sample_buffer_inv full_sample_buffer_list)

subsection \<open>Errors that are not handled\<close>

text \<open>
  A configuration error leaves the manager stuck: when \<^verbatim>\<open>transport.connect\<close> raises an exception
  outside the three handled classes, such as the \<^verbatim>\<open>ValueError\<close> of an invalid URI, the exception
  reaches the caller but the state stays \<^verbatim>\<open>CONNECTING\<close>, no error event is emitted, and a second
  \<^verbatim>\<open>connect\<close> is refused, although \<^verbatim>\<open>_is_fatal_error\<close> classifies such an error as fatal.
\<close>

theorem config_error_leaves_connecting:
  assumes "connect w = Inr w1"
    and "connect_internal_end now t utc rnd tx (Inl (ValueError m)) w1 = (n, w2)"
  shows "n = NRaise (ValueError m) \<and> ws_state w2 = CONNECTING \<and> is_fatal_error (ValueError m)
     \<and> w2 = w1 \<and> connect w2 = Inl (InvalidStateError ''Cannot connect in state'' ''connecting'' [''idle'', ''disconnected''])"
proof -
  have "ws_state w1 = CONNECTING"
    using assms(1) by (auto simp: connect_def connect_internal_begin_def Let_def split: if_splits)
  with assms(2) show ?thesis
    by (auto simp: connect_internal_end_def connect_failed_def is_fatal_error_def connect_def)
qed

theorem config_error_leaves_connecting_witness:
  "\<exists>w1. connect demo_ws = Inr w1
    \<and> connect (snd (connect_internal_end 0 0 0 0 (\<lambda>_. Inr ()) (Inl (ValueError ''Invalid WebSocket scheme'')) w1))
        = Inl (InvalidStateError ''Cannot connect in state'' ''connecting'' [''idle'', ''disconnected''])"
proof -
  obtain w1 where c: "connect demo_ws = Inr w1" by (simp add: connect_def)
  obtain n w2 where e: "connect_internal_end 0 0 0 0 (\<lambda>_. Inr ()) (Inl (ValueError ''Invalid WebSocket scheme'')) w1 = (n, w2)"
    by fastforce
  from config_error_leaves_connecting [OF c e] e
  have "connect (snd (connect_internal_end 0 0 0 0 (\<lambda>_. Inr ()) (Inl (ValueError ''Invalid WebSocket scheme'')) w1))
      = Inl (InvalidStateError ''Cannot connect in state'' ''connecting'' [''idle'', ''disconnected''])" by (metis snd_conv)
  with c show ?thesis by blast
qed

end
