(* ===== verification/Jet_Concurrency.thy ===== *)
theory Jet_Concurrency
  imports Jet_Lifecycle
begin

text \<open>
  The manager's tasks running concurrently. Its coroutines run in the task of the user, in message
  loop tasks (each \<^verbatim>\<open>_connect_internal\<close> that succeeds creates one), in the heartbeat task and in the
  age timer; a reconnection runs in whichever task noticed the loss. A system state is the manager
  and the list of suspended coroutines, each with its task and the point where it waits. A step
  resumes one of them or is a call by the user; between two suspension points a coroutine runs
  alone, as asyncio guarantees.
\<close>

datatype owner = User | MessageLoop nat | HeartbeatTask | AgeTimer

datatype cont = AtConnect | AtBackoff | AtStart | AtRecv | AtClose int string

type_synonym ('m, 's) sys = "('m, 's) ws \<times> (owner \<times> cont) list"

definition park :: "owner \<Rightarrow> resume_at \<Rightarrow> (owner \<times> cont) list" where
  "park o1 n = (case n of NSleep _ \<Rightarrow> [(o1, AtBackoff)] | NConnect \<Rightarrow> [(o1, AtConnect)] | _ \<Rightarrow> [])"

text \<open>Cancelling the current message task, at the end of \<^verbatim>\<open>close\<close>.\<close>

definition cancel_message_task :: "('m, 's) ws \<Rightarrow> (owner \<times> cont) list \<Rightarrow> (owner \<times> cont) list" where
  "cancel_message_task w cs =
     (case ws_message_task w of None \<Rightarrow> cs | Some i \<Rightarrow> filter (\<lambda>c. fst c \<noteq> MessageLoop i) cs)"

inductive sys_step :: "('m, 's) sys \<Rightarrow> ('m, 's) sys \<Rightarrow> bool" where
  user_connect: "connect w = Inr w' \<Longrightarrow> sys_step (w, cs) (w', cs @ [(User, AtConnect)])"
| connected: "connect_internal_end now t utc rnd tx (Inr neg) w = (n, w')
    \<Longrightarrow> sys_step (w, xs @ (o1, AtConnect) # ys)
          (w', xs @ ys @ [(MessageLoop (the (ws_message_task w')), AtStart)])"
| connect_fails: "connect_internal_end now t utc rnd tx (Inl e) w = (n, w')
    \<Longrightarrow> sys_step (w, xs @ (o1, AtConnect) # ys) (w', xs @ ys @ park o1 n)"
| backoff_over: "backoff_wake w = (n, w')
    \<Longrightarrow> sys_step (w, xs @ (o1, AtBackoff) # ys) (w', xs @ ys @ park o1 n)"
| loop_starts: "sys_step (w, xs @ (o1, AtStart) # ys)
    (w, xs @ ys @ (if ws_transport w \<noteq> None \<and> loop_guard w then [(o1, AtRecv)] else []))"
| received: "message_loop_step now utc rnd (Inr f) w = (r, w')
    \<Longrightarrow> sys_step (w, xs @ (o1, AtRecv) # ys) (w', xs @ ys @ (if r = Inl () then [(o1, AtRecv)] else []))"
| recv_fails: "recv_failed now rnd e w = (n, w')
    \<Longrightarrow> sys_step (w, xs @ (o1, AtRecv) # ys) (w', xs @ ys @ park o1 n)"
| heartbeat_timeout: "ws_heartbeat w = Some h \<Longrightarrow> hb_running h \<Longrightarrow> handle_heartbeat_timeout now rnd w = (n, w')
    \<Longrightarrow> sys_step (w, cs) (w', cs @ park HeartbeatTask n)"
| age_timer: "ws_age_task w \<Longrightarrow> connection_age_reached now rnd w = (n, w')
    \<Longrightarrow> sys_step (w, cs) (w', cs @ park AgeTimer n)"
| user_send: "ws_send utc tx m w = (r, w') \<Longrightarrow> sys_step (w, cs) (w', cs)"
| user_recv: "ws_recv w = (r', w') \<Longrightarrow> sys_step (w, cs) (w', cs)"
| user_close: "close_begin code reason w = (goes_on, w')
    \<Longrightarrow> sys_step (w, cs) (w', cs @ (if goes_on then [(User, AtClose code reason)] else []))"
| close_ends: "sys_step (w, xs @ (o1, AtClose code reason) # ys)
    (close_end code reason w, cancel_message_task w (xs @ ys))"

inductive_cases sys_stepE: "sys_step s s'"

inductive sys_steps :: "('m, 's) sys \<Rightarrow> ('m, 's) sys \<Rightarrow> bool" where
  none: "sys_steps s s"
| more: "sys_steps s s' \<Longrightarrow> sys_step s' s'' \<Longrightarrow> sys_steps s s''"

lemma sys_steps_rtranclp: "sys_steps s s' \<Longrightarrow> sys_step\<^sup>*\<^sup>* s s'"
  by (induction rule: sys_steps.induct) auto

subsection \<open>Closed for good\<close>

text \<open>Closed by the user, and no connection attempt is waiting for the network.\<close>

definition shut :: "('m, 's) sys \<Rightarrow> bool" where
  "shut s \<longleftrightarrow> ws_state (fst s) = CLOSED \<and> ws_user_closed (fst s) \<and> \<not> ws_running (fst s)
     \<and> AtConnect \<notin> snd ` set (snd s)"

lemma park_no_connect: "n \<noteq> NConnect \<Longrightarrow> AtConnect \<notin> snd ` set (park o1 n)"
  by (cases n) (simp_all add: park_def)

lemma handle_disconnect_closed:
  assumes "ws_user_closed w" and "handle_disconnect now rnd code reason clean w = (n, w')"
  shows "n = NDone \<and> ws_state w' = CLOSED \<and> ws_user_closed w' \<and> ws_running w' = ws_running w"
  using assms by (auto simp: handle_disconnect_def Let_def)

lemma recv_failed_closed:
  assumes "ws_user_closed w" and "recv_failed now rnd e w = (n, w')"
  shows "n = NDone \<and> ws_state w' = CLOSED \<and> ws_user_closed w' \<and> ws_running w' = ws_running w"
proof -
  from assms(2) obtain code w0 where "handle_disconnect now rnd code (exn_str e) False w0 = (n, w')"
    and "ws_user_closed w0 = ws_user_closed w" and "ws_running w0 = ws_running w"
    by (auto simp: recv_failed_def Let_def split: if_splits)
  with handle_disconnect_closed [of w0] assms(1) show ?thesis by metis
qed

lemma handle_pong_control [simp]:
  "ws_state (handle_pong now p w) = ws_state w" "ws_running (handle_pong now p w) = ws_running w"
  "ws_user_closed (handle_pong now p w) = ws_user_closed w"
  by (simp_all add: handle_pong_def split_def Let_def split: option.split)

lemma handle_frame_control [simp]:
  "ws_state (handle_frame now utc f w) = ws_state w" "ws_running (handle_frame now utc f w) = ws_running w"
  "ws_user_closed (handle_frame now utc f w) = ws_user_closed w"
  by (auto simp: handle_frame_def Let_def message_error_def deliver_message_def
      split: sum.split option.split prod.split bool.split)

lemma shut_step:
  assumes "sys_step s s'" and "shut s"
  shows "shut s'"
  using assms
proof (induction rule: sys_step.induct)
  case (user_connect w w' cs)
  then show ?case by (simp add: shut_def connect_def)
next
  case (connected now t utc rnd tx neg w n w' xs o1 ys)
  then show ?case by (simp add: shut_def)
next
  case (connect_fails now t utc rnd tx e w n w' xs o1 ys)
  then show ?case by (simp add: shut_def)
next
  case (backoff_over w n w' xs o1 ys)
  then show ?case by (auto simp: shut_def backoff_wake_def park_def)
next
  case (loop_starts w xs o1 ys)
  then show ?case by (auto simp: shut_def loop_guard_def)
next
  case (received now utc rnd f w r w' xs o1 ys)
  then show ?case by (auto simp: shut_def message_loop_step_def loop_guard_def Let_def)
next
  case (recv_fails now rnd e w n w' xs o1 ys)
  with recv_failed_closed [of w now rnd e n w'] show ?case by (auto simp: shut_def park_def)
next
  case (heartbeat_timeout w h now rnd n w' cs)
  with handle_disconnect_closed [of "emit (ErrorEvent (TimeoutError ''Heartbeat timeout'' 0 ''pong'') True) w" now rnd]
  show ?case by (force simp: shut_def handle_heartbeat_timeout_def park_def)
next
  case (age_timer w now rnd n w' cs)
  then show ?case by (auto simp: shut_def connection_age_reached_def park_def)
next
  case (user_send utc tx m w r w' cs)
  with same_control_send [of utc tx m w] show ?case by (simp add: shut_def same_control_def)
next
  case (user_recv w r' w' cs)
  then show ?case by (auto simp: shut_def ws_recv_def split: list.splits if_splits)
next
  case (user_close code reason w goes_on w' cs)
  then show ?case by (auto simp: shut_def close_begin_def Let_def is_terminal_def)
next
  case (close_ends w xs o1 code reason ys)
  then show ?case
    by (auto simp: shut_def close_end_def Let_def cancel_message_task_def split: option.split)
qed

interpretation shut_sys: preserved sys_step shut
  by unfold_locales (rule shut_step)



text \<open>
  Closing while a connection attempt is under way does not stop it: \<^verbatim>\<open>connect\<close>, then \<^verbatim>\<open>close\<close> to
  its end, then the network's answer, leave the manager \<^verbatim>\<open>CONNECTED\<close> again after it had reported
  \<^verbatim>\<open>CLOSED\<close>, although it was closed by the user and has no transport.
\<close>

theorem close_during_connect_resurrects:
  assumes "ws_state w = IDLE" and "ws_attempt w = 0"
  shows "\<exists>w1 w2 w3 cs. sys_steps (w, []) (w1, [(User, AtConnect), (User, AtClose 1000 [])])
     \<and> sys_step (w1, [(User, AtConnect), (User, AtClose 1000 [])]) (w2, [(User, AtConnect)])
     \<and> ws_state w2 = CLOSED \<and> sys_step (w2, [(User, AtConnect)]) (w3, cs)
     \<and> ws_state w3 = CONNECTED \<and> ws_user_closed w3 \<and> \<not> ws_running w3 \<and> ws_transport w3 = None"
proof -
  define wc where "wc = connect_internal_begin (w\<lparr>ws_user_closed := False, ws_running := True\<rparr>)"
  have c: "connect w = Inr wc" "ws_state wc = CONNECTING" "ws_attempt wc = 1"
    using assms by (simp_all add: connect_def wc_def connect_internal_begin_def Let_def)
  obtain w1 where b: "close_begin 1000 [] wc = (True, w1)" "ws_attempt w1 = 1" "ws_user_closed w1" "\<not> ws_running w1"
    using c by (simp add: close_begin_def Let_def is_terminal_def)
  define w2 where "w2 = close_end 1000 [] w1"
  have w2: "ws_state w2 = CLOSED" "ws_attempt w2 = 1" "ws_user_closed w2" "\<not> ws_running w2" "ws_transport w2 = None"
    using b by (simp_all add: w2_def close_end_def Let_def)
  define w3 where "w3 = connect_succeeded 0 0 0 (\<lambda>_. Inr ()) None [] w2"
  have e: "connect_internal_end 0 0 0 0 (\<lambda>_. Inr ()) (Inr (None, [])) w2 = (NDone, w3)"
    by (simp add: connect_internal_end_def w3_def)
  have st: "ws_state (start_tasks v) = ws_state v" "ws_user_closed (start_tasks v) = ws_user_closed v"
      "ws_running (start_tasks v) = ws_running v" "ws_transport (start_tasks v) = ws_transport v" for v :: "('a, 'b) ws"
    by (simp_all add: start_tasks_def Let_def split: option.split)
  have w3: "ws_state w3 = CONNECTED" "ws_user_closed w3" "\<not> ws_running w3" "ws_transport w3 = None"
    using w2 by (simp_all add: w3_def connect_succeeded_def Let_def st)
  have "sys_steps (w, []) (wc, [] @ [(User, AtConnect)])"
    by (rule sys_steps.more [OF sys_steps.none sys_step.user_connect [OF c(1)]])
  from sys_steps.more [OF this sys_step.user_close [OF b(1)]]
  have s1: "sys_steps (w, []) (w1, [(User, AtConnect), (User, AtClose 1000 [])])" by simp
  have "sys_step (w1, [(User, AtConnect)] @ (User, AtClose 1000 []) # [])
      (w2, cancel_message_task w1 ([(User, AtConnect)] @ []))"
    unfolding w2_def by (rule sys_step.close_ends)
  then have s2: "sys_step (w1, [(User, AtConnect), (User, AtClose 1000 [])]) (w2, [(User, AtConnect)])"
    by (simp add: cancel_message_task_def split: option.splits)
  have s3: "\<exists>cs. sys_step (w2, [(User, AtConnect)]) (w3, cs)"
    using sys_step.connected [OF e, of "[]" User "[]"] by auto
  from s1 s2 s3 w2(1) w3 show ?thesis by blast
qed

theorem close_during_connect_resurrects_witness:
  "\<exists>w1 w2 w3 cs. sys_steps (demo_ws, []) (w1, [(User, AtConnect), (User, AtClose 1000 [])])
     \<and> sys_step (w1, [(User, AtConnect), (User, AtClose 1000 [])]) (w2, [(User, AtConnect)])
     \<and> ws_state w2 = CLOSED \<and> sys_step (w2, [(User, AtConnect)]) (w3, cs)
     \<and> ws_state w3 = CONNECTED \<and> ws_user_closed w3 \<and> \<not> ws_running w3 \<and> ws_transport w3 = None"
  by (rule close_during_connect_resurrects) simp_all

subsection \<open>The event log tells the truth\<close>

fun state_changes :: "('m, 's) event_data list \<Rightarrow> (conn_state \<times> conn_state) list" where
  "state_changes [] = []"
| "state_changes (StateChangeEvent a b # evs) = (a, b) # state_changes evs"
| "state_changes (_ # evs) = state_changes evs"

text \<open>A chain of changes that starts in \<^verbatim>\<open>s\<close> and ends in \<^verbatim>\<open>t\<close>, none of them idle.\<close>

fun chained :: "conn_state \<Rightarrow> (conn_state \<times> conn_state) list \<Rightarrow> conn_state \<Rightarrow> bool" where
  "chained s [] t \<longleftrightarrow> s = t"
| "chained s ((a, b) # xs) t \<longleftrightarrow> s = a \<and> a \<noteq> b \<and> chained b xs t"

lemma state_changes_append [simp]: "state_changes (xs @ ys) = state_changes xs @ state_changes ys"
  by (induction xs rule: state_changes.induct) simp_all

lemma chained_append: "chained s (xs @ ys) u \<longleftrightarrow> (\<exists>t. chained s xs t \<and> chained t ys u)"
  by (induction s xs u rule: chained.induct) auto

definition truthful :: "conn_state \<Rightarrow> ('m, 's) ws \<Rightarrow> bool" where
  "truthful s w \<longleftrightarrow> chained s (state_changes (ws_events w)) (ws_state w)"

lemma truthful_set_state [simp]: "truthful s w \<Longrightarrow> truthful s (set_state t w)"
  by (auto simp: truthful_def chained_append)

lemma truthful_emit [simp]: "state_changes [ev] = [] \<Longrightarrow> truthful s (emit ev w) = truthful s w"
  by (simp add: truthful_def)

lemma truthful_same: "ws_events v = ws_events w \<Longrightarrow> ws_state v = ws_state w \<Longrightarrow> truthful s v = truthful s w"
  by (simp add: truthful_def)

lemma truthful_update [simp]:
  "truthful s (w\<lparr>ws_last_error := x1\<rparr>) = truthful s w" "truthful s (w\<lparr>ws_backoff := x2\<rparr>) = truthful s w"
  "truthful s (w\<lparr>ws_attempt := x3\<rparr>) = truthful s w" "truthful s (w\<lparr>ws_next_id := x4\<rparr>) = truthful s w"
  "truthful s (w\<lparr>ws_transport := x5\<rparr>) = truthful s w" "truthful s (w\<lparr>ws_disconnect_time := x6\<rparr>) = truthful s w"
  "truthful s (w\<lparr>ws_heartbeat := x7\<rparr>) = truthful s w" "truthful s (w\<lparr>ws_age_task := x8\<rparr>) = truthful s w"
  "truthful s (w\<lparr>ws_running := x9\<rparr>) = truthful s w" "truthful s (w\<lparr>ws_user_closed := x10\<rparr>) = truthful s w"
  "truthful s (w\<lparr>ws_message_task := x11\<rparr>) = truthful s w" "truthful s (w\<lparr>ws_message_queue := x12\<rparr>) = truthful s w"
  "truthful s (w\<lparr>ws_sent := x13\<rparr>) = truthful s w" "truthful s (w\<lparr>ws_buffer := x14\<rparr>) = truthful s w"
  "truthful s (w\<lparr>ws_last_dropped_count := x15\<rparr>) = truthful s w" "truthful s (upd_stats g w) = truthful s w"
  by (simp_all add: truthful_def)

lemma truthful_connect_begin [simp]: "truthful s w \<Longrightarrow> truthful s (connect_internal_begin w)"
  by (simp add: connect_internal_begin_def Let_def)

lemma truthful_schedule [simp]: "truthful s w \<Longrightarrow> truthful s (snd (schedule_reconnect rnd w))"
  by (simp add: schedule_reconnect_def Let_def split: sum.split)

lemma truthful_connect_failed [simp]: "truthful s w \<Longrightarrow> truthful s (snd (connect_failed rnd e w))"
  by (simp add: connect_failed_def Let_def)

lemma truthful_send [simp]: "truthful s w \<Longrightarrow> truthful s (snd (ws_send utc tx m w))"
  by (simp add: ws_send_def transmit_def split: sum.split)

lemma truthful_replay_messages [simp]: "truthful s w \<Longrightarrow> truthful s (snd (replay_messages utc tx n ms w))"
proof (induction ms arbitrary: n w)
  case (Cons m ms)
  obtain r w1 where r: "ws_send utc (tx n) m w = (r, w1)" by fastforce
  then have "truthful s w1" using truthful_send [OF Cons.prems, of utc "tx n" m] by simp
  with Cons.IH r show ?case by (cases r) simp_all
qed simp

lemma truthful_replay [simp]: "truthful s w \<Longrightarrow> truthful s (replay_on_reconnect t1 t2 utc tx w)"
  by (simp add: replay_on_reconnect_def Let_def split_def split: option.split sum.split)

lemma truthful_start_tasks [simp]: "truthful s (start_tasks w) = truthful s w"
  by (simp add: start_tasks_def Let_def split: option.split)

lemma truthful_connect_succeeded [simp]:
  "truthful s w \<Longrightarrow> truthful s (connect_succeeded now e utc tx sp ex w)"
  unfolding connect_succeeded_def Let_def by simp

lemma truthful_handle_disconnect [simp]:
  "truthful s w \<Longrightarrow> truthful s (snd (handle_disconnect now rnd code reason clean w))"
  by (simp add: handle_disconnect_def Let_def)

lemma truthful_handle_frame [simp]: "truthful s w \<Longrightarrow> truthful s (handle_frame now utc f w)"
proof -
  have t: "truthful s (track_received_message d v) = truthful s v" for d and v :: "('a, 'b) ws"
    by (simp add: track_received_message_def Let_def split: option.split)
  show "truthful s w \<Longrightarrow> truthful s (handle_frame now utc f w)"
    by (auto simp: handle_frame_def handle_pong_def Let_def message_error_def deliver_message_def t split_def
        split: sum.split option.split prod.split bool.split)
qed

lemma truthful_step:
  assumes "sys_step x y" and "truthful s (fst x)"
  shows "truthful s (fst y)"
  using assms
proof (induction rule: sys_step.induct)
  case (user_connect w w' cs)
  then show ?case by (auto simp: connect_def split: if_splits)
next
  case (connected now t utc rnd tx neg w n w' xs o1 ys)
  then show ?case by (cases neg) (auto simp: connect_internal_end_def)
next
  case (connect_fails now t utc rnd tx e w n w' xs o1 ys)
  then show ?case using truthful_connect_failed [of s w rnd e] by (simp add: connect_internal_end_def)
next
  case (backoff_over w n w' xs o1 ys)
  then show ?case by (auto simp: backoff_wake_def split: if_splits)
next
  case (received now utc rnd f w r w' xs o1 ys)
  then show ?case by (auto simp: message_loop_step_def Let_def)
next
  case (recv_fails now rnd e w n w' xs o1 ys)
  have "truthful s (snd (recv_failed now rnd e w))" using recv_fails(2) by (simp add: recv_failed_def Let_def)
  with recv_fails(1) show ?case by simp
next
  case (heartbeat_timeout w h now rnd n w' cs)
  have "truthful s (snd (handle_heartbeat_timeout now rnd w))"
    using heartbeat_timeout(4) by (simp add: handle_heartbeat_timeout_def)
  with heartbeat_timeout(3) show ?case by simp
next
  case (age_timer w now rnd n w' cs)
  have "truthful s (snd (connection_age_reached now rnd w))"
    using age_timer(3) by (simp add: connection_age_reached_def)
  with age_timer(2) show ?case by simp
next
  case (user_send utc tx m w r w' cs)
  then show ?case using truthful_send [of s w utc tx m] by simp
next
  case (user_recv w r' w' cs)
  then show ?case by (auto simp: ws_recv_def split: list.splits if_splits)
next
  case (user_close code reason w goes_on w' cs)
  then show ?case by (auto simp: close_begin_def Let_def split: if_splits)
qed (simp_all add: close_end_def Let_def)

interpretation truthful_sys: preserved sys_step "\<lambda>x. truthful s (fst x)" for s
  by unfold_locales (rule truthful_step)

text \<open>
  C10. The events tell the truth about the state: whatever the tasks and the user do, the
  \<^verbatim>\<open>state_change\<close> events emitted since the start form an unbroken chain from \<^verbatim>\<open>IDLE\<close> to the current
  state, each a real change; an observer who follows them always knows the state.
\<close>

theorem state_events_truthful:
  assumes "ws_events w0 = []" and "ws_state w0 = IDLE" and "sys_steps (w0, []) (w, cs)"
  shows "chained IDLE (state_changes (ws_events w)) (ws_state w)"
proof -
  have "truthful IDLE (fst (w0, []))" using assms(1,2) by (simp add: truthful_def)
  from truthful_sys.always [OF sys_steps_rtranclp [OF assms(3)] this] show ?thesis by (simp add: truthful_def)
qed

theorem state_events_truthful_witness:
  "chained IDLE (state_changes (ws_events (connect_internal_begin (demo_ws\<lparr>ws_user_closed := False, ws_running := True\<rparr>))))
     CONNECTING"
proof -
  have "connect demo_ws = Inr (connect_internal_begin (demo_ws\<lparr>ws_user_closed := False, ws_running := True\<rparr>))"
    by (simp add: connect_def)
  from state_events_truthful [OF _ _ sys_steps.more [OF sys_steps.none sys_step.user_connect [OF this]]]
  show ?thesis by (simp add: connect_internal_begin_def Let_def)
qed

text \<open>
  The table of valid transitions is not respected: a failed connection attempt that is retried
  takes the manager from \<^verbatim>\<open>CONNECTING\<close> to \<^verbatim>\<open>RECONNECTING\<close>, which \<^verbatim>\<open>VALID_TRANSITIONS\<close> does not allow;
  the code computes the check and ignores it.
\<close>

theorem retry_leaves_transition_table:
  assumes "ws_state w = CONNECTING" and "retrying k a w" and "a < k" and "retryable e"
  shows "(CONNECTING, RECONNECTING) \<in> set (state_changes (ws_events (snd (connect_failed rnd e w))))
     \<and> \<not> is_valid_transition CONNECTING RECONNECTING"
proof -
  from next_delay_retrying [OF assms(2,3), of rnd] obtain d where
    d: "next_delay rnd (ws_backoff w) = Inr (d, (ws_backoff w)\<lparr>bo_attempt := a + 1\<rparr>)" by blast
  have "\<not> exhausted (ws_backoff w)" using assms(2,3) by (auto simp: retrying_def exhausted_def)
  with d assms show ?thesis
    by (simp add: connect_failed_def retryable_def schedule_reconnect_def Let_def retrying_def is_valid_transition_def)
qed

theorem retry_leaves_transition_table_witness:
  "(CONNECTING, RECONNECTING) \<in> set (state_changes (ws_events
     (snd (connect_failed 0 (ConnectionError ''refused'') connecting_demo))))"
  using retry_leaves_transition_table [OF connecting_demo_state(1) connecting_demo_retrying, of "ConnectionError ''refused''" 0]
  by (simp add: retryable_def is_fatal_error_def)

subsection \<open>Running\<close>

text \<open>
  \<^verbatim>\<open>run\<close> waits for the message task that the manager has at that moment; it returns when the task is
  gone. A task is gone when none of its coroutines is suspended any more.
\<close>

definition run_waits_for :: "('m, 's) ws \<Rightarrow> owner option" where
  "run_waits_for w = map_option MessageLoop (ws_message_task w)"

definition run_returns :: "owner option \<Rightarrow> ('m, 's) sys \<Rightarrow> bool" where
  "run_returns awaited s \<longleftrightarrow> (case awaited of None \<Rightarrow> True | Some o1 \<Rightarrow> o1 \<notin> fst ` set (snd s))"

text \<open>
  C25. \<^verbatim>\<open>run\<close> does not outlive a reconnection: when the connection is lost and restored, the message
  task that \<^verbatim>\<open>run\<close> waits for carries out the reconnection and ends, and a new task takes over; \<^verbatim>\<open>run\<close>
  returns although the manager is connected and running (and \<^verbatim>\<open>run_sync\<close> then shuts the event
  loop down).
\<close>

theorem run_returns_after_reconnect:
  assumes "run_check w = Inr ()" and "ws_message_task w = Some i" and "i < ws_next_id w"
    and "retrying k a w" and "a < k"
  shows "\<exists>w' j. sys_steps (w, [(MessageLoop i, AtRecv)]) (w', [(MessageLoop j, AtStart)])
     \<and> ws_state w' = CONNECTED \<and> ws_running w' \<and> ws_message_task w' = Some j \<and> j \<noteq> i
     \<and> run_returns (run_waits_for w) (w', [(MessageLoop j, AtStart)])"
proof -
  let ?e = "ConnectionError ''Connection closed by remote''"
  from recv_failed_retrying [OF assms(4), of 0 0 ?e] obtain w0 where
    w0: "recv_failed 0 0 ?e w = schedule_reconnect 0 w0" "retrying k a w0" by blast
  from schedule_reconnect_retrying [OF w0(2) assms(5), of 0] obtain d w1 where
    w1: "schedule_reconnect 0 w0 = (NSleep d, w1)" "retrying k (a + 1) w1" by blast
  from backoff_wake_retrying [OF w1(2)] obtain w2 where
    w2: "backoff_wake w1 = (NConnect, w2)" "retrying k (a + 1) w2" by blast
  define w3 where "w3 = connect_succeeded 0 0 0 (\<lambda>_. Inr ()) None [] w2"
  have "ws_next_id w1 = ws_next_id w" using recv_failed_next_id [of 0 0 ?e w] w0(1) w1(1) by simp
  moreover have "ws_next_id w2 = Suc (ws_next_id w1)"
    using w2(1) by (auto simp: backoff_wake_def connect_internal_begin_def Let_def split: if_splits)
  ultimately have id: "ws_message_task w3 = Some (Suc (ws_next_id w))" by (simp add: w3_def connect_succeeded_task)
  have w3: "ws_state w3 = CONNECTED" "ws_running w3"
    using connect_succeeded_retrying [OF w2(2), of 0 0 0 "\<lambda>_. Inr ()" None "[]"] by (auto simp: w3_def retrying_def)
  have "sys_step (w, [(MessageLoop i, AtRecv)]) (w1, [(MessageLoop i, AtBackoff)])"
    using sys_step.recv_fails [of 0 0 ?e w "NSleep d" w1 "[]" "MessageLoop i" "[]"] w0(1) w1(1) by (simp add: park_def)
  moreover have "sys_step (w1, [(MessageLoop i, AtBackoff)]) (w2, [(MessageLoop i, AtConnect)])"
    using sys_step.backoff_over [of w1 NConnect w2 "[]" "MessageLoop i" "[]"] w2(1) by (simp add: park_def)
  moreover have "sys_step (w2, [(MessageLoop i, AtConnect)]) (w3, [(MessageLoop (Suc (ws_next_id w)), AtStart)])"
    using sys_step.connected [of 0 0 0 0 "\<lambda>_. Inr ()" "(None, [])" w2 NDone w3 "[]" "MessageLoop i" "[]"] id
    by (simp add: connect_internal_end_def w3_def)
  ultimately have "sys_steps (w, [(MessageLoop i, AtRecv)]) (w3, [(MessageLoop (Suc (ws_next_id w)), AtStart)])"
    by (blast intro: sys_steps.intros)
  with w3 id assms(2,3) show ?thesis
    by (intro exI [of _ w3] exI [of _ "Suc (ws_next_id w)"]) (auto simp: run_returns_def run_waits_for_def)
qed

theorem run_returns_after_reconnect_witness:
  "\<exists>w' j. sys_steps (connecting_demo\<lparr>ws_state := CONNECTED, ws_message_task := Some 0, ws_next_id := 1\<rparr>,
        [(MessageLoop 0, AtRecv)]) (w', [(MessageLoop j, AtStart)])
     \<and> ws_state w' = CONNECTED \<and> ws_running w' \<and> ws_message_task w' = Some j \<and> j \<noteq> 0
     \<and> run_returns (run_waits_for (connecting_demo\<lparr>ws_state := CONNECTED, ws_message_task := Some 0, ws_next_id := 1\<rparr>))
         (w', [(MessageLoop j, AtStart)])"
proof -
  have "retrying 2 0 (connecting_demo\<lparr>ws_state := CONNECTED, ws_message_task := Some 0, ws_next_id := 1\<rparr>)"
    using connecting_demo_retrying by (simp add: retrying_def)
  from run_returns_after_reconnect [OF _ _ _ this] show ?thesis by (simp add: run_check_def)
qed

subsection \<open>Readers of an ended connection\<close>

text \<open>The connection has ended for good: nothing of the manager is suspended and nothing is queued.\<close>

definition ended :: "('m, 's) sys \<Rightarrow> bool" where
  "ended s \<longleftrightarrow> is_terminal (ws_state (fst s)) \<and> ws_message_queue (fst s) = [] \<and> snd s = []
     \<and> (\<forall>h. ws_heartbeat (fst s) = Some h \<longrightarrow> \<not> hb_running h)"

lemma ended_step:
  assumes "sys_step s s'" and "ended s"
  shows "ended s'"
  using assms
proof (induction rule: sys_step.induct)
  case (user_connect w w' cs)
  then show ?case by (auto simp: ended_def connect_def is_terminal_def split: if_splits)
next
  case (heartbeat_timeout w h now rnd n w' cs)
  then show ?case by (simp add: ended_def)
next
  case (age_timer w now rnd n w' cs)
  then show ?case by (auto simp: ended_def connection_age_reached_def is_terminal_def park_def)
next
  case (user_send utc tx m w r w' cs)
  then show ?case by (auto simp: ended_def ws_send_def can_send_def is_terminal_def)
next
  case (user_recv w r' w' cs)
  then show ?case by (auto simp: ended_def ws_recv_def split: if_splits)
next
  case (user_close code reason w goes_on w' cs)
  then show ?case by (auto simp: ended_def close_begin_def Let_def)
qed (simp_all add: ended_def)

interpretation ended_sys: preserved sys_step ended
  by unfold_locales (rule ended_step)

lemma recv_failed_ends:
  assumes "recv_failed now rnd e w = (NDone, w1)" and "ws_message_queue w = []"
  shows "ended (w1, []) \<and> ws_running w1 = ws_running w"
proof -
  from assms(1) obtain code w0 where d: "handle_disconnect now rnd code (exn_str e) False w0 = (NDone, w1)"
    and w0: "ws_message_queue w0 = []" "ws_running w0 = ws_running w"
    using assms(2) by (auto simp: recv_failed_def Let_def split: if_splits)
  then show ?thesis
    by (auto simp: handle_disconnect_def schedule_reconnect_def Let_def ended_def is_terminal_def hb_stop_def hb_reset_def
        split: if_splits sum.splits)
qed

text \<open>
  C36. Readers of the manager are not told that the connection has ended for good: when the message
  loop meets a loss after which the manager does not reconnect (reconnection disabled, attempts
  exhausted, closed by the user), nothing is ever put into the message queue again, whatever the
  user calls afterwards. A task that waits in \<^verbatim>\<open>recv\<close> or in \<^verbatim>\<open>async for\<close> stays there for ever; as long
  as the user does not call \<^verbatim>\<open>close\<close>, even a new \<^verbatim>\<open>__anext__\<close> waits instead of ending the iteration.
\<close>

theorem readers_wait_for_ever:
  assumes "recv_failed now rnd e w = (NDone, w1)" and "ws_message_queue w = []"
    and "sys_steps (w1, park (MessageLoop i) NDone) (w2, cs)"
  shows "sys_step (w, [(MessageLoop i, AtRecv)]) (w1, park (MessageLoop i) NDone)
    \<and> is_terminal (ws_state w2) \<and> ws_message_queue w2 = [] \<and> cs = [] \<and> (\<exists>e. connect w2 = Inl e)
    \<and> ws_running w1 = ws_running w \<and> (ws_running w2 \<longrightarrow> fst (anext w2) = None)"
proof -
  have "sys_step (w, [] @ (MessageLoop i, AtRecv) # []) (w1, [] @ [] @ park (MessageLoop i) NDone)"
    by (rule sys_step.recv_fails [OF assms(1)])
  moreover have p: "park (MessageLoop i) NDone = []" by (simp add: park_def)
  moreover have "ended (w2, cs)"
    using ended_sys.always [OF sys_steps_rtranclp [OF assms(3)]] recv_failed_ends [OF assms(1,2)] p by simp
  ultimately show ?thesis
    using recv_failed_ends [OF assms(1,2)] by (auto simp: ended_def connect_def is_terminal_def anext_def)
qed

theorem readers_wait_for_ever_witness:
  "\<exists>w1. recv_failed 0 0 (ConnectionError ''gone'') (demo_ws\<lparr>ws_state := CONNECTED, ws_running := True, ws_reconnect_enabled := False\<rparr>)
      = (NDone, w1) \<and> ws_state w1 = CLOSED \<and> fst (anext w1) = None"
proof -
  let ?w = "demo_ws\<lparr>ws_state := CONNECTED, ws_running := True, ws_reconnect_enabled := False\<rparr>"
  obtain w1 where r: "recv_failed 0 0 (ConnectionError ''gone'') ?w = (NDone, w1)" and c: "ws_state w1 = CLOSED"
    by (simp add: recv_failed_def handle_disconnect_def Let_def)
  from readers_wait_for_ever [OF r _ sys_steps.none, of 0] r c show ?thesis by simp
qed

end
