(* ===== verification/Jet_Strings.thy ===== *)
theory Jet_Strings
  imports Jet_Utf8 Jet_Exceptions
begin

text \<open>
  The string methods that URIs and the opening handshake use, on Python strings (lists of code
  points): searching, splitting, stripping, changing case, and the conversion between integers
  and decimal strings. \<^verbatim>\<open>lit\<close> turns a string literal into a Python string.

  Case mapping is that of ASCII, with the two further letters whose lower-case form contains an
  ASCII letter; the other letters are left alone. \<^verbatim>\<open>int\<close> reads ASCII digits.
\<close>

definition lit :: "string \<Rightarrow> pystr" where
  "lit s = map of_char s"

lemma lit_simps [simp]: "lit [] = []" "lit (c # s) = of_char c # lit s"
  by (simp_all add: lit_def)

lemma lit_append: "lit (s @ t) = lit s @ lit t"
  by (simp add: lit_def)

lemma lit_inject: "lit s = lit t \<longleftrightarrow> s = t"
  unfolding lit_def by (rule inj_map_eq_map) (simp add: inj_def)

lemma lit_less: "x \<in> set (lit s) \<Longrightarrow> x < 256"
  by (auto simp: lit_def of_char_def)

subsection \<open>Searching and splitting\<close>

text \<open>\<^verbatim>\<open>sub in xs\<close> and \<^verbatim>\<open>xs.find(sub)\<close>\<close>

fun find_sub :: "'a list \<Rightarrow> 'a list \<Rightarrow> nat option" where
  "find_sub needle [] = (if needle = [] then Some 0 else None)"
| "find_sub needle (x # xs) =
     (if take (length needle) (x # xs) = needle then Some 0 else map_option Suc (find_sub needle xs))"

definition contains :: "'a list \<Rightarrow> 'a list \<Rightarrow> bool" where
  "contains needle xs \<longleftrightarrow> find_sub needle xs \<noteq> None"

text \<open>\<^verbatim>\<open>partition\<close> and \<^verbatim>\<open>rpartition\<close> at a single character; the flag says whether it occurs.\<close>

definition partition_at :: "'a \<Rightarrow> 'a list \<Rightarrow> 'a list \<times> bool \<times> 'a list" where
  "partition_at c s = (takeWhile (\<lambda>x. x \<noteq> c) s, c \<in> set s, drop 1 (dropWhile (\<lambda>x. x \<noteq> c) s))"

definition rpartition_at :: "'a \<Rightarrow> 'a list \<Rightarrow> 'a list \<times> bool \<times> 'a list" where
  "rpartition_at c s =
     (if c \<in> set s then (rev (drop 1 (dropWhile (\<lambda>x. x \<noteq> c) (rev s))), True, rev (takeWhile (\<lambda>x. x \<noteq> c) (rev s)))
      else ([], False, s))"

text \<open>\<^verbatim>\<open>split(sep)\<close> for a non-empty separator, and \<^verbatim>\<open>split(c, n)\<close>.\<close>

lemma find_sub_bound: "find_sub needle xs = Some i \<Longrightarrow> i + length needle \<le> length xs"
proof (induction needle xs arbitrary: i rule: find_sub.induct)
  case (2 needle x xs)
  show ?case
  proof (cases "take (length needle) (x # xs) = needle")
    case True
    then have "length needle \<le> length (x # xs)" by (metis length_take min.cobounded1)
    then show ?thesis using True 2 by simp
  next
    case False
    then show ?thesis using 2 by auto
  qed
qed (simp split: if_splits)

function split_on :: "'a list \<Rightarrow> 'a list \<Rightarrow> 'a list list" where
  "split_on sep s =
     (if sep = [] then [s]
      else case find_sub sep s of
             None \<Rightarrow> [s]
           | Some i \<Rightarrow> take i s # split_on sep (drop (i + length sep) s))"
  by pat_completeness auto
termination
proof (relation "measure (length \<circ> snd)", simp, goal_cases)
  case (1 sep s i)
  then show ?case using find_sub_bound [of sep s i] by (cases sep; cases s) auto
qed

declare split_on.simps [simp del]

fun split_max :: "nat \<Rightarrow> 'a \<Rightarrow> 'a list \<Rightarrow> 'a list list" where
  "split_max 0 c s = [s]"
| "split_max (Suc n) c s = (case partition_at c s of (a, True, b) \<Rightarrow> a # split_max n c b | (a, False, b) \<Rightarrow> [s])"

primrec join :: "'a list \<Rightarrow> 'a list list \<Rightarrow> 'a list" where
  "join sep [] = []"
| "join sep (x # xs) = (if xs = [] then x else x @ sep @ join sep xs)"

subsection \<open>White space and case\<close>

definition is_space :: "codepoint \<Rightarrow> bool" where
  "is_space c \<longleftrightarrow> (9 \<le> c \<and> c \<le> 13) \<or> (28 \<le> c \<and> c \<le> 32) \<or> c = 0x85 \<or> c = 0xA0 \<or> c = 0x1680
     \<or> (0x2000 \<le> c \<and> c \<le> 0x200A) \<or> c = 0x2028 \<or> c = 0x2029 \<or> c = 0x202F \<or> c = 0x205F \<or> c = 0x3000"

definition strip :: "pystr \<Rightarrow> pystr" where
  "strip s = rev (dropWhile is_space (rev (dropWhile is_space s)))"

definition lower_char :: "codepoint \<Rightarrow> pystr" where
  "lower_char c =
     (if 65 \<le> c \<and> c \<le> 90 then [c + 32] else if c = 0x212A then [107] else if c = 0x130 then [105, 0x307] else [c])"

definition lower :: "pystr \<Rightarrow> pystr" where
  "lower s = concat (map lower_char s)"

subsection \<open>Numbers\<close>

definition is_digit :: "codepoint \<Rightarrow> bool" where
  "is_digit c \<longleftrightarrow> 48 \<le> c \<and> c \<le> 57"

definition digits_value :: "pystr \<Rightarrow> nat" where
  "digits_value s = fold (\<lambda>c n. n * 10 + (c - 48)) s 0"

text \<open>Digits with single underscores between them.\<close>

fun digits_ok :: "bool \<Rightarrow> pystr \<Rightarrow> bool" where
  "digits_ok after_digit [] = after_digit"
| "digits_ok after_digit (c # s) =
     (if is_digit c then digits_ok True s else after_digit \<and> c = 95 \<and> digits_ok False s)"

definition py_int :: "pystr \<Rightarrow> exn + int" where
  "py_int s0 =
     (let s = strip s0;
          (neg, body) = (case s of c # cs \<Rightarrow> if c = 45 then (True, cs) else if c = 43 then (False, cs) else (False, s) | [] \<Rightarrow> (False, []))
      in if body \<noteq> [] \<and> is_digit (hd body) \<and> digits_ok False body
         then (let n = int (digits_value (filter is_digit body)) in Inr (if neg then - n else n))
         else Inl (ValueError ''invalid literal for int()''))"

function decimal :: "nat \<Rightarrow> pystr" where
  "decimal n = (if n < 10 then [48 + n] else decimal (n div 10) @ [48 + n mod 10])"
  by pat_completeness auto
termination
  by (relation "measure id") auto

declare decimal.simps [simp del]

lemma decimal_digits: "list_all is_digit (decimal n)"
proof (induction n rule: decimal.induct)
  case (1 n)
  have "is_digit (48 + k)" if "k < 10" for k using that by (simp add: is_digit_def)
  with 1 show ?case by (subst decimal.simps) simp
qed

lemma decimal_nonempty: "decimal n \<noteq> []"
  by (subst decimal.simps) simp

lemma digits_value_snoc: "digits_value (s @ [c]) = digits_value s * 10 + (c - 48)"
  by (simp add: digits_value_def)

lemma digits_value_decimal: "digits_value (decimal n) = n"
proof (induction n rule: decimal.induct)
  case (1 n)
  show ?case
  proof (cases "n < 10")
    case True
    then show ?thesis by (subst decimal.simps) (simp add: digits_value_def)
  next
    case False
    then show ?thesis using 1 by (subst decimal.simps) (simp add: digits_value_snoc)
  qed
qed

subsection \<open>Laws\<close>

lemma span_ne [simp]:
  "c \<notin> set a \<Longrightarrow> takeWhile (\<lambda>x. x \<noteq> c) (a @ c # b) = a"
  "c \<notin> set a \<Longrightarrow> dropWhile (\<lambda>x. x \<noteq> c) (a @ c # b) = c # b"
  "c \<notin> set a \<Longrightarrow> takeWhile (\<lambda>x. x \<noteq> c) a = a"
  "c \<notin> set a \<Longrightarrow> dropWhile (\<lambda>x. x \<noteq> c) a = []"
  by (induction a) auto

lemma partition_at_found:
  "c \<notin> set a \<Longrightarrow> partition_at c (a @ c # b) = (a, True, b)"
  by (simp add: partition_at_def)

lemma partition_at_absent: "c \<notin> set s \<Longrightarrow> partition_at c s = (s, False, [])"
  by (auto simp: partition_at_def)

lemma partition_at_split: "partition_at c s = (a, True, b) \<Longrightarrow> s = a @ c # b \<and> c \<notin> set a"
proof -
  assume p: "partition_at c s = (a, True, b)"
  then obtain u v where "s = u @ c # v" "c \<notin> set u" by (auto simp: partition_at_def dest: split_list_first)
  with p show ?thesis by (simp add: partition_at_found)
qed

lemma partition_at_false: "partition_at c s = (a, False, b) \<Longrightarrow> a = s \<and> b = [] \<and> c \<notin> set s"
  by (auto simp: partition_at_def)

lemma rpartition_at_found: "c \<notin> set b \<Longrightarrow> rpartition_at c (a @ c # b) = (a, True, b)"
  by (simp add: rpartition_at_def)

lemma rpartition_at_absent: "c \<notin> set s \<Longrightarrow> rpartition_at c s = ([], False, s)"
  by (simp add: rpartition_at_def)

lemma rpartition_at_split: "rpartition_at c s = (a, True, b) \<Longrightarrow> s = a @ c # b \<and> c \<notin> set b"
proof -
  assume p: "rpartition_at c s = (a, True, b)"
  then have "c \<in> set s" by (simp add: rpartition_at_def split: if_splits)
  then obtain u v where "s = u @ c # v" "c \<notin> set v" by (auto dest: split_list_last)
  with p show ?thesis by (simp add: rpartition_at_found)
qed

lemma rpartition_at_false: "rpartition_at c s = (a, False, b) \<Longrightarrow> a = [] \<and> b = s \<and> c \<notin> set s"
  by (auto simp: rpartition_at_def split: if_splits)

lemma lower_append: "lower (s @ t) = lower s @ lower t"
  by (simp add: lower_def)

lemma lower_Nil [simp]: "lower [] = []"
  by (simp add: lower_def)

lemma lower_Cons: "lower (c # s) = lower_char c @ lower s"
  by (simp add: lower_def)

lemma lower_lower [simp]: "lower (lower s) = lower s"
  by (induction s) (auto simp: lower_Cons lower_append, auto simp: lower_char_def lower_def)

lemma set_lower: "x \<in> set (lower s) \<Longrightarrow> x \<in> set s \<or> (97 \<le> x \<and> x \<le> 122) \<or> x = 0x307"
  by (induction s) (auto simp: lower_Cons lower_char_def split: if_splits)

lemma lower_eq_Nil [simp]: "lower s = [] \<longleftrightarrow> s = []"
  by (cases s) (auto simp: lower_Cons lower_char_def)

lemma find_sub_append_eq: "find_sub needle xs = Some i \<Longrightarrow> find_sub needle (xs @ ys) = Some i"
proof (induction needle xs arbitrary: i rule: find_sub.induct)
  case (1 needle)
  then show ?case by (cases ys) (auto split: if_splits)
next
  case (2 needle x xs)
  show ?case
  proof (cases "take (length needle) (x # xs) = needle")
    case True
    then have "length needle \<le> length (x # xs)" by (metis length_take min.cobounded1)
    then have "take (length needle) ((x # xs) @ ys) = needle" using True by (simp only: take_append) simp
    then show ?thesis using True 2 by simp
  next
    case False
    then obtain j where j: "find_sub needle xs = Some j" "i = Suc j" using 2 by auto
    then have len: "length needle \<le> length xs" using find_sub_bound by fastforce
    then have "take (length needle) (x # xs @ ys) = take (length needle) (x # xs)"
      using take_append [of "length needle" "x # xs" ys] by simp
    then show ?thesis using False 2 j by simp
  qed
qed

lemma find_sub_append: "find_sub needle xs \<noteq> None \<Longrightarrow> find_sub needle (xs @ ys) \<noteq> None"
  using find_sub_append_eq [of needle xs] by auto

subsection \<open>Lines\<close>

lemma find_sub_skip:
  "c \<notin> set l \<Longrightarrow> find_sub (c # n) (l @ r) = map_option ((+) (length l)) (find_sub (c # n) r)"
  by (induction l; cases "find_sub (c # n) r") auto

lemma find_sub_here: "n \<noteq> [] \<Longrightarrow> find_sub n (n @ r) = Some 0"
  by (cases n) auto

lemma join_Cons_ne: "xs \<noteq> [] \<Longrightarrow> join sep (x # xs) = x @ sep @ join sep xs"
  by simp

lemma list_all_takes: "list_all P s \<Longrightarrow> list_all P (take n s)" "list_all P s \<Longrightarrow> list_all P (drop n s)"
  "list_all P s \<Longrightarrow> list_all P (butlast s)" "list_all P s \<Longrightarrow> list_all P (filter Q s)"
  by (auto simp: list_all_iff dest: in_set_takeD in_set_dropD in_set_butlastD)

lemma split_on_all: "list_all P s \<Longrightarrow> list_all (list_all P) (split_on sep s)"
proof (induction sep s rule: split_on.induct)
  case (1 sep s)
  show ?case
  proof (cases "sep = [] \<or> find_sub sep s = None")
    case True
    then show ?thesis using "1.prems" by (subst split_on.simps) auto
  next
    case False
    then obtain i where i: "sep \<noteq> []" "find_sub sep s = Some i" by auto
    then have "split_on sep s = take i s # split_on sep (drop (i + length sep) s)" by (subst split_on.simps) simp
    with "1.IH" [OF i] "1.prems" show ?thesis by (simp add: list_all_takes)
  qed
qed

lemma list_all_join: "list_all P sep \<Longrightarrow> list_all (list_all P) xs \<Longrightarrow> list_all P (join sep xs)"
  by (induction xs) auto

lemma join_snoc2: "ls \<noteq> [] \<Longrightarrow> join sep (ls @ [[], []]) = join sep ls @ sep @ sep"
  by (induction ls) auto

lemma find_sub_at: "find_sub needle xs = Some i \<Longrightarrow> xs = take i xs @ needle @ drop (i + length needle) xs"
proof (induction needle xs arbitrary: i rule: find_sub.induct)
  case (2 needle x xs)
  show ?case
  proof (cases "take (length needle) (x # xs) = needle")
    case True
    with 2(2) have "i = 0" by simp
    with True show ?thesis by (metis append_Nil append_take_drop_id take_0 add_0)
  next
    case False
    with 2(2) obtain j where "find_sub needle xs = Some j" "i = Suc j" by auto
    with 2(1) [OF False] show ?thesis by simp
  qed
qed (simp split: if_splits)

lemma join_split_on: "sep \<noteq> [] \<Longrightarrow> join sep (split_on sep s) = s"
proof (induction sep s rule: split_on.induct)
  case (1 sep s)
  show ?case
  proof (cases "find_sub sep s")
    case None
    then show ?thesis using 1 by (subst split_on.simps) simp
  next
    case (Some i)
    then have "split_on sep s = take i s # split_on sep (drop (i + length sep) s)" using 1 by (subst split_on.simps) simp
    moreover have "split_on sep t \<noteq> []" for t by (subst split_on.simps) (auto split: option.split)
    ultimately show ?thesis using 1 Some find_sub_at [OF Some] by simp
  qed
qed

lemma split_on_join:
  "list_all (\<lambda>l. c \<notin> set l) ls \<Longrightarrow> ls \<noteq> [] \<Longrightarrow> split_on (c # n) (join (c # n) ls) = ls"
proof (induction ls)
  case (Cons l ls)
  then have l: "c \<notin> set l" by simp
  show ?case
  proof (cases "ls = []")
    case True
    have "find_sub (c # n) l = None" using find_sub_skip [OF l, of n "[]"] by simp
    then show ?thesis using True by (subst split_on.simps) simp
  next
    case False
    have "find_sub (c # n) (l @ (c # n) @ join (c # n) ls) = Some (length l)"
      using find_sub_skip [OF l, of n "(c # n) @ join (c # n) ls"] find_sub_here [of "c # n"] by simp
    then show ?thesis using False Cons by (subst split_on.simps) simp
  qed
qed simp

text \<open>The blank line after a block of non-empty lines is the first one.\<close>

lemma find_blank_line:
  assumes "list_all (\<lambda>l. c \<notin> set l \<and> l \<noteq> []) ls" "ls \<noteq> []" "d \<noteq> c"
  shows "find_sub [c, d, c, d] (join [c, d] ls @ [c, d, c, d] @ r) = Some (length (join [c, d] ls))"
  using assms
proof (induction ls)
  case (Cons l ls)
  then have l: "c \<notin> set l" by simp
  note skip = find_sub_skip [OF l, of "[d, c, d]"]
  show ?case
  proof (cases ls)
    case Nil
    then show ?thesis using skip [of "[c, d, c, d] @ r"] find_sub_here [of "[c, d, c, d]"] by simp
  next
    case (Cons m ms)
    let ?rest = "join [c, d] ls @ [c, d, c, d] @ r"
    obtain x xs where m: "m = x # xs" "x \<noteq> c" using Cons Cons.prems(1) by (cases m) auto
    then obtain y where rest: "?rest = x # y" using Cons by (cases ms) auto
    have "find_sub [c, d, c, d] (c # d # ?rest) = map_option ((+) 2) (find_sub [c, d, c, d] ?rest)"
      unfolding rest using m(2) \<open>d \<noteq> c\<close> by (simp add: option.map_comp comp_def)
    moreover have "find_sub [c, d, c, d] ?rest = Some (length (join [c, d] ls))"
      using Cons.IH Cons.prems Cons by simp
    ultimately show ?thesis using skip [of "c # d # ?rest"] Cons by simp
  qed
qed simp

end
