(* ===== verification/Jet_Uri.thy ===== *)
theory Jet_Uri
  imports Jet_Strings
begin

text \<open>
  WebSocket URIs (\<^verbatim>\<open>src/jetsocket/transport/uri.py\<close>) and the part of Python's \<^verbatim>\<open>urllib.parse\<close> they
  rest on, for the schemes without parameters. The checks that \<^verbatim>\<open>urlsplit\<close> makes on a network
  location with brackets or with characters outside ASCII (bracketed addresses, compatibility
  characters) depend on tables of the Python version; they are the parameter \<^verbatim>\<open>netloc_ok\<close>.
  The query as a dictionary is in \<^verbatim>\<open>Jet_Query\<close>.
\<close>

subsection \<open>\<^verbatim>\<open>urllib.parse\<close>\<close>

record split_url =
  su_scheme :: pystr
  su_netloc :: pystr
  su_path :: pystr
  su_query :: pystr
  su_fragment :: pystr

definition is_alpha :: "codepoint \<Rightarrow> bool" where
  "is_alpha c \<longleftrightarrow> (65 \<le> c \<and> c \<le> 90) \<or> (97 \<le> c \<and> c \<le> 122)"

definition scheme_char :: "codepoint \<Rightarrow> bool" where
  "scheme_char c \<longleftrightarrow> is_alpha c \<or> is_digit c \<or> c = 43 \<or> c = 45 \<or> c = 46"

definition is_ascii :: "pystr \<Rightarrow> bool" where
  "is_ascii s \<longleftrightarrow> list_all (\<lambda>c. c < 128) s"

definition netloc_end :: "codepoint \<Rightarrow> bool" where
  "netloc_end c \<longleftrightarrow> c = 47 \<or> c = 63 \<or> c = 35"

definition clean_url :: "pystr \<Rightarrow> pystr" where
  "clean_url url = filter (\<lambda>c. c \<noteq> 9 \<and> c \<noteq> 10 \<and> c \<noteq> 13) (dropWhile (\<lambda>c. c \<le> 32) url)"

definition split_scheme :: "pystr \<Rightarrow> pystr \<times> pystr" where
  "split_scheme url =
     (case partition_at 58 url of
        (pre, found, post) \<Rightarrow>
          if found \<and> pre \<noteq> [] \<and> is_alpha (hd pre) \<and> list_all scheme_char pre then (lower pre, post) else ([], url))"

definition split_netloc :: "pystr \<Rightarrow> pystr \<times> pystr" where
  "split_netloc url =
     (if take 2 url = [47, 47]
      then (takeWhile (\<lambda>c. \<not> netloc_end c) (drop 2 url), dropWhile (\<lambda>c. \<not> netloc_end c) (drop 2 url))
      else ([], url))"

definition split_rest :: "pystr \<Rightarrow> pystr \<times> pystr \<times> pystr" where
  "split_rest url =
     (case partition_at 35 url of (url1, _, fragment) \<Rightarrow>
        (case partition_at 63 url1 of (path, _, query) \<Rightarrow> (path, query, fragment)))"

definition urlsplit :: "(pystr \<Rightarrow> bool) \<Rightarrow> pystr \<Rightarrow> exn + split_url" where
  "urlsplit netloc_ok url0 =
     (let (scheme, url1) = split_scheme (clean_url url0);
          (netloc, url2) = split_netloc url1;
          (path, query, fragment) = split_rest url2
      in if (91 \<in> set netloc) \<noteq> (93 \<in> set netloc) then Inl (ValueError ''Invalid IPv6 URL'')
         else if (91 \<in> set netloc \<or> \<not> is_ascii netloc) \<and> \<not> netloc_ok netloc then Inl (ValueError ''Invalid network location'')
         else Inr \<lparr>su_scheme = scheme, su_netloc = netloc, su_path = path, su_query = query, su_fragment = fragment\<rparr>)"

text \<open>The accessors of the result: host and port, user and password.\<close>

definition su_hostinfo :: "pystr \<Rightarrow> pystr \<times> pystr" where
  "su_hostinfo netloc =
     (case rpartition_at 64 netloc of (_, _, hostinfo) \<Rightarrow>
        (case partition_at 91 hostinfo of
           (_, True, bracketed) \<Rightarrow>
             (case partition_at 93 bracketed of (hostname, _, after) \<Rightarrow>
                (case partition_at 58 after of (_, _, port) \<Rightarrow> (hostname, port)))
         | (_, False, _) \<Rightarrow> (case partition_at 58 hostinfo of (hostname, _, port) \<Rightarrow> (hostname, port))))"

definition norm_host :: "pystr \<Rightarrow> pystr" where
  "norm_host h = (case partition_at 37 h of (name, percent, zone) \<Rightarrow> lower name @ (if percent then 37 # zone else zone))"

definition su_hostname :: "pystr \<Rightarrow> pystr option" where
  "su_hostname netloc = (case su_hostinfo netloc of (h, _) \<Rightarrow> if h = [] then None else Some (norm_host h))"

definition su_port :: "pystr \<Rightarrow> exn + nat option" where
  "su_port netloc =
     (case su_hostinfo netloc of (_, port) \<Rightarrow>
        if port = [] then Inr None
        else if \<not> list_all is_digit port then Inl (ValueError ''Port could not be cast to integer value'')
        else if digits_value port > 65535 then Inl (ValueError ''Port out of range 0-65535'')
        else Inr (Some (digits_value port)))"

definition su_userinfo :: "pystr \<Rightarrow> pystr option \<times> pystr option" where
  "su_userinfo netloc =
     (case rpartition_at 64 netloc of
        (userinfo, True, _) \<Rightarrow>
          (case partition_at 58 userinfo of
             (username, have_password, password) \<Rightarrow> (Some username, if have_password then Some password else None))
      | _ \<Rightarrow> (None, None))"

subsection \<open>\<^verbatim>\<open>WebSocketURI\<close>\<close>

record ws_uri_t =
  wu_scheme :: pystr
  wu_host :: pystr
  wu_port :: nat
  wu_path :: pystr
  wu_query :: "pystr option"
  wu_fragment :: "pystr option"
  wu_userinfo :: "pystr option"

definition WS :: pystr where "WS = lit ''ws''"
definition WSS :: pystr where "WSS = lit ''wss''"

definition is_secure :: "ws_uri_t \<Rightarrow> bool" where
  "is_secure u \<longleftrightarrow> wu_scheme u = WSS"

definition default_port :: "bool \<Rightarrow> nat" where
  "default_port secure = (if secure then 443 else 80)"

text \<open>A Python string that is \<^verbatim>\<open>None\<close> or empty is false.\<close>

definition truthy :: "pystr option \<Rightarrow> bool" where
  "truthy s \<longleftrightarrow> s \<noteq> None \<and> s \<noteq> Some []"

definition host_header :: "ws_uri_t \<Rightarrow> pystr" where
  "host_header u =
     (if wu_port u = default_port (is_secure u) then wu_host u else wu_host u @ [58] @ decimal (wu_port u))"

definition origin :: "ws_uri_t \<Rightarrow> pystr" where
  "origin u =
     (let http_scheme = (if is_secure u then lit ''https'' else lit ''http'')
      in if wu_port u = default_port (is_secure u) then http_scheme @ lit ''://'' @ wu_host u
         else http_scheme @ lit ''://'' @ wu_host u @ [58] @ decimal (wu_port u))"

definition resource_name :: "ws_uri_t \<Rightarrow> pystr" where
  "resource_name u = (if truthy (wu_query u) then wu_path u @ [63] @ the (wu_query u) else wu_path u)"

definition with_path :: "pystr \<Rightarrow> ws_uri_t \<Rightarrow> ws_uri_t" where
  "with_path path u = u\<lparr>wu_path := path\<rparr>"

definition with_query :: "pystr option \<Rightarrow> ws_uri_t \<Rightarrow> ws_uri_t" where
  "with_query query u = u\<lparr>wu_query := query\<rparr>"

definition uri_str :: "ws_uri_t \<Rightarrow> pystr" where
  "uri_str u =
     wu_scheme u @ lit ''://'' @ (if truthy (wu_userinfo u) then the (wu_userinfo u) @ [64] else [])
     @ host_header u @ resource_name u @ (if truthy (wu_fragment u) then 35 # the (wu_fragment u) else [])"

definition none_if_empty :: "pystr \<Rightarrow> pystr option" where
  "none_if_empty s = (if s = [] then None else Some s)"

definition join_userinfo :: "pystr option \<times> pystr option \<Rightarrow> pystr option" where
  "join_userinfo up =
     (if truthy (fst up)
      then (if truthy (snd up) then Some (the (fst up) @ [58] @ the (snd up)) else fst up) else None)"

definition parse_uri :: "(pystr \<Rightarrow> bool) \<Rightarrow> pystr \<Rightarrow> exn + ws_uri_t" where
  "parse_uri netloc_ok uri =
     bind_result (urlsplit netloc_ok uri) (\<lambda>parsed.
       if su_scheme parsed \<notin> {WS, WSS} then Inl (ValueError ''Invalid WebSocket scheme'')
       else let scheme = (if su_scheme parsed = WSS then WSS else WS)
            in case su_hostname (su_netloc parsed) of
                 None \<Rightarrow> Inl (ValueError ''Missing host in URI'')
               | Some host \<Rightarrow>
                   bind_result (su_port (su_netloc parsed)) (\<lambda>p.
                     let port = (case p of Some n \<Rightarrow> n | None \<Rightarrow> default_port (scheme = WSS))
                     in if \<not> (0 < port \<and> port \<le> 65535) then Inl (ValueError ''Invalid port'')
                        else Inr \<lparr>wu_scheme = scheme, wu_host = host, wu_port = port,
                               wu_path = (if su_path parsed = [] then [47] else su_path parsed),
                               wu_query = none_if_empty (su_query parsed), wu_fragment = none_if_empty (su_fragment parsed),
                               wu_userinfo = join_userinfo (su_userinfo (su_netloc parsed))\<rparr>))"

subsection \<open>Well-formed URIs\<close>

text \<open>Characters that cannot stand in the part of a URI.\<close>

definition no_break :: "pystr \<Rightarrow> bool" where
  "no_break s \<longleftrightarrow> 9 \<notin> set s \<and> 10 \<notin> set s \<and> 13 \<notin> set s"

definition netloc_part :: "pystr \<Rightarrow> bool" where
  "netloc_part s \<longleftrightarrow> is_ascii s \<and> no_break s \<and> 47 \<notin> set s \<and> 63 \<notin> set s \<and> 35 \<notin> set s \<and> 91 \<notin> set s \<and> 93 \<notin> set s"

definition userinfo_wf :: "pystr \<Rightarrow> bool" where
  "userinfo_wf s \<longleftrightarrow> netloc_part s \<and> (case partition_at 58 s of (a, found, b) \<Rightarrow> a \<noteq> [] \<and> (found \<longrightarrow> b \<noteq> []))"

definition uri_wf :: "ws_uri_t \<Rightarrow> bool" where
  "uri_wf u \<longleftrightarrow> wu_scheme u \<in> {WS, WSS}
     \<and> wu_host u \<noteq> [] \<and> netloc_part (wu_host u) \<and> 58 \<notin> set (wu_host u) \<and> 64 \<notin> set (wu_host u) \<and> norm_host (wu_host u) = wu_host u
     \<and> 0 < wu_port u \<and> wu_port u \<le> 65535
     \<and> (\<exists>p. wu_path u = 47 # p) \<and> no_break (wu_path u) \<and> 63 \<notin> set (wu_path u) \<and> 35 \<notin> set (wu_path u)
     \<and> (\<forall>q. wu_query u = Some q \<longrightarrow> q \<noteq> [] \<and> no_break q \<and> 35 \<notin> set q)
     \<and> (\<forall>f. wu_fragment u = Some f \<longrightarrow> f \<noteq> [] \<and> no_break f)
     \<and> (\<forall>i. wu_userinfo u = Some i \<longrightarrow> userinfo_wf i)"

subsection \<open>Printing and parsing\<close>

definition uri_netloc :: "ws_uri_t \<Rightarrow> pystr" where
  "uri_netloc u = (if truthy (wu_userinfo u) then the (wu_userinfo u) @ [64] else []) @ host_header u"

definition uri_rest :: "ws_uri_t \<Rightarrow> pystr" where
  "uri_rest u = resource_name u @ (if truthy (wu_fragment u) then 35 # the (wu_fragment u) else [])"

lemma uri_str_eq: "uri_str u = wu_scheme u @ 58 # 47 # 47 # uri_netloc u @ uri_rest u"
  by (simp add: uri_str_def uri_netloc_def uri_rest_def)

lemma no_break_append [simp]: "no_break (s @ t) \<longleftrightarrow> no_break s \<and> no_break t"
  by (auto simp: no_break_def)

lemma no_break_Cons [simp]: "no_break (c # s) \<longleftrightarrow> c \<noteq> 9 \<and> c \<noteq> 10 \<and> c \<noteq> 13 \<and> no_break s"
  by (auto simp: no_break_def)

lemma no_break_Nil [simp]: "no_break []"
  by (simp add: no_break_def)

lemma netloc_part_append [simp]: "netloc_part (s @ t) \<longleftrightarrow> netloc_part s \<and> netloc_part t"
  by (auto simp: netloc_part_def is_ascii_def)

lemma netloc_part_Nil [simp]: "netloc_part []"
  by (simp add: netloc_part_def is_ascii_def)

lemma netloc_part_Cons [simp]:
  "netloc_part (58 # s) \<longleftrightarrow> netloc_part s" "netloc_part (64 # s) \<longleftrightarrow> netloc_part s"
  by (simp_all add: netloc_part_def is_ascii_def)

lemma decimal_chars: "c \<in> set (decimal n) \<Longrightarrow> 48 \<le> c \<and> c \<le> 57"
  using decimal_digits [of n] by (auto simp: list_all_iff is_digit_def)

lemma netloc_part_decimal [simp]: "netloc_part (decimal n)"
  using decimal_chars [of _ n] by (force simp: netloc_part_def no_break_def is_ascii_def list_all_iff)

lemma netloc_part_not_end: "netloc_part s \<Longrightarrow> c \<in> set s \<Longrightarrow> \<not> netloc_end c"
  by (auto simp: netloc_part_def netloc_end_def)

lemma clean_url_id: "no_break s \<Longrightarrow> s = c # t \<Longrightarrow> 32 < c \<Longrightarrow> clean_url s = s"
  by (auto simp: clean_url_def no_break_def filter_id_conv)

lemma no_break_clean: "no_break (clean_url s)"
  by (auto simp: clean_url_def no_break_def)

lemma split_netloc_print:
  assumes "netloc_part n" "r = 47 # r'"
  shows "split_netloc (47 # 47 # n @ r) = (n, r)"
  using assms netloc_part_not_end [OF assms(1)]
  by (auto simp: split_netloc_def takeWhile_append dropWhile_append netloc_end_def)

lemma split_rest_print:
  assumes "63 \<notin> set p" "35 \<notin> set p" "35 \<notin> set q" "q \<noteq> [] \<or> sep = []" "sep = [] \<and> q = [] \<or> sep = [63]"
    "fsep = [] \<and> f = [] \<or> fsep = [35]"
  shows "split_rest (p @ sep @ q @ fsep @ f) = (p, q, f)"
proof -
  have 1: "35 \<notin> set (p @ sep @ q)" using assms by auto
  have "fst (partition_at 35 (p @ sep @ q @ fsep @ f)) = p @ sep @ q" "snd (snd (partition_at 35 (p @ sep @ q @ fsep @ f))) = f"
    using assms(6) partition_at_absent [OF 1] partition_at_found [OF 1, of f] by auto
  moreover have "fst (partition_at 63 (p @ sep @ q)) = p" "snd (snd (partition_at 63 (p @ sep @ q))) = q"
    using assms(1,5) partition_at_absent [OF assms(1)] partition_at_found [OF assms(1), of q] by auto
  ultimately show ?thesis by (simp add: split_rest_def split_beta)
qed

lemma hostinfo_print:
  assumes "58 \<notin> set h" "64 \<notin> set h" "91 \<notin> set h" "91 \<notin> set p" "64 \<notin> set p" "pre = [] \<or> pre = i @ [64]"
  shows "su_hostinfo (pre @ h @ (if p = [] then [] else 58 # p)) = (h, p)"
proof -
  let ?hp = "h @ (if p = [] then [] else 58 # p)"
  have "64 \<notin> set ?hp" "91 \<notin> set ?hp" using assms by auto
  then have "snd (snd (rpartition_at 64 (pre @ ?hp))) = ?hp" "partition_at 91 ?hp = (?hp, False, [])"
    using assms(6) rpartition_at_absent [of 64 ?hp] rpartition_at_found [of 64 ?hp i] partition_at_absent [of 91 ?hp] by auto
  moreover have "partition_at 58 ?hp = (h, p \<noteq> [], p)"
    using assms(1) partition_at_absent [of 58 h] partition_at_found [of 58 h p] by auto
  ultimately show ?thesis by (simp add: su_hostinfo_def split_beta)
qed

lemma userinfo_print:
  assumes "64 \<notin> set hp"
  shows "join_userinfo (su_userinfo hp) = None"
    and "userinfo_wf i \<Longrightarrow> join_userinfo (su_userinfo (i @ 64 # hp)) = Some i"
proof -
  show "join_userinfo (su_userinfo hp) = None"
    using rpartition_at_absent [OF assms] by (simp add: su_userinfo_def join_userinfo_def truthy_def)
  assume i: "userinfo_wf i"
  obtain a b c where p: "partition_at 58 i = (a, b, c)" by (metis prod_cases3)
  then have "b \<Longrightarrow> i = a @ 58 # c" "\<not> b \<Longrightarrow> a = i"
    using partition_at_split [of 58 i a c] partition_at_false [of 58 i a c] by auto
  then show "join_userinfo (su_userinfo (i @ 64 # hp)) = Some i"
    using i p rpartition_at_found [OF assms, of i]
    by (cases b) (auto simp: su_userinfo_def join_userinfo_def truthy_def userinfo_wf_def)
qed

text \<open>The port that the printed host header names, if any.\<close>

definition printed_port :: "ws_uri_t \<Rightarrow> pystr" where
  "printed_port u = (if wu_port u = default_port (is_secure u) then [] else decimal (wu_port u))"

lemma host_header_eq: "host_header u = wu_host u @ (if printed_port u = [] then [] else 58 # printed_port u)"
  by (simp add: host_header_def printed_port_def decimal_nonempty)

lemma printed_port_chars: "c \<in> set (printed_port u) \<Longrightarrow> 48 \<le> c \<and> c \<le> 57"
  by (auto simp: printed_port_def dest: decimal_chars split: if_splits)

lemma uri_netloc_part: "uri_wf u \<Longrightarrow> netloc_part (uri_netloc u)"
  by (auto simp: uri_wf_def uri_netloc_def host_header_def userinfo_wf_def truthy_def)

lemma uri_netloc_parsed:
  assumes "uri_wf u"
  shows "su_hostname (uri_netloc u) = Some (wu_host u)"
    and "su_port (uri_netloc u) = Inr (if printed_port u = [] then None else Some (wu_port u))"
    and "join_userinfo (su_userinfo (uri_netloc u)) = wu_userinfo u"
proof -
  let ?pre = "if truthy (wu_userinfo u) then the (wu_userinfo u) @ [64] else []"
  have host: "58 \<notin> set (wu_host u)" "64 \<notin> set (wu_host u)" "91 \<notin> set (wu_host u)" "wu_host u \<noteq> []"
    using assms by (auto simp: uri_wf_def netloc_part_def)
  have port: "91 \<notin> set (printed_port u)" "64 \<notin> set (printed_port u)" using printed_port_chars by fastforce+
  have info: "su_hostinfo (uri_netloc u) = (wu_host u, printed_port u)"
    unfolding uri_netloc_def host_header_eq
    by (rule hostinfo_print [OF host(1-3) port, where i = "the (wu_userinfo u)"]) simp
  then show "su_hostname (uri_netloc u) = Some (wu_host u)"
    using assms host(4) by (simp add: su_hostname_def uri_wf_def)
  have "list_all is_digit (printed_port u)" by (simp add: printed_port_def decimal_digits)
  moreover have "printed_port u \<noteq> [] \<Longrightarrow> digits_value (printed_port u) = wu_port u"
    by (simp add: printed_port_def digits_value_decimal split: if_splits)
  ultimately show "su_port (uri_netloc u) = Inr (if printed_port u = [] then None else Some (wu_port u))"
    using assms info by (auto simp: su_port_def uri_wf_def)
  have "64 \<notin> set (host_header u)" using host port by (auto simp: host_header_eq)
  from userinfo_print [OF this] show "join_userinfo (su_userinfo (uri_netloc u)) = wu_userinfo u"
    using assms by (cases "wu_userinfo u") (auto simp: uri_netloc_def uri_wf_def truthy_def userinfo_wf_def partition_at_def)
qed

lemma urlsplit_print:
  assumes wf: "uri_wf u"
  shows "urlsplit netloc_ok (uri_str u) = Inr \<lparr>su_scheme = wu_scheme u, su_netloc = uri_netloc u, su_path = wu_path u,
     su_query = (if truthy (wu_query u) then the (wu_query u) else []),
     su_fragment = (if truthy (wu_fragment u) then the (wu_fragment u) else [])\<rparr>"
proof -
  have part: "netloc_part (uri_netloc u)" using uri_netloc_part [OF wf] .
  have scheme: "wu_scheme u = [119, 115] \<or> wu_scheme u = [119, 115, 115]"
    using wf by (auto simp: uri_wf_def WS_def WSS_def)
  have "no_break (uri_rest u)"
    using wf by (auto simp: uri_rest_def resource_name_def uri_wf_def truthy_def)
  then have "no_break (uri_str u)"
    using part scheme by (auto simp: uri_str_eq netloc_part_def)
  then have clean: "clean_url (uri_str u) = uri_str u"
    using scheme by (auto simp: uri_str_eq clean_url_id)
  have "58 \<notin> set (wu_scheme u)" using scheme by auto
  from partition_at_found [OF this] have split: "split_scheme (uri_str u) = (wu_scheme u, 47 # 47 # uri_netloc u @ uri_rest u)"
    using scheme by (auto simp: split_scheme_def uri_str_eq is_alpha_def scheme_char_def lower_def lower_char_def)
  obtain p where p: "wu_path u = 47 # p" using wf by (auto simp: uri_wf_def)
  then have r: "uri_rest u = 47 # tl (uri_rest u)" by (simp add: uri_rest_def resource_name_def)
  let ?q = "if truthy (wu_query u) then the (wu_query u) else []"
  let ?f = "if truthy (wu_fragment u) then the (wu_fragment u) else []"
  have rest: "uri_rest u = wu_path u @ (if truthy (wu_query u) then [63] else []) @ ?q @ (if truthy (wu_fragment u) then [35] else []) @ ?f"
    by (simp add: uri_rest_def resource_name_def)
  have "split_rest (uri_rest u) = (wu_path u, ?q, ?f)"
    unfolding rest by (rule split_rest_print) (use wf in \<open>auto simp: uri_wf_def truthy_def\<close>)
  then show ?thesis
    using part by (simp add: urlsplit_def clean split split_netloc_print [OF part r] netloc_part_def)
qed

lemma parse_uri_print:
  assumes wf: "uri_wf u"
  shows "parse_uri netloc_ok (uri_str u) = Inr u"
proof -
  have q: "none_if_empty (if truthy x then the x else []) = x" if "\<And>s. x = Some s \<Longrightarrow> s \<noteq> []" for x
    using that by (cases x) (auto simp: none_if_empty_def truthy_def)
  have query: "none_if_empty (if truthy (wu_query u) then the (wu_query u) else []) = wu_query u"
    and fragment: "none_if_empty (if truthy (wu_fragment u) then the (wu_fragment u) else []) = wu_fragment u"
    by (rule q, use wf in \<open>simp add: uri_wf_def\<close>)+
  have scheme: "wu_scheme u \<in> {WS, WSS}" "(if wu_scheme u = WSS then WSS else WS) = wu_scheme u"
    using wf by (auto simp: uri_wf_def)
  have port: "(case (if printed_port u = [] then None else Some (wu_port u)) of Some n \<Rightarrow> n | None \<Rightarrow> default_port (wu_scheme u = WSS)) = wu_port u"
    by (auto simp: printed_port_def is_secure_def decimal_nonempty)
  show ?thesis
    using wf scheme
    by (auto simp: parse_uri_def urlsplit_print [OF wf, of netloc_ok] uri_netloc_parsed [OF wf] query fragment port uri_wf_def Let_def)
qed

subsection \<open>What parsing returns\<close>

lemma partition_at_sets:
  assumes "partition_at c s = (a, found, b)"
  shows "set a \<subseteq> set s" "set b \<subseteq> set s" "c \<notin> set a"
  using assms by (cases found; auto dest: partition_at_split partition_at_false)+

lemma rpartition_at_sets:
  assumes "rpartition_at c s = (a, found, b)"
  shows "set a \<subseteq> set s" "set b \<subseteq> set s" "c \<notin> set b"
  using assms by (cases found; auto dest: rpartition_at_split rpartition_at_false)+

lemma no_break_subset: "set a \<subseteq> set b \<Longrightarrow> no_break b \<Longrightarrow> no_break a"
  by (auto simp: no_break_def)

lemma netloc_part_subset: "set a \<subseteq> set b \<Longrightarrow> netloc_part b \<Longrightarrow> netloc_part a"
  by (auto simp: netloc_part_def is_ascii_def list_all_iff no_break_def)

lemma split_scheme_subset: "set (snd (split_scheme url)) \<subseteq> set url"
proof -
  obtain a f b where p: "partition_at 58 url = (a, f, b)" by (metis prod_cases3)
  show ?thesis using partition_at_sets(2) [OF p] by (simp add: split_scheme_def p)
qed

lemma split_netloc_parts:
  assumes "split_netloc url = (n, r)"
  shows "set n \<subseteq> set url" "set r \<subseteq> set url" "c \<in> set n \<Longrightarrow> \<not> netloc_end c"
    "n \<noteq> [] \<Longrightarrow> r = [] \<or> netloc_end (hd r)"
  using assms hd_dropWhile [of "\<lambda>c. \<not> netloc_end c" "drop 2 url"]
  by (auto 4 3 simp: split_netloc_def dest: set_takeWhileD set_dropWhileD in_set_dropD
      simp del: dropWhile_eq_Nil_conv split: if_splits)

lemma split_rest_parts:
  assumes "split_rest r = (p, q, f)"
  shows "set p \<subseteq> set r" "set q \<subseteq> set r" "set f \<subseteq> set r" "63 \<notin> set p" "35 \<notin> set p" "35 \<notin> set q"
    "r = [] \<or> netloc_end (hd r) \<Longrightarrow> p = [] \<or> hd p = 47"
proof -
  obtain u g f' where u: "partition_at 35 r = (u, g, f')" by (metis prod_cases3)
  obtain p' h q' where p: "partition_at 63 u = (p', h, q')" by (metis prod_cases3)
  have eq: "p' = p" "q' = q" "f' = f" using assms u p by (simp_all add: split_rest_def)
  note u = u [unfolded eq] and p = p [unfolded eq]
  note us = partition_at_sets [OF u] and ps = partition_at_sets [OF p]
  show "set p \<subseteq> set r" "set q \<subseteq> set r" "set f \<subseteq> set r" "63 \<notin> set p" "35 \<notin> set p" "35 \<notin> set q"
    using us ps by auto
  assume start: "r = [] \<or> netloc_end (hd r)"
  have "u = [] \<or> hd u = hd r"
    using u by (cases g; cases u) (auto dest: partition_at_split partition_at_false)
  moreover have "p = [] \<or> hd p = hd u"
    using p by (cases h; cases p) (auto dest: partition_at_split partition_at_false)
  ultimately show "p = [] \<or> hd p = 47"
    using start us(1,3) ps(1,3) by (cases p; cases r) (auto simp: netloc_end_def)
qed

lemma clean_url_subset: "set (clean_url s) \<subseteq> set s"
  by (auto simp: clean_url_def dest: set_dropWhileD)

definition plain_uri :: "pystr \<Rightarrow> bool" where
  "plain_uri s \<longleftrightarrow> is_ascii s \<and> 91 \<notin> set s \<and> 93 \<notin> set s"

lemma urlsplit_chars:
  assumes split: "urlsplit netloc_ok s = Inr p"
  shows "set (su_netloc p) \<subseteq> set s" "no_break (su_netloc p)" "c \<in> set (su_netloc p) \<Longrightarrow> \<not> netloc_end c"
    "(91 \<in> set (su_netloc p)) = (93 \<in> set (su_netloc p))"
    "91 \<in> set (su_netloc p) \<or> \<not> is_ascii (su_netloc p) \<Longrightarrow> netloc_ok (su_netloc p)"
    "no_break (su_path p)" "63 \<notin> set (su_path p)" "35 \<notin> set (su_path p)"
    "no_break (su_query p)" "35 \<notin> set (su_query p)" "no_break (su_fragment p)"
    "su_netloc p \<noteq> [] \<Longrightarrow> su_path p = [] \<or> hd (su_path p) = 47"
proof -
  let ?c = "clean_url s"
  obtain n r where nr: "split_netloc (snd (split_scheme ?c)) = (n, r)" by fastforce
  obtain a b d where abd: "split_rest r = (a, b, d)" by (metis prod_cases3)
  have p: "su_netloc p = n" "su_path p = a" "su_query p = b" "su_fragment p = d"
    using split nr abd by (auto simp: urlsplit_def split_beta Let_def split: if_splits)
  show "(91 \<in> set (su_netloc p)) = (93 \<in> set (su_netloc p))"
    "91 \<in> set (su_netloc p) \<or> \<not> is_ascii (su_netloc p) \<Longrightarrow> netloc_ok (su_netloc p)"
    using split nr abd by (auto simp: urlsplit_def split_beta Let_def split: if_splits)
  note np = split_netloc_parts [OF nr] and rp = split_rest_parts [OF abd]
  have sub: "set n \<subseteq> set ?c" "set r \<subseteq> set ?c"
    using np(1,2) split_scheme_subset [of ?c] by auto
  then show "set (su_netloc p) \<subseteq> set s" using clean_url_subset [of s] by (auto simp: p)
  have "no_break n" "no_break r" using no_break_subset sub no_break_clean by blast+
  then show "no_break (su_netloc p)" by (simp add: p)
  show "c \<in> set (su_netloc p) \<Longrightarrow> \<not> netloc_end c" using np(3) by (simp add: p)
  show "no_break (su_path p)" "no_break (su_query p)" "no_break (su_fragment p)"
    using no_break_subset rp(1-3) \<open>no_break r\<close> by (auto simp: p)
  show "63 \<notin> set (su_path p)" "35 \<notin> set (su_path p)" "35 \<notin> set (su_query p)" using rp by (simp_all add: p)
  show "su_netloc p \<noteq> [] \<Longrightarrow> su_path p = [] \<or> hd (su_path p) = 47" using np(4) rp(7) by (simp add: p)
qed

lemma urlsplit_parts:
  assumes split: "urlsplit netloc_ok s = Inr p" and plain: "plain_uri s"
  shows "netloc_part (su_netloc p)"
    "no_break (su_path p)" "63 \<notin> set (su_path p)" "35 \<notin> set (su_path p)"
    "no_break (su_query p)" "35 \<notin> set (su_query p)" "no_break (su_fragment p)"
    "su_netloc p \<noteq> [] \<Longrightarrow> su_path p = [] \<or> hd (su_path p) = 47"
proof -
  note chars = urlsplit_chars [OF split]
  show "netloc_part (su_netloc p)"
    using plain chars(1,2) chars(3) [of 47] chars(3) [of 63] chars(3) [of 35]
    by (auto simp: plain_uri_def is_ascii_def list_all_iff netloc_part_def netloc_end_def)
qed (use urlsplit_chars [OF split] in auto)

lemma hostinfo_parts:
  assumes "su_hostinfo n = (h, port)" "netloc_part n"
  shows "netloc_part h" "58 \<notin> set h" "64 \<notin> set h"
proof -
  obtain a f b where r: "rpartition_at 64 n = (a, f, b)" by (metis prod_cases3)
  obtain h' g p' where p: "partition_at 58 b = (h', g, p')" by (metis prod_cases3)
  note rs = rpartition_at_sets [OF r] and ps = partition_at_sets [OF p]
  have "91 \<notin> set b" using rs(2) assms(2) by (auto simp: netloc_part_def)
  from partition_at_absent [OF this] have "h' = h" using assms(1) by (simp add: su_hostinfo_def r p)
  then show "netloc_part h" "58 \<notin> set h" "64 \<notin> set h"
    using rs ps netloc_part_subset [OF _ assms(2), of h] by auto
qed

lemma lower_ascii:
  assumes "is_ascii s" shows "set (lower s) \<subseteq> set s \<union> {97..122}" "is_ascii (lower s)"
  using assms by (induction s) (auto simp: is_ascii_def lower_Cons lower_char_def)

lemma norm_host_parts:
  assumes h: "netloc_part h" "58 \<notin> set h" "64 \<notin> set h" "h \<noteq> []"
  shows "netloc_part (norm_host h)" "58 \<notin> set (norm_host h)" "64 \<notin> set (norm_host h)" "norm_host h \<noteq> []"
    "norm_host (norm_host h) = norm_host h"
proof -
  obtain a f b where p: "partition_at 37 h = (a, f, b)" by (metis prod_cases3)
  note ps = partition_at_sets [OF p]
  have n: "norm_host h = lower a @ (if f then 37 # b else b)" by (simp add: norm_host_def p)
  have split: "h = a @ (if f then 37 # b else b)" "\<not> f \<Longrightarrow> b = []"
    using p by (cases f; auto dest: partition_at_split partition_at_false)+
  have asc: "is_ascii a" using h(1) ps(1) by (auto simp: netloc_part_def is_ascii_def list_all_iff)
  note la = lower_ascii [OF asc]
  have "37 \<notin> set (lower a)" using la(1) ps(3) by auto
  then show "norm_host (norm_host h) = norm_host h"
    using partition_at_found [of 37 "lower a" b] partition_at_absent [of 37 "lower a"] split(2)
    by (cases f) (auto simp: n, auto simp: norm_host_def)
  have set: "set (norm_host h) \<subseteq> set h \<union> {97..122}" unfolding n using la(1) split(1) by (auto split: if_splits)
  then show "58 \<notin> set (norm_host h)" "64 \<notin> set (norm_host h)" using h by auto
  show "netloc_part (norm_host h)"
    using set h(1) by (force simp: netloc_part_def no_break_def is_ascii_def list_all_iff)
  show "norm_host h \<noteq> []" unfolding n using split h(4) by (auto split: if_splits)
qed

lemma join_userinfo_parts:
  assumes "netloc_part n" "join_userinfo (su_userinfo n) = Some i"
  shows "userinfo_wf i"
proof -
  obtain a f b where r: "rpartition_at 64 n = (a, f, b)" by (metis prod_cases3)
  obtain user g pw where p: "partition_at 58 a = (user, g, pw)" by (metis prod_cases3)
  note rs = rpartition_at_sets [OF r] and ps = partition_at_sets [OF p]
  have "f" "user \<noteq> []" and i: "i = (if g \<and> pw \<noteq> [] then user @ 58 # pw else user)"
    using assms(2) by (auto simp: su_userinfo_def r p join_userinfo_def truthy_def split: if_splits bool.splits)
  moreover have "netloc_part user" "netloc_part pw" using netloc_part_subset [OF _ assms(1)] rs ps by auto
  ultimately show ?thesis
    using partition_at_found [of 58 user pw] partition_at_absent [of 58 user] ps(3)
    by (auto simp: userinfo_wf_def)
qed

lemma parse_uri_fields:
  assumes "parse_uri netloc_ok s = Inr u"
  obtains p h port where "urlsplit netloc_ok s = Inr p" "su_hostinfo (su_netloc p) = (h, port)" "h \<noteq> []"
    "wu_scheme u \<in> {WS, WSS}" "wu_host u = norm_host h" "0 < wu_port u" "wu_port u \<le> 65535"
    "wu_path u = (if su_path p = [] then [47] else su_path p)"
    "wu_query u = none_if_empty (su_query p)" "wu_fragment u = none_if_empty (su_fragment p)"
    "wu_userinfo u = join_userinfo (su_userinfo (su_netloc p))"
proof -
  from assms obtain p where p: "urlsplit netloc_ok s = Inr p"
    by (auto simp: parse_uri_def bind_result_def split: sum.splits)
  obtain h port where h: "su_hostinfo (su_netloc p) = (h, port)" by fastforce
  show thesis
    by (rule that [OF p h]) (use assms in \<open>auto simp: parse_uri_def p h bind_result_def su_hostname_def Let_def
      split: sum.splits if_splits\<close>)
qed

lemma parsed_uri_wf:
  assumes parse: "parse_uri netloc_ok s = Inr u" and plain: "plain_uri s"
  shows "uri_wf u"
proof -
  from parse obtain p h port where f: "urlsplit netloc_ok s = Inr p" "su_hostinfo (su_netloc p) = (h, port)" "h \<noteq> []"
    "wu_scheme u \<in> {WS, WSS}" "wu_host u = norm_host h" "0 < wu_port u" "wu_port u \<le> 65535"
    "wu_path u = (if su_path p = [] then [47] else su_path p)"
    "wu_query u = none_if_empty (su_query p)" "wu_fragment u = none_if_empty (su_fragment p)"
    "wu_userinfo u = join_userinfo (su_userinfo (su_netloc p))" by (rule parse_uri_fields)
  note up = urlsplit_parts [OF f(1) plain]
  note host = norm_host_parts [OF hostinfo_parts [OF f(2) up(1)] f(3)]
  have "su_netloc p \<noteq> []" using f(2,3) by (auto simp: su_hostinfo_def rpartition_at_def partition_at_def)
  then have "su_path p = [] \<or> hd (su_path p) = 47" using up(8) by simp
  then have path: "\<exists>x. wu_path u = 47 # x" using f(8) by (cases "su_path p") auto
  have info: "\<And>i. wu_userinfo u = Some i \<Longrightarrow> userinfo_wf i" using join_userinfo_parts [OF up(1)] f(11) by simp
  show ?thesis unfolding uri_wf_def
    using f(4,6,7) host path info up(2-7) by (simp add: f(5,8,9,10) none_if_empty_def)
qed

lemma norm_host_nonempty: "h \<noteq> [] \<Longrightarrow> norm_host h \<noteq> []"
proof -
  assume "h \<noteq> []"
  obtain a f b where p: "partition_at 37 h = (a, f, b)" by (metis prod_cases3)
  with \<open>h \<noteq> []\<close> show ?thesis by (cases f) (auto simp: norm_host_def dest: partition_at_false)
qed

text \<open>What every \<^verbatim>\<open>WebSocketURI\<close> that \<^verbatim>\<open>parse_uri\<close> builds satisfies, whatever the input.\<close>

definition uri_valid :: "ws_uri_t \<Rightarrow> bool" where
  "uri_valid u \<longleftrightarrow> wu_scheme u \<in> {WS, WSS} \<and> wu_host u \<noteq> [] \<and> 0 < wu_port u \<and> wu_port u \<le> 65535 \<and> wu_path u \<noteq> []
     \<and> wu_query u \<noteq> Some [] \<and> wu_fragment u \<noteq> Some [] \<and> wu_userinfo u \<noteq> Some []"

lemma parsed_uri_valid: "parse_uri netloc_ok s = Inr u \<Longrightarrow> uri_valid u"
proof -
  assume "parse_uri netloc_ok s = Inr u"
  then obtain p h port where "urlsplit netloc_ok s = Inr p" "su_hostinfo (su_netloc p) = (h, port)" "h \<noteq> []"
    "wu_scheme u \<in> {WS, WSS}" "wu_host u = norm_host h" "0 < wu_port u" "wu_port u \<le> 65535"
    "wu_path u = (if su_path p = [] then [47] else su_path p)"
    "wu_query u = none_if_empty (su_query p)" "wu_fragment u = none_if_empty (su_fragment p)"
    "wu_userinfo u = join_userinfo (su_userinfo (su_netloc p))" by (rule parse_uri_fields)
  then show ?thesis
    by (auto simp: uri_valid_def none_if_empty_def join_userinfo_def truthy_def norm_host_nonempty split: if_splits)
qed

lemma parse_uri_error: "parse_uri netloc_ok s = Inl e \<Longrightarrow> \<exists>m. e = ValueError m"
  by (auto simp: parse_uri_def bind_result_def urlsplit_def su_port_def split_beta Let_def
      split: sum.splits if_splits option.splits)

text \<open>
  C18. Whatever the string, \<^verbatim>\<open>parse_uri\<close> either raises a \<^verbatim>\<open>ValueError\<close> and nothing else, or returns a
  URI with one of the two schemes, a host, a port in the range, a path, and optional parts that
  are \<^verbatim>\<open>None\<close> rather than empty.
\<close>

theorem parse_uri_result:
  "case parse_uri netloc_ok s of Inl e \<Rightarrow> \<exists>m. e = ValueError m | Inr u \<Rightarrow> uri_valid u"
  using parsed_uri_valid [of netloc_ok s] parse_uri_error [of netloc_ok s] by (cases "parse_uri netloc_ok s") auto

text \<open>
  C17. A parsed URI survives printing: for an ASCII URI without a bracketed address, \<^verbatim>\<open>parse_uri\<close> of
  the string that \<^verbatim>\<open>str\<close> gives back returns the same URI (scheme, host, port, path, query,
  fragment and user information), although case, a default port, tabs and line breaks of the
  original may be gone.
\<close>

theorem uri_round_trip:
  assumes "parse_uri netloc_ok s = Inr u" and "plain_uri s"
  shows "parse_uri netloc_ok (uri_str u) = Inr u"
  using parse_uri_print [OF parsed_uri_wf [OF assms]] .

lemmas parsing_defs = parse_uri_def urlsplit_def clean_url_def split_scheme_def split_netloc_def split_rest_def
  netloc_end_def is_alpha_def scheme_char_def is_digit_def is_ascii_def partition_at_def rpartition_at_def lower_def lower_char_def
  WS_def WSS_def su_hostname_def su_hostinfo_def su_port_def su_userinfo_def norm_host_def digits_value_def
  none_if_empty_def join_userinfo_def truthy_def default_port_def bind_result_def Let_def
  numeral_2_eq_2 [symmetric]

definition sample_uri :: ws_uri_t where
  "sample_uri = \<lparr>wu_scheme = WSS, wu_host = lit ''example.com'', wu_port = 8080, wu_path = lit ''/ws'',
     wu_query = Some (lit ''token=abc''), wu_fragment = None, wu_userinfo = Some (lit ''me:pw'')\<rparr>"

lemma sample_uri_parsed:
  "parse_uri (\<lambda>_. False) (lit ''WSS://me:pw@Example.com:8080/ws?token=abc'') = Inr sample_uri"
  by (simp add: sample_uri_def parsing_defs)

theorem uri_round_trip_witness:
  "parse_uri (\<lambda>_. False) (lit ''WSS://me:pw@Example.com:8080/ws?token=abc'') = Inr sample_uri
   \<and> plain_uri (lit ''WSS://me:pw@Example.com:8080/ws?token=abc'')
   \<and> parse_uri (\<lambda>_. False) (uri_str sample_uri) = Inr sample_uri"
proof -
  have plain: "plain_uri (lit ''WSS://me:pw@Example.com:8080/ws?token=abc'')" by (simp add: plain_uri_def is_ascii_def)
  show ?thesis using plain sample_uri_parsed uri_round_trip [OF sample_uri_parsed plain] by simp
qed

text \<open>
  Bracketed addresses do not survive: the host is kept without its brackets, so the \<^verbatim>\<open>Host\<close> header
  of \<^verbatim>\<open>ws://[::1]:8080/\<close> reads \<^verbatim>\<open>::1:8080\<close> and the printed URI no longer parses.
\<close>

definition bracket_uri :: ws_uri_t where
  "bracket_uri = \<lparr>wu_scheme = WS, wu_host = lit ''::1'', wu_port = 8080, wu_path = lit ''/'',
     wu_query = None, wu_fragment = None, wu_userinfo = None\<rparr>"

lemma bracket_uri_parsed: "parse_uri (\<lambda>_. True) (lit ''ws://[::1]:8080/'') = Inr bracket_uri"
  by (simp add: bracket_uri_def parsing_defs)

lemma decimal_8080: "decimal 8080 = lit ''8080''"
  by (simp add: decimal.simps)

lemma bracket_uri_printed: "host_header bracket_uri = lit ''::1:8080''" "uri_str bracket_uri = lit ''ws://::1:8080/''"
  by (simp_all add: bracket_uri_def host_header_def uri_str_def resource_name_def is_secure_def truthy_def
      default_port_def decimal_8080 WS_def WSS_def)

theorem ipv6_host_loses_brackets:
  "parse_uri (\<lambda>_. True) (lit ''ws://[::1]:8080/'') = Inr bracket_uri
   \<and> host_header bracket_uri = lit ''::1:8080''
   \<and> parse_uri (\<lambda>_. True) (uri_str bracket_uri) = Inl (ValueError ''Missing host in URI'')"
  using bracket_uri_parsed bracket_uri_printed by (simp add: parsing_defs)

end
