(* ===== verification/Jet_Query.thy ===== *)
theory Jet_Query
  imports Jet_Uri
begin

text \<open>
  The query of a URI as a dictionary: \<^verbatim>\<open>WebSocketURI.query_params\<close> and the functions \<^verbatim>\<open>unquote_plus\<close>
  and \<^verbatim>\<open>parse_qs\<close> of Python's \<^verbatim>\<open>urllib.parse\<close> it rests on, with their default arguments. A dictionary
  is an association list in the order of first insertion.
\<close>

subsection \<open>\<^verbatim>\<open>unquote_plus\<close>\<close>

definition hex_value :: "codepoint \<Rightarrow> nat option" where
  "hex_value c =
     (if is_digit c then Some (c - 48)
      else if 65 \<le> c \<and> c \<le> 70 then Some (c - 55)
      else if 97 \<le> c \<and> c \<le> 102 then Some (c - 87)
      else None)"

text \<open>\<^verbatim>\<open>unquote_to_bytes\<close> of an ASCII string\<close>

fun unquote_bytes :: "pystr \<Rightarrow> nat list" where
  "unquote_bytes (c # a # b # s) =
     (if c = 37 then
        (case (hex_value a, hex_value b) of
           (Some x, Some y) \<Rightarrow> (16 * x + y) # unquote_bytes s
         | _ \<Rightarrow> c # unquote_bytes (a # b # s))
      else c # unquote_bytes (a # b # s))"
| "unquote_bytes s = s"

text \<open>Runs of ASCII are unquoted and decoded, the other characters are kept.\<close>

function unquote_runs :: "pystr \<Rightarrow> pystr" where
  "unquote_runs s =
     (if s = [] then []
      else decode_replace (unquote_bytes (takeWhile (\<lambda>c. c < 128) s))
        @ (case dropWhile (\<lambda>c. c < 128) s of
             [] \<Rightarrow> []
           | c # t \<Rightarrow> c # unquote_runs t))"
  by pat_completeness auto
termination
proof (relation "measure length", simp, goal_cases)
  case (1 s c t)
  then have "length (c # t) \<le> length s" by (metis length_dropWhile_le)
  then show ?case by simp
qed

declare unquote_runs.simps [simp del]

definition unquote :: "pystr \<Rightarrow> pystr" where
  "unquote s = (if 37 \<in> set s then unquote_runs s else s)"

definition unquote_plus :: "pystr \<Rightarrow> pystr" where
  "unquote_plus s = unquote (map (\<lambda>c. if c = 43 then 32 else c) s)"

subsection \<open>\<^verbatim>\<open>parse_qs\<close>\<close>

definition parse_field :: "pystr \<Rightarrow> (pystr \<times> pystr) option" where
  "parse_field field =
     (case partition_at 61 field of (name, _, value) \<Rightarrow>
        if value = [] then None else Some (unquote_plus name, unquote_plus value))"

definition parse_qsl :: "pystr \<Rightarrow> (pystr \<times> pystr) list" where
  "parse_qsl qs = (if qs = [] then [] else List.map_filter parse_field (split_on [38] qs))"

definition add_value :: "pystr \<times> pystr \<Rightarrow> (pystr \<times> pystr list) list \<Rightarrow> (pystr \<times> pystr list) list" where
  "add_value nv d =
     (case map_of d (fst nv) of
        Some vs \<Rightarrow> dict_set (fst nv) (vs @ [snd nv]) d
      | None \<Rightarrow> d @ [(fst nv, [snd nv])])"

definition parse_qs :: "pystr \<Rightarrow> (pystr \<times> pystr list) list" where
  "parse_qs qs = fold add_value (parse_qsl qs) []"

definition query_params :: "ws_uri_t \<Rightarrow> (pystr \<times> pystr list) list" where
  "query_params u = (if truthy (wu_query u) then parse_qs (the (wu_query u)) else [])"

subsection \<open>What the dictionary holds\<close>

text \<open>All values of a name, in the order of the query.\<close>

definition values_of :: "pystr \<Rightarrow> (pystr \<times> pystr) list \<Rightarrow> pystr list" where
  "values_of name nvs = map snd (filter (\<lambda>nv. fst nv = name) nvs)"

lemma values_of_Cons: "values_of name (nv # nvs) = (if fst nv = name then [snd nv] else []) @ values_of name nvs"
  by (simp add: values_of_def)

lemma add_value_lookup:
  "map_of (add_value nv d) name =
     (if fst nv = name then Some ((case map_of d name of None \<Rightarrow> [] | Some vs \<Rightarrow> vs) @ [snd nv]) else map_of d name)"
  by (auto simp: add_value_def map_add_def split: option.splits)

lemma fold_add_value:
  "map_of (fold add_value nvs d) name =
     (case map_of d name of
        None \<Rightarrow> if values_of name nvs = [] then None else Some (values_of name nvs)
      | Some vs \<Rightarrow> Some (vs @ values_of name nvs))"
proof (induction nvs arbitrary: d)
  case (Cons nv nvs)
  show ?case by (simp add: Cons.IH add_value_lookup values_of_Cons split: option.split)
qed (simp add: values_of_def split: option.split)

lemma parse_qs_lookup:
  "map_of (parse_qs qs) name = (if values_of name (parse_qsl qs) = [] then None else Some (values_of name (parse_qsl qs)))"
  by (simp add: parse_qs_def fold_add_value)

subsection \<open>Percent encoding\<close>

text \<open>A reference encoder: every byte of the UTF-8 form as two hexadecimal digits.\<close>

definition hex_digit :: "nat \<Rightarrow> codepoint" where
  "hex_digit n = (if n < 10 then 48 + n else 55 + n)"

definition percent_byte :: "nat \<Rightarrow> pystr" where
  "percent_byte n = [37, hex_digit (n div 16), hex_digit (n mod 16)]"

definition percent_encode :: "pystr \<Rightarrow> pystr" where
  "percent_encode s = concat (map percent_byte (concat (map encode_nats s)))"

lemma hex_value_digit: "n < 16 \<Longrightarrow> hex_value (hex_digit n) = Some n"
  by (auto simp: hex_value_def hex_digit_def is_digit_def)

lemma unquote_percent_bytes: "list_all (\<lambda>n. n < 256) ns \<Longrightarrow> unquote_bytes (concat (map percent_byte ns)) = ns"
  by (induction ns) (auto simp: percent_byte_def hex_value_digit)

lemma encode_nats_bytes: "scalar_value c \<Longrightarrow> list_all (\<lambda>n. n < 256) (encode_nats c)"
  by (auto simp: encode_nats_def list_all_iff)

definition hex_char :: "codepoint \<Rightarrow> bool" where
  "hex_char c \<longleftrightarrow> c = 37 \<or> is_digit c \<or> (65 \<le> c \<and> c \<le> 70)"

lemma percent_encode_chars: "list_all scalar_value s \<Longrightarrow> list_all hex_char (percent_encode s)"
proof -
  have "list_all hex_char (concat (map percent_byte ns))" if "list_all (\<lambda>n. n < 256) ns" for ns
    using that by (induction ns) (auto simp: percent_byte_def hex_char_def hex_digit_def is_digit_def)
  moreover assume "list_all scalar_value s"
  then have "list_all (\<lambda>n. n < 256) (concat (map encode_nats s))"
    using encode_nats_bytes by (induction s) auto
  ultimately show ?thesis by (simp add: percent_encode_def)
qed

lemma unquote_percent_encode:
  assumes "list_all scalar_value s"
  shows "unquote_plus (percent_encode s) = s"
proof -
  let ?ns = "concat (map encode_nats s)"
  have ns: "list_all (\<lambda>n. n < 256) ?ns" using assms encode_nats_bytes by (induction s) auto
  have hex: "\<And>c. c \<in> set (percent_encode s) \<Longrightarrow> c < 128 \<and> c \<noteq> 43"
    using percent_encode_chars [OF assms] by (auto simp: list_all_iff hex_char_def is_digit_def)
  then have plus: "map (\<lambda>c. if c = 43 then 32 else c) (percent_encode s) = percent_encode s"
    by (intro map_idI) auto
  show ?thesis
  proof (cases s)
    case Nil
    then show ?thesis by (simp add: percent_encode_def unquote_plus_def unquote_def)
  next
    case (Cons c t)
    then obtain n rest where n: "?ns = n # rest" using encode_nats_nonempty [of c] by (cases "encode_nats c") auto
    then have "37 \<in> set (percent_encode s)" "percent_encode s \<noteq> []" by (simp_all add: percent_encode_def percent_byte_def)
    moreover have ascii: "takeWhile (\<lambda>c. c < 128) (percent_encode s) = percent_encode s" "dropWhile (\<lambda>c. c < 128) (percent_encode s) = []"
      using hex by (auto simp: takeWhile_eq_all_conv dropWhile_eq_Nil_conv)
    ultimately have "unquote_plus (percent_encode s) = decode_replace (unquote_bytes (percent_encode s))"
      by (simp add: unquote_plus_def unquote_def plus unquote_runs.simps ascii)
    also have "\<dots> = s"
      using unquote_percent_bytes [OF ns] decode_replace_strict [OF decode_strict_encode [OF assms]]
      by (simp add: percent_encode_def)
    finally show ?thesis .
  qed
qed

subsection \<open>Queries\<close>

definition encode_field :: "pystr \<times> pystr \<Rightarrow> pystr" where
  "encode_field nv = percent_encode (fst nv) @ [61] @ percent_encode (snd nv)"

definition encode_query :: "(pystr \<times> pystr) list \<Rightarrow> pystr" where
  "encode_query nvs = join [38] (map encode_field nvs)"

definition scalar_field :: "pystr \<times> pystr \<Rightarrow> bool" where
  "scalar_field nv \<longleftrightarrow> list_all scalar_value (fst nv) \<and> list_all scalar_value (snd nv)"

lemma percent_encode_Nil [simp]: "percent_encode s = [] \<longleftrightarrow> s = []"
  using encode_nats_nonempty by (cases s) (auto simp: percent_encode_def percent_byte_def)

lemma parse_encoded_field:
  assumes "scalar_field nv"
  shows "parse_field (encode_field nv) = (if snd nv = [] then None else Some nv)" "38 \<notin> set (encode_field nv)"
proof -
  have n: "list_all scalar_value (fst nv)" and v: "list_all scalar_value (snd nv)" using assms by (simp_all add: scalar_field_def)
  note chars = percent_encode_chars [OF n] percent_encode_chars [OF v]
  then have "61 \<notin> set (percent_encode (fst nv))" by (auto simp: list_all_iff hex_char_def is_digit_def)
  from partition_at_found [OF this, of "percent_encode (snd nv)"]
  show "parse_field (encode_field nv) = (if snd nv = [] then None else Some nv)"
    by (simp add: parse_field_def encode_field_def unquote_percent_encode [OF n] unquote_percent_encode [OF v])
  show "38 \<notin> set (encode_field nv)" using chars by (auto simp: encode_field_def list_all_iff hex_char_def is_digit_def)
qed

lemma parse_encoded_query:
  assumes "list_all scalar_field nvs"
  shows "parse_qsl (encode_query nvs) = filter (\<lambda>nv. snd nv \<noteq> []) nvs"
proof (cases nvs)
  case (Cons nv rest)
  have "list_all (\<lambda>l. 38 \<notin> set l) (map encode_field nvs)"
    using assms parse_encoded_field(2) by (auto simp: list_all_iff)
  from split_on_join [OF this, of "[]"] Cons have "split_on [38] (encode_query nvs) = map encode_field nvs"
    by (simp add: encode_query_def)
  moreover have "encode_query nvs \<noteq> []" by (simp add: encode_query_def Cons encode_field_def)
  moreover have "List.map_filter parse_field (map encode_field nvs) = filter (\<lambda>nv. snd nv \<noteq> []) nvs"
    using assms by (induction nvs) (auto simp: List.map_filter_simps parse_encoded_field(1))
  ultimately show ?thesis by (simp add: parse_qsl_def)
qed (simp add: encode_query_def parse_qsl_def)

text \<open>
  \<^verbatim>\<open>query_params\<close> recovers what was encoded: for a query built from percent-encoded fields, the
  dictionary maps every name to its values in the order of the query. Fields with an empty value
  are left out, so a name that has no other does not appear.
\<close>

theorem query_params_complete:
  assumes "list_all scalar_field nvs" and "wu_query u = none_if_empty (encode_query nvs)"
  shows "map_of (query_params u) name =
     (let vs = filter (\<lambda>v. v \<noteq> []) (values_of name nvs) in if vs = [] then None else Some vs)"
proof -
  have vs: "values_of name (filter (\<lambda>nv. snd nv \<noteq> []) nvs) = filter (\<lambda>v. v \<noteq> []) (values_of name nvs)"
    by (induction nvs) (auto simp: values_of_def)
  have "query_params u = parse_qs (encode_query nvs)"
    using assms(2) by (cases "encode_query nvs") (auto simp: query_params_def none_if_empty_def truthy_def parse_qs_def parse_qsl_def)
  then show ?thesis by (simp add: parse_qs_lookup parse_encoded_query [OF assms(1)] vs Let_def)
qed

theorem query_params_complete_witness:
  "map_of (query_params (sample_uri\<lparr>wu_query := Some (encode_query [(lit ''s'', [0x20AC]), (lit ''s'', lit ''a&b'')])\<rparr>)) (lit ''s'')
     = Some [[0x20AC], lit ''a&b'']"
proof -
  let ?nvs = "[(lit ''s'', [0x20AC]), (lit ''s'', lit ''a&b'')]"
  let ?u = "sample_uri\<lparr>wu_query := Some (encode_query ?nvs)\<rparr>"
  have "list_all scalar_field ?nvs" by (simp add: scalar_field_def scalar_value_def)
  moreover have "wu_query ?u = none_if_empty (encode_query ?nvs)"
    by (simp add: none_if_empty_def encode_query_def encode_field_def)
  ultimately show ?thesis
    using query_params_complete [of ?nvs ?u "lit ''s''"] by (simp add: values_of_def)
qed

end
