(* ===== verification/Jet_Url_Join.thy ===== *)
theory Jet_Url_Join
  imports Jet_Uri
begin

text \<open>
  References resolved against a base URI: the functions \<^verbatim>\<open>urlparse\<close>, \<^verbatim>\<open>urlunparse\<close> and \<^verbatim>\<open>urljoin\<close> of
  Python's \<^verbatim>\<open>urllib.parse\<close>, on which the pool's \<^verbatim>\<open>_resolve_uri\<close> rests, with the lemmas that say which
  parts of a WebSocket URI a relative reference can change.
\<close>

subsection \<open>\<^verbatim>\<open>urlparse\<close> and \<^verbatim>\<open>urlunparse\<close>\<close>

definition uses_relative :: "pystr list" where
  "uses_relative = map lit ['''', ''ftp'', ''http'', ''gopher'', ''nntp'', ''imap'', ''wais'', ''file'', ''https'',
     ''shttp'', ''mms'', ''prospero'', ''rtsp'', ''rtsps'', ''rtspu'', ''sftp'', ''svn'', ''svn+ssh'', ''ws'', ''wss'']"

definition uses_netloc :: "pystr list" where
  "uses_netloc = map lit ['''', ''ftp'', ''http'', ''gopher'', ''nntp'', ''telnet'', ''imap'', ''wais'', ''file'', ''mms'',
     ''https'', ''shttp'', ''snews'', ''prospero'', ''rtsp'', ''rtsps'', ''rtspu'', ''rsync'', ''svn'', ''svn+ssh'',
     ''sftp'', ''nfs'', ''git'', ''git+ssh'', ''ws'', ''wss'']"

definition uses_params :: "pystr list" where
  "uses_params = map lit ['''', ''ftp'', ''hdl'', ''prospero'', ''http'', ''imap'', ''https'', ''shttp'', ''rtsp'', ''rtsps'',
     ''rtspu'', ''sip'', ''sips'', ''mms'', ''sftp'', ''tel'']"

record parsed_url = split_url +
  pu_params :: pystr

text \<open>\<^verbatim>\<open>_splitparams\<close>: the parameters of the last segment.\<close>

definition split_params :: "pystr \<Rightarrow> pystr \<times> pystr" where
  "split_params url =
     (case rpartition_at 47 url of (dir, slash, last_seg) \<Rightarrow>
        (case partition_at 59 last_seg of
           (a, found, params) \<Rightarrow> if found then (dir @ (if slash then [47] else []) @ a, params) else (url, [])))"

definition urlparse :: "(pystr \<Rightarrow> bool) \<Rightarrow> pystr \<Rightarrow> pystr \<Rightarrow> exn + parsed_url" where
  "urlparse netloc_ok default_scheme url =
     bind_result (urlsplit netloc_ok url) (\<lambda>s.
       let scheme = (if su_scheme s = [] then default_scheme else su_scheme s);
           (path, params) = (if scheme \<in> set uses_params \<and> 59 \<in> set (su_path s) then split_params (su_path s) else (su_path s, []))
       in Inr \<lparr>su_scheme = scheme, su_netloc = su_netloc s, su_path = path, su_query = su_query s,
            su_fragment = su_fragment s, pu_params = params\<rparr>)"

text \<open>
  \<^verbatim>\<open>urlunsplit\<close>, as of Python 3.12; older versions differ only when there is no network location and
  the path begins with two slashes.
\<close>

definition urlunsplit :: "pystr \<Rightarrow> pystr \<Rightarrow> pystr \<Rightarrow> pystr \<Rightarrow> pystr \<Rightarrow> pystr" where
  "urlunsplit scheme netloc path query fragment =
     (let url = (if netloc \<noteq> [] \<or> (scheme \<noteq> [] \<and> scheme \<in> set uses_netloc \<and> take 2 path \<noteq> [47, 47])
                 then [47, 47] @ netloc @ (if path \<noteq> [] \<and> hd path \<noteq> 47 then 47 # path else path) else path)
      in (if scheme = [] then url else scheme @ [58] @ url)
         @ (if query = [] then [] else 63 # query) @ (if fragment = [] then [] else 35 # fragment))"

definition urlunparse :: "parsed_url \<Rightarrow> pystr" where
  "urlunparse p =
     urlunsplit (su_scheme p) (su_netloc p) (if pu_params p = [] then su_path p else su_path p @ [59] @ pu_params p)
       (su_query p) (su_fragment p)"

subsection \<open>\<^verbatim>\<open>urljoin\<close>\<close>

definition base_dir :: "pystr \<Rightarrow> pystr list" where
  "base_dir bpath = (let parts = split_on [47] bpath in if last parts \<noteq> [] then butlast parts else parts)"

text \<open>\<^verbatim>\<open>segments[1:-1] = filter(None, segments[1:-1])\<close>\<close>

fun squeeze_segments :: "pystr list \<Rightarrow> pystr list" where
  "squeeze_segments (a # b # rest) = a # filter (\<lambda>s. s \<noteq> []) (butlast (b # rest)) @ [last (b # rest)]"
| "squeeze_segments segments = segments"

definition DOT :: pystr where "DOT = [46]"
definition DOTDOT :: pystr where "DOTDOT = [46, 46]"

fun resolve_segments :: "pystr list \<Rightarrow> pystr list \<Rightarrow> pystr list" where
  "resolve_segments resolved [] = resolved"
| "resolve_segments resolved (seg # segments) =
     resolve_segments
       (if seg = DOTDOT then butlast resolved else if seg = DOT then resolved else resolved @ [seg]) segments"

definition join_path :: "pystr \<Rightarrow> pystr \<Rightarrow> pystr" where
  "join_path bpath path =
     (let segments = (if take 1 path = [47] then split_on [47] path
                      else squeeze_segments (base_dir bpath @ split_on [47] path));
          resolved = resolve_segments [] segments @ (if last segments \<in> {DOT, DOTDOT} then [[]] else []);
          joined = join [47] resolved
      in if joined = [] then [47] else joined)"

definition urljoin :: "(pystr \<Rightarrow> bool) \<Rightarrow> pystr \<Rightarrow> pystr \<Rightarrow> exn + pystr" where
  "urljoin netloc_ok base url =
     (if base = [] then Inr url
      else if url = [] then Inr base
      else bind_result (urlparse netloc_ok [] base) (\<lambda>b.
           bind_result (urlparse netloc_ok (su_scheme b) url) (\<lambda>u.
             if su_scheme u \<noteq> su_scheme b \<or> su_scheme u \<notin> set uses_relative then Inr url
             else if su_scheme u \<in> set uses_netloc \<and> su_netloc u \<noteq> [] then Inr (urlunparse u)
             else let v = (if su_scheme u \<in> set uses_netloc then u\<lparr>su_netloc := su_netloc b\<rparr> else u)
                  in if su_path u = [] \<and> pu_params u = []
                     then Inr (urlunparse (v\<lparr>su_path := su_path b, pu_params := pu_params b,
                                su_query := (if su_query u = [] then su_query b else su_query u)\<rparr>))
                     else Inr (urlunparse (v\<lparr>su_path := join_path (su_path b) (su_path u)\<rparr>)))))"

subsection \<open>Relative references keep the server\<close>

lemma resolve_segments_all: "list_all P r \<Longrightarrow> list_all P segs \<Longrightarrow> list_all P (resolve_segments r segs)"
  by (induction r segs rule: resolve_segments.induct) (simp_all add: list_all_takes)

lemma squeeze_segments_all: "list_all P segs \<Longrightarrow> list_all P (squeeze_segments segs)"
  by (cases segs rule: squeeze_segments.cases) (auto simp: list_all_iff dest: in_set_butlastD)

lemma base_dir_all: "list_all P p \<Longrightarrow> list_all (list_all P) (base_dir p)"
  by (simp add: base_dir_def Let_def split_on_all list_all_takes)

lemma join_path_all: "P 47 \<Longrightarrow> list_all P bpath \<Longrightarrow> list_all P path \<Longrightarrow> list_all P (join_path bpath path)"
  by (auto simp: join_path_def Let_def simp del: join.simps
      intro!: list_all_join resolve_segments_all squeeze_segments_all base_dir_all split_on_all)

lemma join_path_chars: "set (join_path bpath path) \<subseteq> insert 47 (set bpath \<union> set path)"
  using join_path_all [of "\<lambda>c. c \<in> insert 47 (set bpath \<union> set path)" bpath path] by (auto simp: list_all_iff)

lemma urlsplit_rebuild:
  assumes "scheme \<in> {WS, WSS}" "netloc \<noteq> []" "\<And>c. c \<in> set netloc \<Longrightarrow> \<not> netloc_end c" "no_break netloc"
    and "(91 \<in> set netloc) = (93 \<in> set netloc)" "91 \<in> set netloc \<or> \<not> is_ascii netloc \<Longrightarrow> netloc_ok netloc"
    and "path = [] \<or> hd path = 47" "no_break path" "63 \<notin> set path" "35 \<notin> set path"
    and "no_break query" "35 \<notin> set query" "no_break fragment"
  shows "urlsplit netloc_ok (urlunsplit scheme netloc path query fragment)
    = Inr \<lparr>su_scheme = scheme, su_netloc = netloc, su_path = path, su_query = query, su_fragment = fragment\<rparr>"
proof -
  define rest where "rest = path @ (if query = [] then [] else [63]) @ query @ (if fragment = [] then [] else [35]) @ fragment"
  define url where "url = scheme @ 58 # 47 # 47 # netloc @ rest"
  have built: "urlunsplit scheme netloc path query fragment = url"
    using assms(1,2,7) by (auto simp: urlunsplit_def url_def rest_def WS_def WSS_def)
  have scheme: "scheme = [119, 115] \<or> scheme = [119, 115, 115]" using assms(1) by (auto simp: WS_def WSS_def)
  have "no_break rest" using assms(8,11,13) by (simp add: rest_def)
  then have clean: "clean_url url = url"
    using assms(4) scheme by (intro clean_url_id [of url "hd url" "tl url"]) (auto simp: url_def)
  have "58 \<notin> set scheme" using scheme by auto
  from partition_at_found [OF this] have split: "split_scheme url = (scheme, 47 # 47 # netloc @ rest)"
    using scheme by (auto simp: split_scheme_def url_def is_alpha_def scheme_char_def lower_def lower_char_def)
  have "rest = [] \<or> netloc_end (hd rest)" using assms(7) by (cases path) (auto simp: rest_def netloc_end_def)
  then have netloc: "split_netloc (47 # 47 # netloc @ rest) = (netloc, rest)"
    using assms(3) by (cases rest) (auto simp: split_netloc_def takeWhile_append dropWhile_append)
  have "split_rest rest = (path, query, fragment)"
    unfolding rest_def by (rule split_rest_print) (use assms in auto)
  then show ?thesis using assms(5,6) by (auto simp: urlsplit_def built clean split netloc)
qed

text \<open>The path as \<^verbatim>\<open>urlunsplit\<close> prints it behind a network location.\<close>

definition rooted :: "pystr \<Rightarrow> pystr" where
  "rooted path = (if path \<noteq> [] \<and> hd path \<noteq> 47 then 47 # path else path)"

lemma urlunsplit_rooted: "netloc \<noteq> [] \<Longrightarrow> urlunsplit scheme netloc path q f = urlunsplit scheme netloc (rooted path) q f"
  by (auto simp: urlunsplit_def rooted_def)

lemma websocket_schemes:
  "scheme \<in> {WS, WSS} \<Longrightarrow> scheme \<noteq> [] \<and> scheme \<in> set uses_relative \<and> scheme \<in> set uses_netloc \<and> scheme \<notin> set uses_params"
  by (auto simp: WS_def WSS_def uses_relative_def uses_netloc_def uses_params_def)

lemma urlsplit_empty: "urlsplit netloc_ok [] = Inr s \<Longrightarrow> su_netloc s = [] \<and> su_path s = []"
  by (auto simp: urlsplit_def clean_url_def split_scheme_def split_netloc_def split_rest_def partition_at_def split: if_splits)

lemma urljoin_keeps_server:
  assumes base: "urlsplit netloc_ok base = Inr b" "su_scheme b \<in> {WS, WSS}" "su_netloc b \<noteq> []"
    and ref: "urlsplit netloc_ok ref = Inr s" "su_scheme s = []" "su_netloc s = []"
  obtains r p q f where "urljoin netloc_ok base ref = Inr r"
    and "urlsplit netloc_ok r = Inr \<lparr>su_scheme = su_scheme b, su_netloc = su_netloc b, su_path = p, su_query = q, su_fragment = f\<rparr>"
    and "su_path s \<noteq> [] \<Longrightarrow> p = rooted (join_path (su_path b) (su_path s)) \<and> q = su_query s \<and> f = su_fragment s"
proof -
  note ws = websocket_schemes [OF base(2)] and bc = urlsplit_chars [OF base(1)] and sc = urlsplit_chars [OF ref(1)]
  note rebuild = urlsplit_rebuild [where netloc_ok = netloc_ok, OF base(2,3) bc(3) bc(2) bc(4,5)]
  have "base \<noteq> []" using base(1,3) urlsplit_empty [of netloc_ok b] by auto
  have parsed: "urlparse netloc_ok [] base = Inr \<lparr>su_scheme = su_scheme b, su_netloc = su_netloc b, su_path = su_path b,
        su_query = su_query b, su_fragment = su_fragment b, pu_params = []\<rparr>"
      "urlparse netloc_ok (su_scheme b) ref = Inr \<lparr>su_scheme = su_scheme b, su_netloc = [], su_path = su_path s,
        su_query = su_query s, su_fragment = su_fragment s, pu_params = []\<rparr>"
    using base ref ws by (simp_all add: urlparse_def)
  show ?thesis
  proof (cases "ref = []")
    case True
    with \<open>base \<noteq> []\<close> have "urljoin netloc_ok base ref = Inr base" by (simp add: urljoin_def)
    moreover have "su_path s = []" using ref(1) True urlsplit_empty [of netloc_ok s] by simp
    ultimately show ?thesis using that [of base "su_path b" "su_query b" "su_fragment b"] base(1) by simp
  next
    case False
    show ?thesis
    proof (cases "su_path s = []")
      case True
      let ?q = "if su_query s = [] then su_query b else su_query s"
      have "urljoin netloc_ok base ref = Inr (urlunsplit (su_scheme b) (su_netloc b) (su_path b) ?q (su_fragment s))"
        using False True \<open>base \<noteq> []\<close> ws parsed by (simp add: urljoin_def urlunparse_def)
      then show ?thesis using that rebuild [of "su_path b" ?q "su_fragment s"] bc sc base(3) True by simp
    next
      case path: False
      let ?p = "join_path (su_path b) (su_path s)"
      have "urljoin netloc_ok base ref = Inr (urlunsplit (su_scheme b) (su_netloc b) (rooted ?p) (su_query s) (su_fragment s))"
        using False path \<open>base \<noteq> []\<close> ws parsed base(3) by (simp add: urljoin_def urlunparse_def urlunsplit_rooted [symmetric])
      moreover have "set (rooted ?p) \<subseteq> insert 47 (set (su_path b) \<union> set (su_path s))"
        using join_path_chars [of "su_path b" "su_path s"] by (auto simp: rooted_def)
      then have "no_break (rooted ?p)" "63 \<notin> set (rooted ?p)" "35 \<notin> set (rooted ?p)"
        using bc(6-8) sc(6-8) by (auto simp: no_break_def)
      moreover have "rooted ?p = [] \<or> hd (rooted ?p) = 47" by (simp add: rooted_def)
      ultimately show ?thesis using that rebuild [of "rooted ?p" "su_query s" "su_fragment s"] sc by simp
    qed
  qed
qed

text \<open>A URI that differs from a parsed one only behind the network location parses to the same server.\<close>

lemma parse_uri_same_server:
  assumes "parse_uri netloc_ok base = Inr u" "urlsplit netloc_ok base = Inr b"
    and "urlsplit netloc_ok r = Inr \<lparr>su_scheme = su_scheme b, su_netloc = su_netloc b, su_path = p, su_query = q, su_fragment = f\<rparr>"
  shows "parse_uri netloc_ok r = Inr (u\<lparr>wu_path := (if p = [] then [47] else p), wu_query := none_if_empty q,
    wu_fragment := none_if_empty f\<rparr>)"
  using assms by (auto simp: parse_uri_def bind_result_def Let_def split: if_splits option.splits sum.splits)

lemma parse_uri_split:
  assumes "parse_uri netloc_ok base = Inr u"
  obtains b where "urlsplit netloc_ok base = Inr b" "su_scheme b \<in> {WS, WSS}" "su_netloc b \<noteq> []"
proof -
  from assms obtain b where b: "urlsplit netloc_ok base = Inr b" "su_scheme b \<in> {WS, WSS}" "su_hostname (su_netloc b) \<noteq> None"
    by (auto simp: parse_uri_def bind_result_def Let_def split: if_splits option.splits sum.splits)
  then have "su_netloc b \<noteq> []" by (auto simp: su_hostname_def su_hostinfo_def rpartition_at_def partition_at_def)
  with b that show ?thesis by blast
qed

subsection \<open>Absolute paths\<close>

text \<open>A path without the segments \<^verbatim>\<open>.\<close> and \<^verbatim>\<open>..\<close>.\<close>

definition no_dots :: "pystr \<Rightarrow> bool" where
  "no_dots path \<longleftrightarrow> DOT \<notin> set (split_on [47] path) \<and> DOTDOT \<notin> set (split_on [47] path)"

lemma resolve_no_dots: "DOT \<notin> set segs \<Longrightarrow> DOTDOT \<notin> set segs \<Longrightarrow> resolve_segments r segs = r @ segs"
  by (induction segs arbitrary: r) auto

lemma join_path_absolute: "no_dots path \<Longrightarrow> path = 47 # p \<Longrightarrow> rooted (join_path bpath path) = path"
proof -
  assume p: "no_dots path" "path = 47 # p"
  have "split_on [47] path \<noteq> []" by (subst split_on.simps) (auto split: option.split)
  then have "last (split_on [47] path) \<notin> {DOT, DOTDOT}" using p(1) last_in_set by (fastforce simp: no_dots_def)
  with p resolve_no_dots [of "split_on [47] path" "[]"] join_split_on [of "[47]" path]
  show ?thesis by (simp add: join_path_def Let_def no_dots_def rooted_def)
qed

end
