(* ===== verification/Jet_Pool.thy ===== *)
theory Jet_Pool
  imports Jet_Exceptions Jet_State Jet_Stats Jet_Url_Join
begin

text \<open>
  The connection pool (\<^verbatim>\<open>src/jetsocket/pool.py\<close>).

  Pooled connection states are objects shared between the pool's dictionary and the wrappers
  handed out, so they live in a store \<^verbatim>\<open>pl_objs\<close> indexed by the number of their manager; the
  dictionary holds numbers. Of a manager the pool looks at its state and calls \<^verbatim>\<open>connect\<close> and
  \<^verbatim>\<open>close\<close>; \<^verbatim>\<open>pl_mstate\<close> holds the states, which may change at any time.

  An operation is split where it can be suspended: \<^verbatim>\<open>acquire\<close> where it waits for the semaphore
  (\<^verbatim>\<open>pl_waiting\<close> holds the URIs of the suspended calls) and where it waits for \<^verbatim>\<open>connect\<close>
  (\<^verbatim>\<open>pl_creating\<close>); \<^verbatim>\<open>release\<close> and the two background loops between deciding what to close
  (\<^verbatim>\<open>pl_doomed\<close>) and closing it; \<^verbatim>\<open>close\<close> between setting the flag and closing the connections.
  The closing of all connections by \<^verbatim>\<open>close\<close> is one step. The asyncio lock is otherwise only held
  around code that does not wait, so it needs no state.
\<close>

record pool_config =
  pg_max_connections :: int
  pg_max_idle_time :: pyfloat
  pg_health_check_interval :: pyfloat
  pg_acquire_timeout :: pyfloat

definition default_pool_config :: pool_config where
  "default_pool_config = \<lparr>pg_max_connections = 10, pg_max_idle_time = 300,
     pg_health_check_interval = 30, pg_acquire_timeout = 10\<rparr>"

definition pool_config_check :: "pool_config \<Rightarrow> exn + pool_config" where
  "pool_config_check c =
     (if pg_max_connections c \<le> 0 then Inl (ValueError ''max_connections must be positive'')
      else if pg_max_idle_time c \<le> 0 then Inl (ValueError ''max_idle_time must be positive'')
      else if pg_health_check_interval c \<le> 0 then Inl (ValueError ''health_check_interval must be positive'')
      else if pg_acquire_timeout c \<le> 0 then Inl (ValueError ''acquire_timeout must be positive'')
      else Inr c)"

subsection \<open>\<^verbatim>\<open>_PooledConnectionState\<close> and the wrapper\<close>

record pool_conn =
  pc_uri :: pystr
  pc_created_at :: pyfloat
  pc_last_used_at :: pyfloat
  pc_in_use :: bool

definition mark_used :: "pyfloat \<Rightarrow> pool_conn \<Rightarrow> pool_conn" where
  "mark_used now c = c\<lparr>pc_in_use := True, pc_last_used_at := now\<rparr>"

definition mark_released :: "pyfloat \<Rightarrow> pool_conn \<Rightarrow> pool_conn" where
  "mark_released now c = c\<lparr>pc_in_use := False, pc_last_used_at := now\<rparr>"

definition idle_time :: "pyfloat \<Rightarrow> pool_conn \<Rightarrow> pyfloat" where
  "idle_time now c = now - pc_last_used_at c"

text \<open>A \<^verbatim>\<open>PooledConnection\<close>: the connection it wraps and whether it has been released.\<close>

record pooled =
  ph_conn :: nat
  ph_released :: bool

record pool =
  pl_config :: pool_config
  pl_base_uri :: "pystr option"
  pl_connections :: "(pystr \<times> nat list) list"
  pl_connection_count :: nat
  pl_permits :: nat
  pl_closed :: bool
  pl_health_task :: bool
  pl_cleanup_task :: bool
  pl_objs :: "nat \<Rightarrow> pool_conn"
  pl_mstate :: "nat \<Rightarrow> conn_state"
  pl_next :: nat
  pl_handles :: "pooled list"
  pl_waiting :: "pystr list"
  pl_creating :: "pystr list"
  pl_doomed :: "nat list"

definition new_pool :: "pool_config option \<Rightarrow> pystr option \<Rightarrow> pool" where
  "new_pool config base_uri =
     (let c = (case config of Some c \<Rightarrow> c | None \<Rightarrow> default_pool_config)
      in \<lparr>pl_config = c, pl_base_uri = base_uri, pl_connections = [], pl_connection_count = 0,
          pl_permits = nat (pg_max_connections c), pl_closed = False, pl_health_task = False, pl_cleanup_task = False,
          pl_objs = (\<lambda>_. \<lparr>pc_uri = [], pc_created_at = 0, pc_last_used_at = 0, pc_in_use = False\<rparr>),
          pl_mstate = (\<lambda>_. IDLE), pl_next = 0, pl_handles = [],
          pl_waiting = [], pl_creating = [], pl_doomed = []\<rparr>)"

definition upd_conn :: "nat \<Rightarrow> (pool_conn \<Rightarrow> pool_conn) \<Rightarrow> pool \<Rightarrow> pool" where
  "upd_conn i g p = p\<lparr>pl_objs := (pl_objs p)(i := g (pl_objs p i))\<rparr>"

definition pool_ids :: "pool \<Rightarrow> nat list" where
  "pool_ids p = concat (map snd (pl_connections p))"

definition get_idle_connection :: "pystr \<Rightarrow> pool \<Rightarrow> nat option" where
  "get_idle_connection uri p =
     (case map_of (pl_connections p) uri of
        None \<Rightarrow> None
      | Some ids \<Rightarrow> find (\<lambda>i. \<not> pc_in_use (pl_objs p i)) ids)"

definition remove_connection :: "nat \<Rightarrow> pool \<Rightarrow> pool" where
  "remove_connection i p =
     (let uri = pc_uri (pl_objs p i) in
      case map_of (pl_connections p) uri of
        None \<Rightarrow> p
      | Some ids \<Rightarrow>
          if i \<in> set ids then
            (let ids' = remove1 i ids in
             p\<lparr>pl_connections := (if ids' = [] then filter (\<lambda>e. fst e \<noteq> uri) (pl_connections p)
                                  else dict_set uri ids' (pl_connections p))\<rparr>)
          else p)"

text \<open>\<^verbatim>\<open>_close_connection\<close>: \<^verbatim>\<open>manager.close()\<close> leaves a terminal manager as it is.\<close>

definition close_connection :: "nat \<Rightarrow> pool \<Rightarrow> pool" where
  "close_connection i p =
     p\<lparr>pl_mstate := (pl_mstate p)(i := (if is_terminal (pl_mstate p i) then pl_mstate p i else CLOSED))\<rparr>"

definition add_handle :: "nat \<Rightarrow> pool \<Rightarrow> pool" where
  "add_handle i p = p\<lparr>pl_handles := pl_handles p @ [\<lparr>ph_conn = i, ph_released = False\<rparr>]\<rparr>"

subsection \<open>\<^verbatim>\<open>acquire\<close>\<close>

definition resolve_uri :: "(pystr \<Rightarrow> bool) \<Rightarrow> pystr option \<Rightarrow> pystr \<Rightarrow> exn + pystr" where
  "resolve_uri netloc_ok base_uri uri_or_path =
     bind_result (urlparse netloc_ok [] uri_or_path) (\<lambda>parsed.
       if su_scheme parsed \<noteq> [] then Inr uri_or_path
       else case base_uri of
         None \<Rightarrow> Inl (ValueError ''Relative path requires base_uri to be set'')
       | Some base \<Rightarrow> urljoin netloc_ok base uri_or_path)"

definition acquire_begin :: "(pystr \<Rightarrow> bool) \<Rightarrow> pystr \<Rightarrow> pool \<Rightarrow> exn + pool" where
  "acquire_begin netloc_ok uri_or_path p =
     (if pl_closed p then Inl (PoolClosedError ''Pool has been closed'')
      else case resolve_uri netloc_ok (pl_base_uri p) uri_or_path of
        Inl e \<Rightarrow> Inl e
      | Inr full_uri \<Rightarrow> Inr (p\<lparr>pl_waiting := pl_waiting p @ [full_uri]\<rparr>))"

definition acquire_timed_out :: "pyfloat option \<Rightarrow> pystr \<Rightarrow> pool \<Rightarrow> exn \<times> pool" where
  "acquire_timed_out timeout uri p =
     (PoolExhaustedError ''Could not acquire connection'' (pg_max_connections (pl_config p))
        (case timeout of Some t \<Rightarrow> t | None \<Rightarrow> pg_acquire_timeout (pl_config p)),
      p\<lparr>pl_waiting := remove1 uri (pl_waiting p)\<rparr>)"

text \<open>
  The semaphore has been acquired (a permit was free). An idle connection that is still usable is
  handed out; a dead one is removed from the pool; otherwise a new connection is awaited.
\<close>

definition acquire_got :: "pyfloat \<Rightarrow> pystr \<Rightarrow> pool \<Rightarrow> pool" where
  "acquire_got now uri p =
     (let p1 = p\<lparr>pl_permits := pl_permits p - 1, pl_waiting := remove1 uri (pl_waiting p)\<rparr> in
      case get_idle_connection uri p1 of
        None \<Rightarrow> p1\<lparr>pl_creating := pl_creating p1 @ [uri]\<rparr>
      | Some i \<Rightarrow>
          if pl_mstate p1 i \<in> {CONNECTED, RECONNECTING, BACKING_OFF} then
            add_handle i (upd_conn i (mark_used now) p1)
          else (let p2 = remove_connection i p1 in p2\<lparr>pl_creating := pl_creating p2 @ [uri]\<rparr>))"

text \<open>\<^verbatim>\<open>_create_connection\<close> after \<^verbatim>\<open>manager.connect()\<close>, with the state the manager is in.\<close>

definition create_connection :: "pyfloat \<Rightarrow> conn_state \<Rightarrow> pystr \<Rightarrow> pool \<Rightarrow> nat \<times> pool" where
  "create_connection now st uri p =
     (let i = pl_next p;
          ids = (case map_of (pl_connections p) uri of None \<Rightarrow> [] | Some ids \<Rightarrow> ids)
      in (i, p\<lparr>pl_next := i + 1, pl_mstate := (pl_mstate p)(i := st),
               pl_objs := (pl_objs p)(i := \<lparr>pc_uri = uri, pc_created_at = now, pc_last_used_at = now, pc_in_use = False\<rparr>),
               pl_connections := dict_set uri (ids @ [i]) (pl_connections p),
               pl_connection_count := pl_connection_count p + 1\<rparr>))"

definition acquire_created :: "pyfloat \<Rightarrow> conn_state \<Rightarrow> pystr \<Rightarrow> pool \<Rightarrow> pool" where
  "acquire_created now st uri p =
     (let (i, p1) = create_connection now st uri (p\<lparr>pl_creating := remove1 uri (pl_creating p)\<rparr>)
      in add_handle i (upd_conn i (mark_used now) p1))"

definition acquire_failed :: "pystr \<Rightarrow> pool \<Rightarrow> pool" where
  "acquire_failed uri p = p\<lparr>pl_creating := remove1 uri (pl_creating p), pl_permits := pl_permits p + 1\<rparr>"

text \<open>
  A task cancelled while it waits for \<^verbatim>\<open>connect\<close>: \<^verbatim>\<open>CancelledError\<close> is not an \<^verbatim>\<open>Exception\<close>, so the
  handler that gives the permit back does not run.
\<close>

definition acquire_cancelled :: "pystr \<Rightarrow> pool \<Rightarrow> pool" where
  "acquire_cancelled uri p = p\<lparr>pl_creating := remove1 uri (pl_creating p)\<rparr>"

subsection \<open>\<^verbatim>\<open>release\<close>, \<^verbatim>\<open>close\<close> and the background loops\<close>

text \<open>
  \<^verbatim>\<open>ConnectionPool.release\<close>, which does not look at the wrapper's flag. A connection to be closed
  is left in \<^verbatim>\<open>pl_doomed\<close>; \<^verbatim>\<open>evict\<close> below is the rest of the call.
\<close>

definition pool_release :: "pyfloat \<Rightarrow> nat \<Rightarrow> pool \<Rightarrow> pool" where
  "pool_release now i p =
     (let p1 = upd_conn i (mark_released now) p;
          p2 = p1\<lparr>pl_permits := pl_permits p1 + 1\<rparr>
      in if pl_closed p2 \<or> is_terminal (pl_mstate p2 i) then p2\<lparr>pl_doomed := pl_doomed p2 @ [i]\<rparr> else p2)"

text \<open>\<^verbatim>\<open>PooledConnection.release\<close> on the wrapper number \<^verbatim>\<open>h\<close>.\<close>

definition conn_release :: "pyfloat \<Rightarrow> nat \<Rightarrow> pool \<Rightarrow> pool" where
  "conn_release now h p =
     (let c = pl_handles p ! h in
      if ph_released c then p
      else pool_release now (ph_conn c) (p\<lparr>pl_handles := (pl_handles p)[h := c\<lparr>ph_released := True\<rparr>]\<rparr>))"

text \<open>\<^verbatim>\<open>send\<close>, \<^verbatim>\<open>send_raw\<close> and \<^verbatim>\<open>recv\<close> of the wrapper start with this check.\<close>

definition conn_check :: "pooled \<Rightarrow> exn + nat" where
  "conn_check c =
     (if ph_released c then Inl (InvalidStateError ''Connection has been released'' ''released'' [''active''])
      else Inr (ph_conn c))"

text \<open>The context manager of a wrapper gives it back; that of the pool starts the two loops.\<close>

definition conn_exit :: "pyfloat \<Rightarrow> nat \<Rightarrow> pool \<Rightarrow> pool" where
  "conn_exit now h p = conn_release now h p"

definition pool_enter :: "pool \<Rightarrow> pool" where
  "pool_enter p = p\<lparr>pl_health_task := True, pl_cleanup_task := True\<rparr>"

text \<open>
  \<^verbatim>\<open>close\<close> sets the flag and cancels the two loops, which then close nothing more (what a
  suspended \<^verbatim>\<open>release\<close> is about to close stays doomed; the model keeps both). It then closes and
  forgets every connection of the dictionary.
\<close>

definition pool_close_begin :: "pool \<Rightarrow> pool" where
  "pool_close_begin p = p\<lparr>pl_closed := True, pl_health_task := False, pl_cleanup_task := False\<rparr>"

definition pool_close_end :: "pool \<Rightarrow> pool" where
  "pool_close_end p =
     (fold close_connection (pool_ids p) p)\<lparr>pl_connections := []\<rparr>"

definition health_check_collect :: "pool \<Rightarrow> nat list" where
  "health_check_collect p =
     filter (\<lambda>i. \<not> pc_in_use (pl_objs p i) \<and> is_terminal (pl_mstate p i)) (pool_ids p)"

definition cleanup_collect :: "pyfloat \<Rightarrow> pool \<Rightarrow> nat list" where
  "cleanup_collect now p =
     filter (\<lambda>i. \<not> pc_in_use (pl_objs p i) \<and> idle_time now (pl_objs p i) > pg_max_idle_time (pl_config p))
       (pool_ids p)"

text \<open>The body of both loops' second half, for one collected connection.\<close>

definition evict :: "nat \<Rightarrow> pool \<Rightarrow> pool" where
  "evict i p = remove_connection i (close_connection i (p\<lparr>pl_doomed := remove1 i (pl_doomed p)\<rparr>))"

text \<open>\<^verbatim>\<open>stats\<close>: the pool's own figures and the sums over its managers.\<close>

record pool_stats =
  ps_total_connections :: nat
  ps_active_connections :: nat
  ps_idle_connections :: nat
  ps_total_messages_sent :: nat
  ps_total_messages_received :: nat
  ps_total_reconnects :: nat

text \<open>\<^verbatim>\<open>mstats i\<close> is what \<^verbatim>\<open>manager.stats()\<close> returns for the \<^verbatim>\<open>i\<close>-th manager.\<close>

definition pool_get_stats :: "(nat \<Rightarrow> connection_stats) \<Rightarrow> pool \<Rightarrow> pool_stats" where
  "pool_get_stats mstats p =
     (let ids = pool_ids p
      in \<lparr>ps_total_connections = pl_connection_count p,
          ps_active_connections = length (filter (\<lambda>i. pc_in_use (pl_objs p i)) ids),
          ps_idle_connections = length (filter (\<lambda>i. \<not> pc_in_use (pl_objs p i)) ids),
          ps_total_messages_sent = sum_list (map (\<lambda>i. cs_messages_sent (mstats i)) ids),
          ps_total_messages_received = sum_list (map (\<lambda>i. cs_messages_received (mstats i)) ids),
          ps_total_reconnects = sum_list (map (\<lambda>i. cs_reconnect_count (mstats i)) ids)\<rparr>)"

subsection \<open>Which URI is asked for\<close>

lemma urlparse_scheme:
  assumes "urlsplit netloc_ok s = Inr p"
  obtains q where "urlparse netloc_ok d s = Inr q" "su_scheme q = (if su_scheme p = [] then d else su_scheme p)"
  using assms by (auto simp: urlparse_def Let_def split_beta)

lemma resolve_full: "urlsplit netloc_ok ref = Inr s \<Longrightarrow> su_scheme s \<noteq> [] \<Longrightarrow> resolve_uri netloc_ok base ref = Inr ref"
  by (erule urlparse_scheme [where d = "[]"]) (simp add: resolve_uri_def)

lemma resolve_relative:
  "urlsplit netloc_ok ref = Inr s \<Longrightarrow> su_scheme s = [] \<Longrightarrow> resolve_uri netloc_ok (Some base) ref = urljoin netloc_ok base ref"
  by (erule urlparse_scheme [where d = "[]"]) (simp add: resolve_uri_def)

lemma resolve_without_base:
  "urlsplit netloc_ok ref = Inr s \<Longrightarrow> su_scheme s = []
    \<Longrightarrow> resolve_uri netloc_ok None ref = Inl (ValueError ''Relative path requires base_uri to be set'')"
  by (erule urlparse_scheme [where d = "[]"]) (simp add: resolve_uri_def)

text \<open>
  C34. A relative reference never leads away from the pool's server: whatever path, query, fragment
  and dot segments it has, \<^verbatim>\<open>_resolve_uri\<close> returns a URI that parses to the scheme, host, port and
  user information of \<^verbatim>\<open>base_uri\<close>.
\<close>

theorem relative_reference_keeps_server:
  assumes "parse_uri netloc_ok base = Inr u"
    and "urlsplit netloc_ok ref = Inr s" and "su_scheme s = []" and "su_netloc s = []"
  shows "\<exists>r p q f. resolve_uri netloc_ok (Some base) ref = Inr r
     \<and> parse_uri netloc_ok r = Inr (u\<lparr>wu_path := p, wu_query := q, wu_fragment := f\<rparr>)"
proof -
  obtain b where b: "urlsplit netloc_ok base = Inr b" "su_scheme b \<in> {WS, WSS}" "su_netloc b \<noteq> []"
    using parse_uri_split [OF assms(1)] .
  obtain r p q f where r: "urljoin netloc_ok base ref = Inr r" and split: "urlsplit netloc_ok r
      = Inr \<lparr>su_scheme = su_scheme b, su_netloc = su_netloc b, su_path = p, su_query = q, su_fragment = f\<rparr>"
    using urljoin_keeps_server [OF b assms(2-4)] by metis
  from parse_uri_same_server [OF assms(1) b(1) split] r resolve_relative [OF assms(2,3)] show ?thesis by auto
qed

theorem relative_reference_keeps_server_witness:
  "\<exists>r p q f. resolve_uri (\<lambda>_. False) (Some (lit ''WSS://me:pw@Example.com:8080/ws?token=abc'')) (lit ''../feed?x=1'') = Inr r
     \<and> parse_uri (\<lambda>_. False) r = Inr (sample_uri\<lparr>wu_path := p, wu_query := q, wu_fragment := f\<rparr>)"
proof -
  have s: "urlsplit (\<lambda>_. False) (lit ''../feed?x=1'') = Inr \<lparr>su_scheme = [], su_netloc = [], su_path = lit ''../feed'',
      su_query = lit ''x=1'', su_fragment = []\<rparr>"
    by (simp add: parsing_defs)
  from relative_reference_keeps_server [OF sample_uri_parsed s] show ?thesis by simp
qed

text \<open>
  An absolute path takes the place of the path of \<^verbatim>\<open>base_uri\<close> and drops its query: it is not appended.
\<close>

lemma urlsplit_path:
  assumes "no_break path" "path = 47 # p" "take 1 p \<noteq> [47]" "63 \<notin> set path" "35 \<notin> set path"
  shows "urlsplit netloc_ok path = Inr \<lparr>su_scheme = [], su_netloc = [], su_path = path, su_query = [], su_fragment = []\<rparr>"
proof -
  have "clean_url path = path" using assms(1,2) clean_url_id by simp
  moreover have "split_scheme path = ([], path)"
    using assms(2) by (simp add: split_scheme_def partition_at_def is_alpha_def)
  moreover have "split_netloc path = ([], path)" using assms(2,3) by (cases p) (auto simp: split_netloc_def)
  moreover have "split_rest path = (path, [], [])" using assms(4,5) by (simp add: split_rest_def partition_at_absent)
  ultimately show ?thesis by (simp add: urlsplit_def is_ascii_def)
qed

theorem absolute_path_replaces_base_path:
  assumes "parse_uri netloc_ok base = Inr u" and "no_break path" and "path = 47 # p" and "take 1 p \<noteq> [47]"
    and "63 \<notin> set path" and "35 \<notin> set path" and "no_dots path"
  shows "\<exists>r. resolve_uri netloc_ok (Some base) path = Inr r
     \<and> parse_uri netloc_ok r = Inr (u\<lparr>wu_path := path, wu_query := None, wu_fragment := None\<rparr>)"
proof -
  note s = urlsplit_path [OF assms(2-6), of netloc_ok]
  obtain b where b: "urlsplit netloc_ok base = Inr b" "su_scheme b \<in> {WS, WSS}" "su_netloc b \<noteq> []"
    using parse_uri_split [OF assms(1)] .
  obtain r where r: "urljoin netloc_ok base path = Inr r" and split: "urlsplit netloc_ok r
      = Inr \<lparr>su_scheme = su_scheme b, su_netloc = su_netloc b, su_path = path, su_query = [], su_fragment = []\<rparr>"
    using urljoin_keeps_server [OF b s] join_path_absolute [OF assms(7,3)] assms(3) by auto
  from parse_uri_same_server [OF assms(1) b(1) split] r resolve_relative [OF s] assms(3) show ?thesis
    by (simp add: none_if_empty_def)
qed

text \<open>A host with a port but no scheme passes for a full URI, whose scheme is the host.\<close>

theorem host_and_port_taken_for_scheme:
  "resolve_uri netloc_ok base (lit ''localhost:8080/ws'') = Inr (lit ''localhost:8080/ws'')
   \<and> parse_uri netloc_ok (lit ''localhost:8080/ws'') = Inl (ValueError ''Invalid WebSocket scheme'')"
proof -
  have s: "urlsplit netloc_ok (lit ''localhost:8080/ws'') = Inr \<lparr>su_scheme = lit ''localhost'', su_netloc = [],
      su_path = lit ''8080/ws'', su_query = [], su_fragment = []\<rparr>"
    by (simp add: parsing_defs)
  then show ?thesis using resolve_full [OF s] by (simp add: parse_uri_def WS_def WSS_def)
qed

subsection \<open>Interleavings\<close>

text \<open>
  Any task may run between two suspension points; a manager may change its state at any time.
\<close>

inductive pool_step :: "pool \<Rightarrow> pool \<Rightarrow> bool" where
  acquire: "acquire_begin netloc_ok uri_or_path p = Inr p' \<Longrightarrow> pool_step p p'"
| timed_out: "uri \<in> set (pl_waiting p) \<Longrightarrow> pool_step p (snd (acquire_timed_out timeout uri p))"
| got: "uri \<in> set (pl_waiting p) \<Longrightarrow> 0 < pl_permits p \<Longrightarrow> pool_step p (acquire_got now uri p)"
| created: "uri \<in> set (pl_creating p) \<Longrightarrow> pool_step p (acquire_created now st uri p)"
| failed: "uri \<in> set (pl_creating p) \<Longrightarrow> pool_step p (acquire_failed uri p)"
| cancelled: "uri \<in> set (pl_creating p) \<Longrightarrow> pool_step p (acquire_cancelled uri p)"
| release: "h < length (pl_handles p) \<Longrightarrow> pool_step p (conn_release now h p)"
| enters: "pool_step p (pool_enter p)"
| health: "\<not> pl_closed p \<Longrightarrow> pl_health_task p \<Longrightarrow> pool_step p (p\<lparr>pl_doomed := pl_doomed p @ health_check_collect p\<rparr>)"
| cleanup: "\<not> pl_closed p \<Longrightarrow> pl_cleanup_task p \<Longrightarrow> pool_step p (p\<lparr>pl_doomed := pl_doomed p @ cleanup_collect now p\<rparr>)"
| evicts: "i \<in> set (pl_doomed p) \<Longrightarrow> pool_step p (evict i p)"
| closing: "pool_step p (pool_close_begin p)"
| closes: "pl_closed p \<Longrightarrow> pool_step p (pool_close_end p)"
| manager: "pool_step p (p\<lparr>pl_mstate := (pl_mstate p)(i := st)\<rparr>)"

inductive pool_reachable :: "pool_config \<Rightarrow> pool \<Rightarrow> bool" for c where
  start: "pool_reachable c (new_pool (Some c) base_uri)"
| next_step: "pool_reachable c p \<Longrightarrow> pool_step p p' \<Longrightarrow> pool_reachable c p'"

subsection \<open>Well-formedness and its preservation\<close>

definition live_conns :: "pool \<Rightarrow> nat list" where
  "live_conns p = map ph_conn (filter (\<lambda>h. \<not> ph_released h) (pl_handles p))"

definition dict_wf :: "(nat \<Rightarrow> pool_conn) \<Rightarrow> nat \<Rightarrow> (pystr \<times> nat list) list \<Rightarrow> bool" where
  "dict_wf objs n d \<longleftrightarrow> distinct (map fst d)
     \<and> (\<forall>(uri, ids) \<in> set d. distinct ids \<and> (\<forall>i \<in> set ids. pc_uri (objs i) = uri \<and> i < n))"

definition handles_wf :: "pool \<Rightarrow> bool" where
  "handles_wf p \<longleftrightarrow> distinct (live_conns p) \<and> (\<forall>i \<in> set (live_conns p). i < pl_next p)
     \<and> (\<forall>i. pc_in_use (pl_objs p i) \<longleftrightarrow> i \<in> set (live_conns p))"

definition permits_wf :: "pool \<Rightarrow> bool" where
  "permits_wf p \<longleftrightarrow> pl_permits p + length (live_conns p) + length (pl_creating p)
     \<le> nat (pg_max_connections (pl_config p))"

definition pool_wf :: "pool \<Rightarrow> bool" where
  "pool_wf p \<longleftrightarrow> dict_wf (pl_objs p) (pl_next p) (pl_connections p) \<and> handles_wf p \<and> permits_wf p"

lemma dict_wf_dict_set:
  assumes "dict_wf objs n d" "distinct ids" "\<And>i. i \<in> set ids \<Longrightarrow> pc_uri (objs i) = uri \<and> i < n"
  shows "dict_wf objs n (dict_set uri ids d)"
  using assms by (auto simp: dict_wf_def dict_set_distinct set_dict_set)

lemma dict_wf_filter: "dict_wf objs n d \<Longrightarrow> dict_wf objs n (filter P d)"
  by (auto simp: dict_wf_def distinct_map_filter)

lemma dict_wf_lookup:
  assumes "dict_wf objs n d" "map_of d uri = Some ids"
  shows "distinct ids" and "i \<in> set ids \<Longrightarrow> pc_uri (objs i) = uri \<and> i < n"
  using assms map_of_SomeD [OF assms(2)] by (auto simp: dict_wf_def)

lemma dict_wf_weaken:
  assumes "dict_wf objs n d" "n \<le> n'" "\<And>i. i < n \<Longrightarrow> pc_uri (objs' i) = pc_uri (objs i)"
  shows "dict_wf objs' n' d"
  using assms by (fastforce simp: dict_wf_def)

lemma dict_wf_remove:
  assumes "dict_wf (pl_objs p) n (pl_connections p)"
  shows "dict_wf (pl_objs p) n (pl_connections (remove_connection i p))"
proof (cases "map_of (pl_connections p) (pc_uri (pl_objs p i))")
  case None
  then show ?thesis using assms by (simp add: remove_connection_def)
next
  case (Some ids)
  note ids = dict_wf_lookup [OF assms Some]
  have "dict_wf (pl_objs p) n (dict_set (pc_uri (pl_objs p i)) (remove1 i ids) (pl_connections p))"
    by (rule dict_wf_dict_set [OF assms]) (use ids notin_set_remove1 in \<open>auto intro: distinct_remove1\<close>)
  with Some assms show ?thesis by (simp add: remove_connection_def Let_def dict_wf_filter)
qed

lemma pool_ids_distinct: "dict_wf (pl_objs p) n (pl_connections p) \<Longrightarrow> distinct (pool_ids p)"
proof -
  have "dict_wf objs n d \<Longrightarrow> distinct (concat (map snd d))" for objs n and d :: "(pystr \<times> nat list) list"
  proof (induction d)
    case (Cons e d)
    then have "dict_wf objs n d" and "fst e \<notin> fst ` set d" by (auto simp: dict_wf_def)
    with Cons show ?case by (force simp: dict_wf_def image_iff)
  qed simp
  then show "dict_wf (pl_objs p) n (pl_connections p) \<Longrightarrow> distinct (pool_ids p)" by (simp add: pool_ids_def)
qed

text \<open>What an operation leaves alone; removing and closing touch the dictionary and the managers only.\<close>

lemma remove_connection_frame [simp]:
  "pl_objs (remove_connection i p) = pl_objs p" "pl_next (remove_connection i p) = pl_next p"
  "pl_permits (remove_connection i p) = pl_permits p" "pl_handles (remove_connection i p) = pl_handles p"
  "pl_creating (remove_connection i p) = pl_creating p" "pl_waiting (remove_connection i p) = pl_waiting p"
  "pl_config (remove_connection i p) = pl_config p" "pl_closed (remove_connection i p) = pl_closed p"
  by (simp_all add: remove_connection_def Let_def split: option.split)

lemma close_connections_frame [simp]:
  "pl_objs (fold close_connection is p) = pl_objs p" "pl_next (fold close_connection is p) = pl_next p"
  "pl_permits (fold close_connection is p) = pl_permits p" "pl_handles (fold close_connection is p) = pl_handles p"
  "pl_creating (fold close_connection is p) = pl_creating p" "pl_config (fold close_connection is p) = pl_config p"
  by (induction "is" arbitrary: p) (simp_all add: close_connection_def)

lemma pool_wf_cong:
  assumes "pl_objs p' = pl_objs p" "pl_next p' = pl_next p" "pl_permits p' = pl_permits p"
    "pl_handles p' = pl_handles p" "pl_creating p' = pl_creating p" "pl_config p' = pl_config p"
    "dict_wf (pl_objs p) (pl_next p) (pl_connections p')" "pool_wf p"
  shows "pool_wf p'"
  using assms by (simp add: pool_wf_def handles_wf_def permits_wf_def live_conns_def)

lemma pool_wf_new: "pool_wf (new_pool (Some c) base_uri)"
  by (simp add: pool_wf_def new_pool_def dict_wf_def handles_wf_def permits_wf_def live_conns_def)

lemma live_conns_add [simp]: "live_conns (add_handle i p) = live_conns p @ [i]"
  by (simp add: live_conns_def add_handle_def)

lemma live_conns_upd [simp]: "live_conns (upd_conn i g p) = live_conns p"
  by (simp add: live_conns_def upd_conn_def)

lemma add_handle_frame [simp]:
  "pl_objs (add_handle i p) = pl_objs p" "pl_next (add_handle i p) = pl_next p"
  "pl_permits (add_handle i p) = pl_permits p" "pl_creating (add_handle i p) = pl_creating p"
  "pl_connections (add_handle i p) = pl_connections p" "pl_config (add_handle i p) = pl_config p"
  by (simp_all add: add_handle_def)

lemma upd_conn_frame [simp]:
  "pl_objs (upd_conn i g p) = (pl_objs p)(i := g (pl_objs p i))" "pl_next (upd_conn i g p) = pl_next p"
  "pl_permits (upd_conn i g p) = pl_permits p" "pl_creating (upd_conn i g p) = pl_creating p"
  "pl_connections (upd_conn i g p) = pl_connections p" "pl_config (upd_conn i g p) = pl_config p"
  "pl_handles (upd_conn i g p) = pl_handles p" "pl_closed (upd_conn i g p) = pl_closed p"
  "pl_mstate (upd_conn i g p) = pl_mstate p" "pl_doomed (upd_conn i g p) = pl_doomed p"
  by (simp_all add: upd_conn_def)

lemma hand_out_wf:
  assumes wf: "pool_wf p" and i: "i < pl_next p" "\<not> pc_in_use (pl_objs p i)"
    and room: "pl_permits p + length (live_conns p) + length (pl_creating p) < nat (pg_max_connections (pl_config p))"
  shows "pool_wf (add_handle i (upd_conn i (mark_used now) p))"
proof -
  have "dict_wf ((pl_objs p)(i := mark_used now (pl_objs p i))) (pl_next p) (pl_connections p)"
    using wf by (auto simp: pool_wf_def mark_used_def elim: dict_wf_weaken)
  then show ?thesis
    using assms by (auto simp: pool_wf_def handles_wf_def permits_wf_def mark_used_def)
qed

lemma get_idle_connection_wf:
  assumes "pool_wf p" "get_idle_connection uri p = Some i"
  shows "i < pl_next p" "\<not> pc_in_use (pl_objs p i)" "pc_uri (pl_objs p i) = uri"
proof -
  obtain ids where ids: "map_of (pl_connections p) uri = Some ids" and "find (\<lambda>i. \<not> pc_in_use (pl_objs p i)) ids = Some i"
    using assms(2) by (auto simp: get_idle_connection_def split: option.splits)
  then have "i \<in> set ids" "\<not> pc_in_use (pl_objs p i)" by (auto simp: find_Some_iff)
  then show "i < pl_next p" "\<not> pc_in_use (pl_objs p i)" "pc_uri (pl_objs p i) = uri"
    using dict_wf_lookup(2) [OF _ ids] assms(1) by (auto simp: pool_wf_def)
qed

lemma take_permit_wf:
  fixes uri :: pystr
  assumes "pool_wf p" "0 < pl_permits p"
  defines "q \<equiv> p\<lparr>pl_permits := pl_permits p - 1, pl_waiting := remove1 uri (pl_waiting p)\<rparr>"
  shows "pool_wf q"
    and "pl_permits q + length (live_conns q) + length (pl_creating q) < nat (pg_max_connections (pl_config q))"
  using assms by (auto simp: pool_wf_def handles_wf_def permits_wf_def live_conns_def)

lemma start_creating_wf:
  assumes "pool_wf p" "pl_permits p + length (live_conns p) + length (pl_creating p) < nat (pg_max_connections (pl_config p))"
  shows "pool_wf (p\<lparr>pl_creating := pl_creating p @ [uri]\<rparr>)"
  using assms by (simp add: pool_wf_def handles_wf_def permits_wf_def live_conns_def)

lemma remove_connection_wf: "pool_wf p \<Longrightarrow> pool_wf (remove_connection i p)"
  by (rule pool_wf_cong [of _ p]) (simp_all add: dict_wf_remove pool_wf_def)

lemma live_conns_remove [simp]: "live_conns (remove_connection i p) = live_conns p"
  by (simp add: live_conns_def)

lemma acquire_got_wf:
  assumes "pool_wf p" "0 < pl_permits p"
  shows "pool_wf (acquire_got now uri p)"
proof -
  let ?q = "p\<lparr>pl_permits := pl_permits p - 1, pl_waiting := remove1 uri (pl_waiting p)\<rparr>"
  note q = take_permit_wf [OF assms, of uri]
  show ?thesis
  proof (cases "get_idle_connection uri ?q")
    case None
    then show ?thesis using start_creating_wf [OF q] by (simp add: acquire_got_def)
  next
    case (Some i)
    note idle = get_idle_connection_wf [OF q(1) Some]
    show ?thesis
    proof (cases "pl_mstate p i \<in> {CONNECTED, RECONNECTING, BACKING_OFF}")
      case True
      then show ?thesis using Some hand_out_wf [OF q(1) idle(1,2) q(2), of now] by (simp add: acquire_got_def Let_def)
    next
      case False
      then show ?thesis
        using Some start_creating_wf [OF remove_connection_wf [OF q(1)], of i uri] q(2)
        by (simp add: acquire_got_def Let_def)
    qed
  qed
qed

lemma create_connection_wf:
  assumes wf: "pool_wf p" and c: "create_connection now st uri p = (i, p')"
  shows "pool_wf p'" "i < pl_next p'" "\<not> pc_in_use (pl_objs p' i)"
    "pl_permits p' = pl_permits p" "live_conns p' = live_conns p" "pl_creating p' = pl_creating p" "pl_config p' = pl_config p"
proof -
  let ?ids = "case map_of (pl_connections p) uri of None \<Rightarrow> [] | Some ids \<Rightarrow> ids"
  let ?objs = "(pl_objs p)(pl_next p := \<lparr>pc_uri = uri, pc_created_at = now, pc_last_used_at = now, pc_in_use = False\<rparr>)"
  have p': "i = pl_next p" "p' = p\<lparr>pl_next := pl_next p + 1, pl_mstate := (pl_mstate p)(pl_next p := st), pl_objs := ?objs,
      pl_connections := dict_set uri (?ids @ [pl_next p]) (pl_connections p), pl_connection_count := pl_connection_count p + 1\<rparr>"
    using c by (auto simp: create_connection_def Let_def)
  have dict: "dict_wf (pl_objs p) (pl_next p) (pl_connections p)" and h: "handles_wf p"
    using wf by (simp_all add: pool_wf_def)
  have "distinct ?ids \<and> (\<forall>i \<in> set ?ids. pc_uri (pl_objs p i) = uri \<and> i < pl_next p)"
    using dict_wf_lookup [OF dict, of uri] by (simp split: option.split)
  then have "dict_wf ?objs (pl_next p + 1) (dict_set uri (?ids @ [pl_next p]) (pl_connections p))"
    by (intro dict_wf_dict_set dict_wf_weaken [OF dict]) (auto simp: less_Suc_eq)
  moreover have "pl_next p \<notin> set (live_conns p)" using h by (auto simp: handles_wf_def)
  ultimately show "pool_wf p'"
    using wf by (auto simp: p' pool_wf_def handles_wf_def permits_wf_def live_conns_def less_Suc_eq)
qed (use c in \<open>auto simp: create_connection_def Let_def live_conns_def\<close>)

lemma forget_creating_wf:
  assumes "pool_wf p" "uri \<in> set (pl_creating p)"
  defines "q \<equiv> p\<lparr>pl_creating := remove1 uri (pl_creating p)\<rparr>"
  shows "pool_wf q"
    and "pl_permits q + length (live_conns q) + length (pl_creating q) < nat (pg_max_connections (pl_config q))"
proof -
  have "length (remove1 uri (pl_creating p)) < length (pl_creating p)"
    using assms(2) by (simp add: length_remove1) (metis diff_Suc_less length_pos_if_in_set One_nat_def)
  then show "pool_wf q"
    and "pl_permits q + length (live_conns q) + length (pl_creating q) < nat (pg_max_connections (pl_config q))"
    using assms by (auto simp: pool_wf_def handles_wf_def permits_wf_def live_conns_def)
qed

lemma acquire_created_wf:
  assumes "pool_wf p" "uri \<in> set (pl_creating p)"
  shows "pool_wf (acquire_created now st uri p)"
proof -
  let ?q = "p\<lparr>pl_creating := remove1 uri (pl_creating p)\<rparr>"
  note q = forget_creating_wf [OF assms]
  obtain i p' where c: "create_connection now st uri ?q = (i, p')" by fastforce
  note new = create_connection_wf [OF q(1) c]
  have "pool_wf (add_handle i (upd_conn i (mark_used now) p'))"
    by (rule hand_out_wf [OF new(1-3)]) (use q(2) new(4-7) in simp)
  then show ?thesis by (simp add: acquire_created_def c)
qed

lemma acquire_failed_wf:
  assumes "pool_wf p" "uri \<in> set (pl_creating p)"
  shows "pool_wf (acquire_failed uri p)"
  using forget_creating_wf [OF assms]
  by (simp add: acquire_failed_def pool_wf_def handles_wf_def permits_wf_def live_conns_def)

lemma live_conns_release:
  assumes "h < length hs" "\<not> ph_released (hs ! h)" "distinct (map ph_conn (filter (\<lambda>h. \<not> ph_released h) hs))"
  defines "ls \<equiv> map ph_conn (filter (\<lambda>h. \<not> ph_released h) hs)"
    and "ls' \<equiv> map ph_conn (filter (\<lambda>h. \<not> ph_released h) (hs[h := (hs ! h)\<lparr>ph_released := True\<rparr>]))"
  shows "distinct ls'" "set ls' = set ls - {ph_conn (hs ! h)}" "length ls = Suc (length ls')"
proof -
  have hs: "hs = take h hs @ hs ! h # drop (Suc h) hs" using assms(1) by (rule id_take_nth_drop)
  let ?f = "\<lambda>hs. map ph_conn (filter (\<lambda>h. \<not> ph_released h) hs)"
  have "ls = ?f (take h hs) @ ph_conn (hs ! h) # ?f (drop (Suc h) hs)"
    unfolding ls_def by (subst hs) (simp add: assms(2) del: append_take_drop_id)
  moreover have "ls' = ?f (take h hs) @ ?f (drop (Suc h) hs)"
    unfolding ls'_def using assms(1) by (simp add: upd_conv_take_nth_drop)
  ultimately show "distinct ls'" "set ls' = set ls - {ph_conn (hs ! h)}" "length ls = Suc (length ls')"
    using assms(3) unfolding ls_def [symmetric] by auto
qed

lemma conn_release_wf:
  assumes wf: "pool_wf p" and h: "h < length (pl_handles p)"
  shows "pool_wf (conn_release now h p)"
proof (cases "ph_released (pl_handles p ! h)")
  case False
  let ?i = "ph_conn (pl_handles p ! h)"
  have "distinct (map ph_conn (filter (\<lambda>h. \<not> ph_released h) (pl_handles p)))"
    using wf by (simp add: pool_wf_def handles_wf_def live_conns_def)
  note ls = live_conns_release [OF h False this, folded live_conns_def]
  have "dict_wf ((pl_objs p)(?i := mark_released now (pl_objs p ?i))) (pl_next p) (pl_connections p)"
    using wf by (auto simp: pool_wf_def mark_released_def elim: dict_wf_weaken)
  moreover define q where "q = conn_release now h p"
  have live: "live_conns q = map ph_conn (filter (\<lambda>h. \<not> ph_released h) ((pl_handles p)[h := (pl_handles p ! h)\<lparr>ph_released := True\<rparr>]))"
    and q: "pl_objs q = (pl_objs p)(?i := mark_released now (pl_objs p ?i))" "pl_next q = pl_next p"
      "pl_connections q = pl_connections p" "pl_permits q = Suc (pl_permits p)" "pl_creating q = pl_creating p"
      "pl_config q = pl_config p"
    using False by (simp_all add: q_def conn_release_def pool_release_def Let_def live_conns_def)
  have "distinct (live_conns q)" "set (live_conns q) = set (live_conns p) - {?i}" "length (live_conns p) = Suc (length (live_conns q))"
    using ls unfolding live by auto
  ultimately have "pool_wf q"
    using wf by (auto simp: pool_wf_def handles_wf_def permits_wf_def q mark_released_def)
  then show ?thesis by (simp add: q_def)
qed (simp add: conn_release_def wf)

lemma evict_wf: "pool_wf p \<Longrightarrow> pool_wf (evict i p)"
  unfolding evict_def
  by (rule remove_connection_wf, rule pool_wf_cong [of _ p]) (simp_all add: close_connection_def pool_wf_def)

lemma pool_wf_irrelevant [simp]:
  "pool_wf (p\<lparr>pl_waiting := us\<rparr>) = pool_wf p" "pool_wf (p\<lparr>pl_doomed := ds\<rparr>) = pool_wf p"
  "pool_wf (p\<lparr>pl_mstate := m\<rparr>) = pool_wf p" "pool_wf (p\<lparr>pl_closed := b\<rparr>) = pool_wf p"
  "pool_wf (p\<lparr>pl_health_task := b\<rparr>) = pool_wf p" "pool_wf (p\<lparr>pl_cleanup_task := b\<rparr>) = pool_wf p"
  by (simp_all add: pool_wf_def handles_wf_def permits_wf_def live_conns_def)

lemma pool_step_wf: "pool_step p p' \<Longrightarrow> pool_wf p \<Longrightarrow> pool_wf p'"
proof (induction rule: pool_step.induct)
  case (acquire netloc_ok uri p p')
  then show ?case
    by (auto simp: acquire_begin_def split: if_splits sum.splits)
next
  case (closes p)
  then show ?case by (intro pool_wf_cong [of "pool_close_end p" p]) (simp_all add: pool_close_end_def dict_wf_def)
next
  case (cancelled uri p)
  then show ?case using forget_creating_wf(1) by (simp add: acquire_cancelled_def)
qed (simp_all add: acquire_got_wf acquire_created_wf acquire_failed_wf conn_release_wf evict_wf acquire_timed_out_def
      pool_close_begin_def pool_enter_def)

lemma pool_reachable_wf: "pool_reachable c p \<Longrightarrow> pool_wf p"
  by (induction rule: pool_reachable.induct) (auto simp: pool_wf_new pool_step_wf)

lemma pool_step_config: "pool_step p p' \<Longrightarrow> pl_config p' = pl_config p"
  by (induction rule: pool_step.induct)
     (auto simp: acquire_begin_def acquire_timed_out_def acquire_got_def acquire_created_def create_connection_def
       acquire_failed_def acquire_cancelled_def conn_release_def pool_release_def evict_def close_connection_def
       pool_close_begin_def pool_enter_def pool_close_end_def Let_def split: if_splits option.split sum.splits)

lemma pool_reachable_config: "pool_reachable c p \<Longrightarrow> pl_config p = c"
  by (induction rule: pool_reachable.induct) (auto simp: new_pool_def pool_step_config)

lemma active_connections_live: "pool_wf p \<Longrightarrow> ps_active_connections (pool_get_stats mstats p) \<le> length (live_conns p)"
proof -
  assume wf: "pool_wf p"
  then have "distinct (filter (\<lambda>i. pc_in_use (pl_objs p i)) (pool_ids p))" "distinct (live_conns p)"
    and "set (filter (\<lambda>i. pc_in_use (pl_objs p i)) (pool_ids p)) \<subseteq> set (live_conns p)"
    using pool_ids_distinct by (auto simp: pool_wf_def handles_wf_def)
  then show ?thesis
    unfolding pool_get_stats_def Let_def by (metis card_mono distinct_card finite_set pool_stats.select_convs(2))
qed

subsection \<open>What the pool guarantees, and what it does not\<close>

text \<open>
  In every interleaving a pool never has more than \<^verbatim>\<open>max_connections\<close> wrappers in circulation
  and its statistics never report more active connections than that; two wrappers that have not been
  released never share a connection; and a connection that would be reused is held by nobody and
  leads to the URI that was asked for.
\<close>

theorem pool_exclusive_use:
  assumes "pool_reachable c p" and "0 < pg_max_connections c"
  shows "int (length (live_conns p)) \<le> pg_max_connections c
     \<and> int (ps_active_connections (pool_get_stats mstats p)) \<le> pg_max_connections c
     \<and> distinct (live_conns p) \<and> (\<forall>i \<in> set (live_conns p). pc_in_use (pl_objs p i))
     \<and> (get_idle_connection uri p = Some i \<longrightarrow> i \<notin> set (live_conns p) \<and> pc_uri (pl_objs p i) = uri)"
proof -
  have wf: "pool_wf p" and c: "pl_config p = c"
    using assms(1) by (simp_all add: pool_reachable_wf pool_reachable_config)
  have "int (length (live_conns p)) \<le> pg_max_connections c"
    using wf assms(2) by (auto simp: pool_wf_def permits_wf_def c)
  with active_connections_live [OF wf, of mstats] get_idle_connection_wf [OF wf, of uri i] wf show ?thesis
    by (auto simp: pool_wf_def handles_wf_def)
qed

text \<open>A pool of one connection in which a first acquisition has got its connection.\<close>

definition one_config :: pool_config where
  "one_config = \<lparr>pg_max_connections = 1, pg_max_idle_time = 300, pg_health_check_interval = 30, pg_acquire_timeout = 10\<rparr>"

definition demo_uri :: pystr where
  "demo_uri = lit ''ws://a''"

lemma demo_uri_resolved: "resolve_uri netloc_ok base demo_uri = Inr demo_uri"
  by (simp add: demo_uri_def resolve_uri_def urlparse_def uses_params_def parsing_defs)

definition one_creating :: pool where
  "one_creating = acquire_got 0 demo_uri ((new_pool (Some one_config) None)\<lparr>pl_waiting := [demo_uri]\<rparr>)"

lemma one_creating_reachable: "pool_reachable one_config one_creating" "pl_creating one_creating = [demo_uri]"
proof -
  have "pool_reachable one_config ((new_pool (Some one_config) None)\<lparr>pl_waiting := [demo_uri]\<rparr>)"
    by (rule pool_reachable.next_step [OF pool_reachable.start], rule pool_step.acquire [where uri_or_path = demo_uri])
       (simp add: acquire_begin_def new_pool_def demo_uri_resolved)
  then show "pool_reachable one_config one_creating"
    unfolding one_creating_def
    by (rule pool_reachable.next_step, intro pool_step.got) (simp_all add: new_pool_def one_config_def)
  show "pl_creating one_creating = [demo_uri]"
    by (simp add: one_creating_def acquire_got_def get_idle_connection_def new_pool_def Let_def)
qed

theorem pool_exclusive_use_witness:
  "length (live_conns (acquire_created 1 CONNECTED demo_uri one_creating)) = 1
   \<and> (\<forall>mstats. int (ps_active_connections (pool_get_stats mstats (acquire_created 1 CONNECTED demo_uri one_creating))) \<le> 1)"
proof -
  have "pool_reachable one_config (acquire_created 1 CONNECTED demo_uri one_creating)"
    by (rule pool_reachable.next_step [OF one_creating_reachable(1)], rule pool_step.created) (simp add: one_creating_reachable(2))
  from pool_exclusive_use [OF this] show ?thesis
    by (simp add: one_config_def one_creating_def acquire_created_def create_connection_def acquire_got_def
        get_idle_connection_def new_pool_def Let_def live_conns_def add_handle_def upd_conn_def)
qed

text \<open>The permits in the semaphore, in the hands of wrappers and in pending acquisitions.\<close>

definition pool_capacity :: "pool \<Rightarrow> nat" where
  "pool_capacity p = pl_permits p + length (live_conns p) + length (pl_creating p)"

lemma acquire_got_capacity: "0 < pl_permits p \<Longrightarrow> pool_capacity (acquire_got now uri p) = pool_capacity p"
  by (auto simp: acquire_got_def Let_def pool_capacity_def live_conns_def add_handle_def upd_conn_def split: option.split)

lemma creating_capacity:
  assumes "uri \<in> set (pl_creating p)"
  shows "pool_capacity (acquire_created now st uri p) = pool_capacity p"
    and "pool_capacity (acquire_failed uri p) = pool_capacity p"
    and "Suc (pool_capacity (acquire_cancelled uri p)) = pool_capacity p"
proof -
  have len: "length (pl_creating p) = Suc (length (remove1 uri (pl_creating p)))"
    using assms by (simp add: length_remove1) (metis Suc_pred length_pos_if_in_set One_nat_def)
  then show "pool_capacity (acquire_created now st uri p) = pool_capacity p"
    by (simp add: acquire_created_def create_connection_def Let_def pool_capacity_def live_conns_def add_handle_def upd_conn_def)
  show "pool_capacity (acquire_failed uri p) = pool_capacity p" "Suc (pool_capacity (acquire_cancelled uri p)) = pool_capacity p"
    using len by (simp_all add: acquire_failed_def acquire_cancelled_def pool_capacity_def live_conns_def)
qed

lemma release_capacity:
  assumes "pool_wf p" "h < length (pl_handles p)"
  shows "pool_capacity (conn_release now h p) = pool_capacity p"
proof (cases "ph_released (pl_handles p ! h)")
  case False
  have "distinct (map ph_conn (filter (\<lambda>h. \<not> ph_released h) (pl_handles p)))"
    using assms(1) by (simp add: pool_wf_def handles_wf_def live_conns_def)
  from live_conns_release(3) [OF assms(2) False this] False show ?thesis
    by (simp add: conn_release_def pool_release_def Let_def pool_capacity_def live_conns_def)
qed (simp add: conn_release_def)

lemma pool_step_capacity: "pool_step p p' \<Longrightarrow> pool_wf p \<Longrightarrow> pool_capacity p' \<le> pool_capacity p"
proof (induction rule: pool_step.induct)
  case (acquire netloc_ok uri p p')
  then show ?case by (auto simp: acquire_begin_def pool_capacity_def live_conns_def split: if_splits sum.splits)
next
  case (cancelled uri p)
  then show ?case using creating_capacity(3) [of uri p] by simp
qed (simp_all add: acquire_got_capacity creating_capacity release_capacity,
     simp_all add: pool_capacity_def live_conns_def acquire_timed_out_def evict_def close_connection_def
       pool_close_begin_def pool_enter_def pool_close_end_def)

interpretation pool_sys: non_increasing pool_step pool_wf pool_capacity
  by unfold_locales (auto intro: pool_step_wf pool_step_capacity)

text \<open>
  C37. An \<^verbatim>\<open>acquire\<close> that is cancelled while its connection is being opened takes its permit with it
  for ever: whatever happens afterwards, permits, wrappers and pending acquisitions together stay
  below what they were, so in a pool of one connection nobody ever gets a connection again.
\<close>

theorem cancelled_acquire_loses_permit:
  assumes "pool_reachable c p" and "uri \<in> set (pl_creating p)" and "pool_step\<^sup>*\<^sup>* (acquire_cancelled uri p) p'"
  shows "pool_capacity p' < pool_capacity p
     \<and> (pg_max_connections c = 1 \<longrightarrow> pl_permits p' = 0 \<and> live_conns p' = [] \<and> pl_creating p' = [])"
proof -
  have wf: "pool_wf p" and c: "pl_config p = c"
    using assms(1) by (simp_all add: pool_reachable_wf pool_reachable_config)
  then have "pool_wf (acquire_cancelled uri p)"
    using forget_creating_wf(1) [OF wf assms(2)] by (simp add: acquire_cancelled_def)
  from pool_sys.never_grows [OF assms(3) this] creating_capacity(3) [OF assms(2)]
  have less: "pool_capacity p' < pool_capacity p" by linarith
  moreover have "pool_capacity p \<le> nat (pg_max_connections c)"
    using wf by (simp add: pool_wf_def permits_wf_def pool_capacity_def c)
  ultimately show ?thesis by (auto simp: pool_capacity_def simp flip: length_0_conv)
qed

theorem cancelled_acquire_loses_permit_witness:
  "pool_capacity (pool_close_begin (acquire_cancelled demo_uri one_creating)) < pool_capacity one_creating
   \<and> pl_permits (pool_close_begin (acquire_cancelled demo_uri one_creating)) = 0"
proof -
  have "pool_step\<^sup>*\<^sup>* (acquire_cancelled demo_uri one_creating) (pool_close_begin (acquire_cancelled demo_uri one_creating))"
    by (rule r_into_rtranclp, rule pool_step.closing)
  from cancelled_acquire_loses_permit [OF one_creating_reachable(1) _ this] show ?thesis
    by (simp add: one_creating_reachable(2) one_config_def)
qed

text \<open>Opening one connection to a new URI in an idle pool, and giving it back.\<close>

definition visit :: "pystr \<Rightarrow> pool \<Rightarrow> pool" where
  "visit uri p =
     (let q = acquire_created 0 CONNECTED uri (acquire_got 0 uri (p\<lparr>pl_waiting := pl_waiting p @ [uri]\<rparr>))
      in conn_release 0 (length (pl_handles p)) q)"

definition all_idle :: "pool \<Rightarrow> bool" where
  "all_idle p \<longleftrightarrow> pl_permits p = 1 \<and> \<not> pl_closed p \<and> pl_waiting p = [] \<and> pl_creating p = []
     \<and> (\<forall>i \<in> set (pool_ids p). \<not> pc_in_use (pl_objs p i) \<and> pl_mstate p i = CONNECTED)"

lemma visit_grows:
  assumes r: "pool_reachable c p" and idle: "all_idle p" and new: "uri \<notin> fst ` set (pl_connections p)"
    and full: "resolve_uri netloc_ok (pl_base_uri p) uri = Inr uri"
  shows "pool_reachable c (visit uri p)" "all_idle (visit uri p)"
    "pl_connections (visit uri p) = pl_connections p @ [(uri, [pl_next p])]"
proof -
  let ?p0 = "p\<lparr>pl_waiting := pl_waiting p @ [uri]\<rparr>"
  have none: "map_of (pl_connections p) uri = None" using new by (simp add: map_of_eq_None_iff)
  have got: "acquire_got 0 uri ?p0 = p\<lparr>pl_permits := 0, pl_creating := [uri]\<rparr>" (is "_ = ?p1")
    using idle none by (simp add: acquire_got_def get_idle_connection_def all_idle_def)
  define p2 where "p2 = acquire_created 0 CONNECTED uri ?p1"
  have "pool_reachable c ?p0"
    using idle by (intro pool_reachable.next_step [OF r] pool_step.acquire [of netloc_ok uri]) (simp add: acquire_begin_def all_idle_def full)
  then have "pool_reachable c ?p1"
    by (subst got [symmetric], elim pool_reachable.next_step, intro pool_step.got) (use idle in \<open>simp_all add: all_idle_def\<close>)
  then have r2: "pool_reachable c p2"
    unfolding p2_def by (elim pool_reachable.next_step, intro pool_step.created) simp
  have visit: "visit uri p = conn_release 0 (length (pl_handles p)) p2" by (simp add: visit_def got p2_def)
  have p2: "pl_handles p2 = pl_handles p @ [\<lparr>ph_conn = pl_next p, ph_released = False\<rparr>]"
      "pl_connections p2 = pl_connections p @ [(uri, [pl_next p])]" "pl_permits p2 = 0" "pl_creating p2 = []"
      "\<not> pl_closed p2" "pl_waiting p2 = []" "pl_mstate p2 = (pl_mstate p)(pl_next p := CONNECTED)"
      "\<And>i. i \<noteq> pl_next p \<Longrightarrow> pl_objs p2 i = pl_objs p i"
    using new none idle
    by (simp_all add: p2_def acquire_created_def create_connection_def add_handle_def upd_conn_def
        dict_set_absent all_idle_def Let_def)
  show "pool_reachable c (visit uri p)"
    unfolding visit using r2 by (elim pool_reachable.next_step) (simp add: pool_step.release p2)
  have v: "pl_connections (visit uri p) = pl_connections p2" "pl_permits (visit uri p) = 1"
      "pl_mstate (visit uri p) = pl_mstate p2" "pl_closed (visit uri p) = pl_closed p2"
      "pl_waiting (visit uri p) = []" "pl_creating (visit uri p) = []"
      "pl_objs (visit uri p) = (pl_objs p2)(pl_next p := mark_released 0 (pl_objs p2 (pl_next p)))"
    by (simp_all add: visit conn_release_def pool_release_def Let_def p2 upd_conn_def is_terminal_def)
  show "pl_connections (visit uri p) = pl_connections p @ [(uri, [pl_next p])]" by (simp add: v p2)
  show "all_idle (visit uri p)"
    using idle p2 by (auto simp: all_idle_def v pool_ids_def mark_released_def)
qed

lemma opaque_uri_resolved: "resolve_uri netloc_ok base (119 # 58 # replicate n 97) = Inr (119 # 58 # replicate n 97)"
proof -
  have "clean_url (119 # 58 # replicate n 97) = 119 # 58 # replicate n 97"
    by (rule clean_url_id [of _ 119 "58 # replicate n 97"]) (auto simp: no_break_def)
  moreover have "split_scheme (119 # 58 # replicate n 97) = ([119], replicate n 97)"
    by (simp add: split_scheme_def partition_at_def is_alpha_def scheme_char_def lower_def lower_char_def)
  moreover have "split_netloc (replicate n 97) = ([], replicate n 97)"
    by (cases n) (auto simp: split_netloc_def)
  ultimately have "\<exists>s. urlsplit netloc_ok (119 # 58 # replicate n 97) = Inr s \<and> su_scheme s = [119]"
    by (auto simp: urlsplit_def is_ascii_def split: prod.split)
  then show ?thesis using resolve_full by fastforce
qed

text \<open>
  \<^verbatim>\<open>max_connections\<close> does not bound the connections that are open: idle connections hold no
  permit, so a pool limited to one connection can hold any number of open connections to different
  URIs.
\<close>

theorem open_connections_unbounded:
  "\<exists>p. pool_reachable one_config p \<and> map (pl_mstate p) (pool_ids p) = replicate n CONNECTED"
proof -
  have "\<exists>p. pool_reachable one_config p \<and> all_idle p \<and> length (pool_ids p) = n
      \<and> (\<forall>u \<in> fst ` set (pl_connections p). length u < n + 2)" for n
  proof (induction n)
    case 0
    show ?case
      by (rule exI [of _ "new_pool (Some one_config) None"], rule conjI [OF pool_reachable.start])
         (simp add: all_idle_def pool_ids_def new_pool_def one_config_def)
  next
    case (Suc n)
    then obtain p where p: "pool_reachable one_config p" "all_idle p" "length (pool_ids p) = n"
      "\<forall>u \<in> fst ` set (pl_connections p). length u < n + 2" by blast
    let ?u = "119 # 58 # replicate n 97 :: pystr"
    have "?u \<notin> fst ` set (pl_connections p)" using p(4) by fastforce
    from visit_grows [OF p(1,2) this opaque_uri_resolved] p(3,4) show ?case
      by (intro exI [of _ "visit ?u p"]) (auto simp: pool_ids_def less_Suc_eq)
  qed
  then obtain p where p: "pool_reachable one_config p" "all_idle p" "length (pool_ids p) = n" by blast
  then have "map (pl_mstate p) (pool_ids p) = replicate n CONNECTED"
    by (auto simp: all_idle_def intro: replicate_eqI)
  with p(1) show ?thesis by blast
qed

end
