(* ===== verification/Jet_Pool_System.thy ===== *)
theory Jet_Pool_System
  imports Jet_Pool Jet_Concurrency
begin

text \<open>
  The connection pool with its managers. \<^verbatim>\<open>Jet_Pool\<close> sees of a manager only the state, which may change
  at any time; here every pooled connection has its manager with all tasks, as in
  \<^verbatim>\<open>Jet_Concurrency\<close>, and the pool's closing of a connection is the manager's \<^verbatim>\<open>close\<close>, interleaved
  with everything else. Every run of this system is a run of the pool of \<^verbatim>\<open>Jet_Pool\<close>, so what is shown
  there holds here.
\<close>

subsection \<open>The system\<close>

text \<open>
  Beside the pool and its managers the state has the numbers of the managers whose \<^verbatim>\<open>close\<close> has
  returned to the pool at least once.
\<close>

type_synonym ('m, 's) pool_system = "pool \<times> (nat \<Rightarrow> ('m, 's) sys) \<times> nat set"

definition pool_view :: "('m, 's) pool_system \<Rightarrow> pool" where
  "pool_view x = (case x of (p, ms, _) \<Rightarrow>
     p\<lparr>pl_mstate := (\<lambda>i. if i < pl_next p then ws_state (fst (ms i)) else pl_mstate p i)\<rparr>)"

lemma pool_view_simps [simp]:
  "pl_next (pool_view (p, ms, cl)) = pl_next p" "pl_doomed (pool_view (p, ms, cl)) = pl_doomed p"
  "pl_connections (pool_view (p, ms, cl)) = pl_connections p" "pl_objs (pool_view (p, ms, cl)) = pl_objs p"
  "pl_handles (pool_view (p, ms, cl)) = pl_handles p" "pl_closed (pool_view (p, ms, cl)) = pl_closed p"
  "pl_creating (pool_view (p, ms, cl)) = pl_creating p" "pl_config (pool_view (p, ms, cl)) = pl_config p"
  "pl_cleanup_task (pool_view (p, ms, cl)) = pl_cleanup_task p" "pl_permits (pool_view (p, ms, cl)) = pl_permits p"
  "i < pl_next p \<Longrightarrow> pl_mstate (pool_view (p, ms, cl)) i = ws_state (fst (ms i))"
  "live_conns (pool_view (p, ms, cl)) = live_conns p" "pool_ids (pool_view (p, ms, cl)) = pool_ids p"
  "pool_wf (pool_view (p, ms, cl)) = pool_wf p" "cleanup_collect now (pool_view (p, ms, cl)) = cleanup_collect now p"
  by (simp_all add: pool_view_def live_conns_def pool_ids_def cleanup_collect_def)

text \<open>
  \<^verbatim>\<open>new_ws uri\<close> is \<^verbatim>\<open>WebSocket(uri, **self._manager_kwargs)\<close>. A new connection enters the pool when the
  \<^verbatim>\<open>connect\<close> of its manager returns, in whatever state the manager then is. A connection that was doomed
  leaves when the manager's \<^verbatim>\<open>close\<close> has returned, and \<^verbatim>\<open>close\<close> of the pool forgets its connections when all
  of them have. The rest of the pool's steps do not change any manager (the closing of terminal
  managers included, which returns at once).
\<close>

inductive system_step :: "(pystr \<Rightarrow> exn + ('m, 's) ws) \<Rightarrow> ('m, 's) pool_system \<Rightarrow> ('m, 's) pool_system \<Rightarrow> bool" for new_ws where
  pool_alone: "pool_step (pool_view (p, ms, cl)) p' \<Longrightarrow> pl_mstate p' = pl_mstate (pool_view (p, ms, cl)) \<Longrightarrow> pl_next p' = pl_next p
    \<Longrightarrow> system_step new_ws (p, ms, cl) (p', ms, cl)"
| manager_moves: "i < pl_next p \<Longrightarrow> sys_step (ms i) s \<Longrightarrow> system_step new_ws (p, ms, cl) (p, ms(i := s), cl)"
| connected: "uri \<in> set (pl_creating p) \<Longrightarrow> new_ws uri = Inr w \<Longrightarrow> sys_steps (w, []) s \<Longrightarrow> User \<notin> fst ` set (snd s)
    \<Longrightarrow> system_step new_ws (p, ms, cl) (acquire_created now (ws_state (fst s)) uri (pool_view (p, ms, cl)), ms(pl_next p := s), cl)"
| close_returns: "i < pl_next p \<Longrightarrow> ms i = (w, xs @ (User, AtClose code reason) # ys)
    \<Longrightarrow> system_step new_ws (p, ms, cl) (p, ms(i := (close_end code reason w, cancel_message_task w (xs @ ys))), insert i cl)"
| close_returns_at_once: "i < pl_next p \<Longrightarrow> ms i = (w, cs) \<Longrightarrow> close_begin code reason w = (False, w')
    \<Longrightarrow> system_step new_ws (p, ms, cl) (p, ms(i := (w', cs)), insert i cl)"
| evicts: "i \<in> set (pl_doomed p) \<Longrightarrow> i \<in> cl \<Longrightarrow> system_step new_ws (p, ms, cl) (evict i (pool_view (p, ms, cl)), ms, cl)"
| closes: "pl_closed p \<Longrightarrow> set (pool_ids p) \<subseteq> cl
    \<Longrightarrow> system_step new_ws (p, ms, cl) (pool_close_end (pool_view (p, ms, cl)), ms, cl)"

subsection \<open>It implements the pool\<close>

lemma managers_change: "pool_step\<^sup>*\<^sup>* p (p\<lparr>pl_mstate := (\<lambda>i. if i < n then f i else pl_mstate p i)\<rparr>)"
proof (induction n)
  case (Suc n)
  let ?m = "\<lambda>i. if i < n then f i else pl_mstate p i"
  have "pool_step (p\<lparr>pl_mstate := ?m\<rparr>) (p\<lparr>pl_mstate := ?m\<rparr>\<lparr>pl_mstate := (pl_mstate (p\<lparr>pl_mstate := ?m\<rparr>))(n := f n)\<rparr>)"
    by (rule pool_step.manager)
  moreover have "?m(n := f n) = (\<lambda>i. if i < Suc n then f i else pl_mstate p i)" by (auto simp: fun_eq_iff)
  ultimately show ?case using Suc by simp
qed simp

lemma view_reached: "pool_step\<^sup>*\<^sup>* p (pool_view (p, ms, cl))"
  using managers_change [of p "pl_next p" "\<lambda>i. ws_state (fst (ms i))"] by (simp add: pool_view_def)

lemma view_after: "pool_step (pool_view x) p' \<Longrightarrow> pool_step\<^sup>*\<^sup>* (pool_view x) (pool_view (p', ms, cl))"
  by (rule converse_rtranclp_into_rtranclp [OF _ view_reached])

lemma view_manager: "pool_step\<^sup>*\<^sup>* (pool_view (p, ms, cl)) (pool_view (p, ms(i := s), cl'))"
proof (cases "i < pl_next p")
  case True
  have "pool_step (pool_view (p, ms, cl)) ((pool_view (p, ms, cl))\<lparr>pl_mstate := (pl_mstate (pool_view (p, ms, cl)))(i := ws_state (fst s))\<rparr>)"
    by (rule pool_step.manager)
  moreover have "(pool_view (p, ms, cl))\<lparr>pl_mstate := (pl_mstate (pool_view (p, ms, cl)))(i := ws_state (fst s))\<rparr> = pool_view (p, ms(i := s), cl')"
    using True by (auto simp: pool_view_def fun_eq_iff)
  ultimately show ?thesis by auto
next
  case False
  then have "pool_view (p, ms(i := s), cl') = pool_view (p, ms, cl)" by (auto simp: pool_view_def fun_eq_iff)
  then show ?thesis by simp
qed

lemma system_step_simulates: "system_step new_ws x y \<Longrightarrow> pool_step\<^sup>*\<^sup>* (pool_view x) (pool_view y)"
proof (induction rule: system_step.induct)
  case (connected uri p w s ms cl now)
  then show ?case by (intro view_after pool_step.created) simp
next
  case (evicts i p cl ms)
  then show ?case by (intro view_after pool_step.evicts) simp
next
  case (closes p cl ms)
  then show ?case by (intro view_after pool_step.closes) simp
qed (rule view_after view_manager; assumption?)+

interpretation pool_managers: simulation "system_step new_ws" pool_step pool_view for new_ws
  by unfold_locales (rule system_step_simulates)

subsection \<open>What holds of pool and managers together\<close>

definition system_start :: "pool_config \<Rightarrow> pystr option \<Rightarrow> (nat \<Rightarrow> ('m, 's) sys) \<Rightarrow> ('m, 's) pool_system" where
  "system_start c base_uri ms = (new_pool (Some c) base_uri, ms, {})"

lemma pool_reachable_steps: "pool_step\<^sup>*\<^sup>* p p' \<Longrightarrow> pool_reachable c p \<Longrightarrow> pool_reachable c p'"
  by (induction rule: rtranclp_induct) (auto intro: pool_reachable.next_step)

lemma pool_view_start: "pool_view (system_start c base_uri ms) = new_pool (Some c) base_uri"
  by (simp add: pool_view_def system_start_def new_pool_def)

lemma system_reachable: "(system_step new_ws)\<^sup>*\<^sup>* (system_start c base_uri ms) x \<Longrightarrow> pool_reachable c (pool_view x)"
  using pool_managers.simulated [of new_ws "system_start c base_uri ms" x] pool_reachable.start [of c base_uri]
  by (auto simp: pool_view_start intro: pool_reachable_steps)

lemma system_wf: "(system_step new_ws)\<^sup>*\<^sup>* (system_start c base_uri ms) (p, ms', cl) \<Longrightarrow> pool_wf p"
  using pool_reachable_wf [OF system_reachable] by fastforce

text \<open>A connection that nobody holds and whose manager is closed for good.\<close>

definition out_of_use :: "nat \<Rightarrow> ('m, 's) pool_system \<Rightarrow> bool" where
  "out_of_use i x \<longleftrightarrow> (case x of (p, ms, _) \<Rightarrow> i < pl_next p \<and> shut (ms i) \<and> i \<notin> set (live_conns p))"

text \<open>The steps of the pool hand out only connections in a usable state, and new ones.\<close>

lemma live_conns_released:
  "set (map ph_conn (filter (\<lambda>h. \<not> ph_released h) (hs[h := c\<lparr>ph_released := True\<rparr>])))
    \<subseteq> set (map ph_conn (filter (\<lambda>h. \<not> ph_released h) hs))"
  by (auto dest: set_update_subset_insert [THEN subsetD])

lemma acquire_got_live: "i \<in> set (live_conns (acquire_got now uri p)) \<Longrightarrow> i \<notin> set (live_conns p)
    \<Longrightarrow> pl_mstate p i \<in> {CONNECTED, RECONNECTING, BACKING_OFF}"
  by (auto simp: acquire_got_def Let_def add_handle_def upd_conn_def live_conns_def split: option.splits if_splits)

lemma pool_step_live:
  assumes "pool_step p p'" and "pl_mstate p i = CLOSED" and "i \<notin> set (live_conns p)" and "i < pl_next p"
  shows "i \<notin> set (live_conns p')"
  using assms
proof (induction rule: pool_step.induct)
  case (acquire netloc_ok uri p p')
  then show ?case by (auto simp: acquire_begin_def live_conns_def split: if_splits sum.splits)
next
  case (got uri p now)
  with acquire_got_live [of i now uri p] show ?case by auto
next
  case (release h p now)
  with live_conns_released [of "pl_handles p" h "pl_handles p ! h"] show ?case
    by (auto simp: conn_release_def pool_release_def Let_def live_conns_def)
qed (auto simp: acquire_timed_out_def acquire_created_def create_connection_def acquire_failed_def acquire_cancelled_def Let_def
      add_handle_def upd_conn_def live_conns_def evict_def close_connection_def pool_close_begin_def pool_enter_def pool_close_end_def)

lemma acquire_created_next: "pl_next (acquire_created now st uri p) = pl_next p + 1"
  by (simp add: acquire_created_def create_connection_def Let_def add_handle_def upd_conn_def)

lemma pool_close_end_next: "pl_next (pool_close_end p) = pl_next p"
proof -
  have "pl_next (fold close_connection is p) = pl_next p" for "is" and p :: pool
    by (induction "is" arbitrary: p) (simp_all add: close_connection_def)
  then show ?thesis by (simp add: pool_close_end_def)
qed

lemma evict_next: "pl_next (evict i p) = pl_next p"
  by (simp add: evict_def remove_connection_def close_connection_def Let_def split: option.split)

lemma out_of_use_step: "system_step new_ws x y \<Longrightarrow> out_of_use i x \<Longrightarrow> out_of_use i y"
proof (induction rule: system_step.induct)
  case (pool_alone p ms cl p')
  then show ?case using pool_step_live [OF pool_alone(1), of i] by (auto simp: out_of_use_def shut_def)
next
  case (manager_moves j p ms s cl)
  then show ?case using shut_step [of "ms j" s] by (auto simp: out_of_use_def)
next
  case (connected uri p w s ms cl now)
  then show ?case
    using pool_step_live [OF pool_step.created [of uri "pool_view (p, ms, cl)" now "ws_state (fst s)"], of i]
    by (auto simp: out_of_use_def shut_def acquire_created_next)
next
  case (close_returns j p ms w xs code reason ys cl)
  then show ?case
    using shut_step [OF sys_step.close_ends [of w xs User code reason ys]] by (auto simp: out_of_use_def)
next
  case (close_returns_at_once j p ms w cs code reason w' cl)
  then show ?case
    using shut_step [OF sys_step.user_close [OF close_returns_at_once(3), of cs]] by (auto simp: out_of_use_def)
next
  case (evicts j p cl ms)
  then show ?case
    using pool_step_live [OF pool_step.evicts [of j "pool_view (p, ms, cl)"], of i] by (auto simp: out_of_use_def shut_def evict_next)
next
  case (closes p cl ms)
  then show ?case
    using pool_step_live [OF pool_step.closes [of "pool_view (p, ms, cl)"], of i]
    by (auto simp: out_of_use_def shut_def pool_close_end_next)
qed

interpretation out_of_use_sys: preserved "system_step new_ws" "out_of_use i" for new_ws i
  by unfold_locales (rule out_of_use_step)


subsection \<open>A connection that escapes\<close>

lemma connect_succeeded_state: "ws_state (connect_succeeded now e utc tx sp ex w) = CONNECTED"
proof -
  have "ws_state (start_tasks v) = ws_state v" "ws_state (replay_on_reconnect now e utc tx v) = ws_state v" for v :: "('a, 'b) ws"
    using same_control_replay [of now e utc tx v] by (simp_all add: start_tasks_def Let_def same_control_def split: option.split)
  then show ?thesis by (simp add: connect_succeeded_def Let_def)
qed

lemma remove_connection_ids:
  assumes "pool_wf p"
  shows "i \<notin> set (pool_ids (remove_connection i p))"
proof
  assume "i \<in> set (pool_ids (remove_connection i p))"
  then obtain uri ids where e: "(uri, ids) \<in> set (pl_connections (remove_connection i p))" "i \<in> set ids"
    by (auto simp: pool_ids_def)
  let ?u = "pc_uri (pl_objs p i)"
  have wf: "distinct (map fst (pl_connections p))"
      "\<And>v js. (v, js) \<in> set (pl_connections p) \<Longrightarrow> distinct js \<and> (\<forall>j \<in> set js. pc_uri (pl_objs p j) = v)"
    using assms by (auto simp: pool_wf_def dict_wf_def)
  show False
  proof (cases "map_of (pl_connections p) ?u")
    case None
    with e wf(2) show False by (auto simp: remove_connection_def Let_def map_of_eq_None_iff image_iff)
  next
    case (Some js)
    then have js: "(?u, js) \<in> set (pl_connections p)" "distinct js" using wf(2) by (auto dest: map_of_SomeD)
    have same: "(uri, ids) \<in> set (pl_connections p) \<Longrightarrow> uri = ?u \<and> ids = js"
      using wf(1,2) e(2) js(1) by (metis eq_key_imp_eq_value)
    show False
      using e js same Some set_dict_set [OF wf(1)] by (auto simp: remove_connection_def Let_def split: if_splits)
  qed
qed

text \<open>
  The pool can lose a connection that then comes alive. When the clean-up loop finds an idle
  connection whose manager is just connecting again after a heartbeat timeout or at its maximum age,
  it closes and forgets it; \<^verbatim>\<open>close\<close> cancels the message loop, not the task that is connecting, so the
  attempt goes on all the same, and there is a continuation in which the manager is connected while it is in nobody's
  hands and the pool does not know it any more: nothing will ever close it.
\<close>

theorem evicted_connection_escapes:
  fixes ms :: "nat \<Rightarrow> ('m, 's) sys"
  assumes "pool_wf p" and "i < pl_next p" and "\<not> pl_closed p" and "pl_cleanup_task p" and "i \<in> set (cleanup_collect now p)"
    and "ms i = (w, (o1, AtConnect) # cs)" and "ws_state w = CONNECTING" and "o1 \<in> {HeartbeatTask, AgeTimer}"
  shows "\<exists>p' ms' cl'. (system_step new_ws)\<^sup>*\<^sup>* (p, ms, cl) (p', ms', cl') \<and> i \<notin> set (pool_ids p')
     \<and> i \<notin> set (live_conns p') \<and> i \<in> cl' \<and> ws_state (fst (ms' i)) = CONNECTED"
proof -
  let ?r = "(o1, AtConnect)" and ?c = "(User, AtClose 1000 [])"
  define p1 where "p1 = (pool_view (p, ms, cl))\<lparr>pl_doomed := pl_doomed p @ cleanup_collect now p\<rparr>"
  have s1: "system_step new_ws (p, ms, cl) (p1, ms, cl)"
    using assms(3,4) pool_step.cleanup [of "pool_view (p, ms, cl)" now]
    by (intro system_step.pool_alone) (simp_all add: p1_def)
  have p1: "i < pl_next p1" "i \<in> set (pl_doomed p1)" "pool_wf p1" "live_conns p1 = live_conns p"
    using assms(1,2,5) by (simp_all add: p1_def live_conns_def pool_view_def)
  obtain w1 where b: "close_begin 1000 [] w = (True, w1)" using assms(7) by (simp add: close_begin_def Let_def is_terminal_def)
  define ms1 where "ms1 = ms(i := (w1, (?r # cs) @ [?c]))"
  have s2: "system_step new_ws (p1, ms, cl) (p1, ms1, cl)"
    unfolding ms1_def using p1(1) sys_step.user_close [OF b, of "?r # cs"] assms(6)
    by (intro system_step.manager_moves) simp_all
  define w2 where "w2 = close_end 1000 [] w1"
  define ms2 where "ms2 = ms1(i := (w2, ?r # cancel_message_task w1 cs))"
  have "cancel_message_task w1 (?r # cs) = ?r # cancel_message_task w1 cs"
    using assms(8) by (auto simp: cancel_message_task_def split: option.split)
  then have s3: "system_step new_ws (p1, ms1, cl) (p1, ms2, insert i cl)"
    using system_step.close_returns [OF p1(1), of ms1 w1 "?r # cs" 1000 "[]" "[]" new_ws cl] by (simp add: ms1_def ms2_def w2_def)
  define p2 where "p2 = evict i (pool_view (p1, ms2, insert i cl))"
  have s4: "system_step new_ws (p1, ms2, insert i cl) (p2, ms2, insert i cl)"
    unfolding p2_def using p1(2) by (intro system_step.evicts) simp_all
  have "pool_wf (close_connection i ((pool_view (p1, ms2, insert i cl))\<lparr>pl_doomed := remove1 i (pl_doomed p1)\<rparr>))"
    using p1(3) by (simp add: close_connection_def)
  from remove_connection_ids [OF this, of i] have p2: "i \<notin> set (pool_ids p2)" by (simp add: p2_def evict_def)
  have live: "i \<notin> set (live_conns p2)" "i < pl_next p2"
    using assms(1,5) p1(1,4) pool_step_live [OF pool_step.evicts [of i "pool_view (p1, ms2, insert i cl)"], of i]
    by (auto simp: p2_def evict_next pool_wf_def handles_wf_def cleanup_collect_def ms2_def w2_def close_end_def Let_def p1(2))
  define w3 where "w3 = connect_succeeded 0 0 0 (\<lambda>_. Inr ()) None [] w2"
  have "connect_internal_end 0 0 0 0 (\<lambda>_. Inr ()) (Inr (None, [])) w2 = (NDone, w3)"
    by (simp add: connect_internal_end_def w3_def)
  from sys_step.connected [OF this, of "[]" o1 "cancel_message_task w1 cs"] obtain cs3 where "sys_step (ms2 i) (w3, cs3)"
    by (auto simp: ms2_def)
  from system_step.manager_moves [where ms = ms2 and i = i, OF live(2) this]
  have s5: "system_step new_ws (p2, ms2, insert i cl) (p2, ms2(i := (w3, cs3)), insert i cl)" .
  have "ws_state (fst ((ms2(i := (w3, cs3))) i)) = CONNECTED" by (simp add: w3_def connect_succeeded_state)
  moreover have "(system_step new_ws)\<^sup>*\<^sup>* (p, ms, cl) (p2, ms2(i := (w3, cs3)), insert i cl)"
    using s1 s2 s3 s4 s5 by (meson converse_rtranclp_into_rtranclp rtranclp.rtrancl_refl)
  ultimately show ?thesis using p2 live(1) by blast
qed

text \<open>A pool with one connection that has been released.\<close>

definition idle_pool :: pool where
  "idle_pool = pool_enter (conn_release 2 0 (acquire_created 1 CONNECTED demo_uri one_creating))"

lemma one_created_handles: "pl_handles (acquire_created 1 CONNECTED demo_uri one_creating) = [\<lparr>ph_conn = 0, ph_released = False\<rparr>]"
  by (simp add: one_creating_def acquire_created_def create_connection_def acquire_got_def get_idle_connection_def new_pool_def
      Let_def add_handle_def upd_conn_def)

lemma idle_pool_facts: "pool_wf idle_pool" "pl_next idle_pool = 1" "\<not> pl_closed idle_pool" "pl_cleanup_task idle_pool"
    "0 \<in> set (cleanup_collect 1000 idle_pool)" "live_conns idle_pool = []"
proof -
  have "pool_reachable one_config (acquire_created 1 CONNECTED demo_uri one_creating)"
    by (rule pool_reachable.next_step [OF one_creating_reachable(1)], rule pool_step.created) (simp add: one_creating_reachable(2))
  from pool_reachable.next_step [OF this pool_step.release] one_created_handles
  have "pool_reachable one_config (conn_release 2 0 (acquire_created 1 CONNECTED demo_uri one_creating))" by simp
  from pool_reachable_wf [OF pool_reachable.next_step [OF this pool_step.enters]] show "pool_wf idle_pool"
    by (simp add: idle_pool_def)
qed (simp_all add: idle_pool_def pool_enter_def conn_release_def one_created_handles pool_release_def,
     simp_all add: one_creating_def acquire_created_def create_connection_def acquire_got_def get_idle_connection_def new_pool_def
       Let_def add_handle_def upd_conn_def one_config_def cleanup_collect_def pool_ids_def idle_time_def mark_released_def
       mark_used_def live_conns_def is_terminal_def)

theorem evicted_connection_escapes_witness:
  "\<exists>p' ms' cl'. (system_step (\<lambda>_. Inr demo_ws))\<^sup>*\<^sup>* (idle_pool, \<lambda>_. (connecting_demo, [(AgeTimer, AtConnect)]), {}) (p', ms', cl')
     \<and> 0 \<notin> set (pool_ids p') \<and> 0 \<notin> set (live_conns p') \<and> 0 \<in> cl' \<and> ws_state (fst (ms' 0)) = CONNECTED"
  using evicted_connection_escapes [OF idle_pool_facts(1) _ idle_pool_facts(3-5), of "\<lambda>_. (connecting_demo, [(AgeTimer, AtConnect)])"
      connecting_demo AgeTimer "[]" "\<lambda>_. Inr demo_ws" "{}"] idle_pool_facts(2) connecting_demo_state(1)
  by simp


subsection \<open>Exclusive use, with the managers\<close>

lemma get_idle_connection_view [simp]: "get_idle_connection uri (pool_view (p, ms, cl)) = get_idle_connection uri p"
  by (simp add: get_idle_connection_def split: option.split)

lemma pool_get_stats_view [simp]: "pool_get_stats mstats (pool_view (p, ms, cl)) = pool_get_stats mstats p"
  by (simp add: pool_get_stats_def pool_view_def pool_ids_def)


lemma demo_connects:
  "\<exists>s. sys_steps (demo_ws, []) s \<and> User \<notin> fst ` set (snd s) \<and> ws_state (fst s) = CONNECTED"
proof -
  let ?w1 = "connect_internal_begin (demo_ws\<lparr>ws_user_closed := False, ws_running := True\<rparr>)"
  let ?w2 = "connect_succeeded 0 0 0 (\<lambda>_. Inr ()) None [] ?w1"
  have "connect demo_ws = Inr ?w1" by (simp add: connect_def)
  from sys_steps.more [OF sys_steps.none sys_step.user_connect [OF this, of "[]"]]
  have s1: "sys_steps (demo_ws, []) (?w1, [] @ (User, AtConnect) # [])" by simp
  have "connect_internal_end 0 0 0 0 (\<lambda>_. Inr ()) (Inr (None, [])) ?w1 = (NDone, ?w2)" by (simp add: connect_internal_end_def)
  from sys_steps.more [OF s1 sys_step.connected [OF this]] show ?thesis
    by (intro exI conjI) (auto simp: connect_succeeded_state)
qed


subsection \<open>What the lock does not cover\<close>

lemma get_idle_connection_same:
  "pl_connections q = pl_connections p \<Longrightarrow> pl_objs q = pl_objs p \<Longrightarrow> get_idle_connection uri q = get_idle_connection uri p"
  by (simp add: get_idle_connection_def split: option.split)

text \<open>
  The clean-up loop decides under the lock and closes outside it: an idle connection that it has
  collected can be handed out to a caller in between, and is then closed in the caller's hands and
  dropped from the pool.
\<close>

theorem cleanup_closes_connection_in_use:
  assumes "pool_wf p" and "\<not> pl_closed p" and "pl_cleanup_task p" and "i \<in> set (cleanup_collect now p)"
    and "uri \<in> set (pl_waiting p)" and "0 < pl_permits p" and "get_idle_connection uri p = Some i" and "pl_mstate p i = CONNECTED"
  shows "\<exists>p'. pool_step\<^sup>*\<^sup>* p p' \<and> i \<in> set (live_conns p') \<and> pl_mstate p' i = CLOSED \<and> i \<notin> set (pool_ids p')"
proof -
  define p1 where "p1 = p\<lparr>pl_doomed := pl_doomed p @ cleanup_collect now p\<rparr>"
  define p2 where "p2 = acquire_got now uri p1"
  have s1: "pool_step p p1" unfolding p1_def by (rule pool_step.cleanup [OF assms(2,3)])
  have s2: "pool_step p1 p2" unfolding p2_def using assms(5,6) by (intro pool_step.got) (simp_all add: p1_def)
  have "get_idle_connection uri (p1\<lparr>pl_permits := pl_permits p1 - 1, pl_waiting := remove1 uri (pl_waiting p1)\<rparr>) = Some i"
    using assms(7) by (subst get_idle_connection_same [of _ p]) (simp_all add: p1_def)
  then have p2: "i \<in> set (live_conns p2)" "i \<in> set (pl_doomed p2)" "pl_mstate p2 i = CONNECTED"
    using assms(4,8) by (simp_all add: p2_def p1_def acquire_got_def Let_def live_conns_def add_handle_def upd_conn_def)
  have wf: "pool_wf p2" using pool_step_wf [OF s2 pool_step_wf [OF s1 assms(1)]] .
  define p3 where "p3 = evict i p2"
  have s3: "pool_step p2 p3" unfolding p3_def by (rule pool_step.evicts [OF p2(2)])
  have "pool_wf (close_connection i (p2\<lparr>pl_doomed := remove1 i (pl_doomed p2)\<rparr>))" using wf by (simp add: close_connection_def)
  from remove_connection_ids [OF this, of i] p2 have "i \<in> set (live_conns p3) \<and> pl_mstate p3 i = CLOSED \<and> i \<notin> set (pool_ids p3)"
    by (simp add: p3_def evict_def live_conns_def remove_connection_def close_connection_def Let_def is_terminal_def split: option.split)
  with s1 s2 s3 show ?thesis by (meson converse_rtranclp_into_rtranclp rtranclp.rtrancl_refl)
qed

theorem cleanup_closes_connection_in_use_witness:
  "\<exists>p'. pool_step\<^sup>*\<^sup>* (idle_pool\<lparr>pl_waiting := [demo_uri]\<rparr>) p' \<and> 0 \<in> set (live_conns p') \<and> pl_mstate p' 0 = CLOSED
     \<and> 0 \<notin> set (pool_ids p')"
proof -
  have "get_idle_connection demo_uri idle_pool = Some 0" "pl_mstate idle_pool 0 = CONNECTED" "0 < pl_permits idle_pool"
    by (simp_all add: idle_pool_def pool_enter_def conn_release_def one_created_handles pool_release_def)
       (simp_all add: one_creating_def acquire_created_def create_connection_def acquire_got_def get_idle_connection_def new_pool_def
         Let_def add_handle_def upd_conn_def mark_released_def mark_used_def is_terminal_def)
  then show ?thesis
    using cleanup_closes_connection_in_use [of "idle_pool\<lparr>pl_waiting := [demo_uri]\<rparr>" 0 1000 demo_uri] idle_pool_facts
    by (simp add: get_idle_connection_same [of "idle_pool\<lparr>pl_waiting := [demo_uri]\<rparr>" idle_pool] cleanup_collect_def pool_ids_def)
qed

end
