(* ===== verification/Jet_Sync_Client.thy ===== *)
theory Jet_Sync_Client
  imports Jet_Exceptions Jet_State Jet_Events Jet_Stats
begin

text \<open>
  The blocking client (\<^verbatim>\<open>src/jetsocket/sync_client.py\<close>), which runs a manager in an event loop of
  its own thread. Calls that cross to the other thread are split there: what the caller does, what
  the loop thread does, and the outcome of the future. Of the manager the client uses the state and
  the registered handlers; a handler \<^verbatim>\<open>None\<close> is the client's own \<^verbatim>\<open>_on_message\<close>. The locks make the
  guarded sections atomic. The time a call may wait for the other thread appears as an outcome.
\<close>

record ('m, 'h) sync_client =
  sc_manager :: "(conn_state \<times> 'h option emitter) option"
  sc_loop :: bool
  sc_thread :: bool
  sc_closed :: bool
  sc_queue :: "'m option list"
  sc_pending_handlers :: "(string \<times> 'h) list"

text \<open>An entry \<^verbatim>\<open>None\<close> of the message queue is the sentinel \<^verbatim>\<open>_SHUTDOWN\<close>.\<close>

definition new_sync_client :: "('m, 'h) sync_client" where
  "new_sync_client = \<lparr>sc_manager = None, sc_loop = False, sc_thread = False, sc_closed = False,
     sc_queue = [], sc_pending_handlers = []\<rparr>"

definition sc_state :: "('m, 'h) sync_client \<Rightarrow> conn_state" where
  "sc_state c = (case sc_manager c of None \<Rightarrow> IDLE | Some (s, _) \<Rightarrow> s)"

definition sc_is_connected :: "('m, 'h) sync_client \<Rightarrow> bool" where
  "sc_is_connected c \<longleftrightarrow> sc_state c = CONNECTED"

subsection \<open>\<^verbatim>\<open>connect\<close> and \<^verbatim>\<open>close\<close>\<close>

text \<open>\<^verbatim>\<open>connect\<close> up to the start of the thread.\<close>

definition sc_connect_begin :: "('m, 'h) sync_client \<Rightarrow> exn + ('m, 'h) sync_client" where
  "sc_connect_begin c =
     (if sc_closed c then Inl (InvalidStateError ''Client has been closed'' ''closed'' [''idle''])
      else if sc_thread c then Inl (InvalidStateError ''Already connected or connecting'' ''connected'' [''idle''])
      else Inr (c\<lparr>sc_closed := False, sc_thread := True\<rparr>))"

text \<open>
  The thread up to the point where it runs the loop; \<^verbatim>\<open>made\<close> is the outcome of the manager's
  constructor. An exception ends the thread with the loop closed.
\<close>

definition run_event_loop :: "exn + unit \<Rightarrow> ('m, 'h) sync_client \<Rightarrow> ('m, 'h) sync_client" where
  "run_event_loop made c =
     (case made of
        Inl _ \<Rightarrow> c\<lparr>sc_loop := True, sc_thread := False\<rparr>
      | Inr _ \<Rightarrow>
          (let em = fold (\<lambda>(event, handler). add_handler event (Some handler)) (sc_pending_handlers c) new_emitter
           in c\<lparr>sc_loop := True, sc_manager := Some (IDLE, add_handler ''message'' None em), sc_pending_handlers := []\<rparr>))"

definition shutdown_loop :: "('m, 'h) sync_client \<Rightarrow> ('m, 'h) sync_client" where
  "shutdown_loop c = c\<lparr>sc_loop := False, sc_manager := None, sc_thread := False\<rparr>"

text \<open>
  \<^verbatim>\<open>connect\<close> after the start of the thread: the wait for the event of the thread (whether it came in
  time is an argument) and the call that hands \<^verbatim>\<open>_connect_async\<close> to the loop, which raises when the
  thread has ended and closed the loop.
\<close>

definition sc_connect_submit :: "bool \<Rightarrow> ('m, 'h) sync_client \<Rightarrow> exn + unit" where
  "sc_connect_submit started c =
     (if \<not> started then Inl (TimeoutError ''Background event loop failed to start'' 30 ''start_loop'')
      else if \<not> sc_loop c then Inl (ConnectionError ''Event loop not available'')
      else if \<not> sc_thread c then Inl (RuntimeError ''Event loop is closed'')
      else Inr ())"

definition sc_connect_async :: "exn + unit \<Rightarrow> ('m, 'h) sync_client \<Rightarrow> exn + unit" where
  "sc_connect_async outcome c =
     (if sc_manager c = None then Inl (ConnectionError ''Manager not initialized'') else outcome)"

text \<open>The end of \<^verbatim>\<open>connect\<close>: the future's outcome. A timeout of the wait is an exception of another class.\<close>

definition sc_connect_end :: "exn + unit \<Rightarrow> ('m, 'h) sync_client \<Rightarrow> exn option \<times> ('m, 'h) sync_client" where
  "sc_connect_end outcome c =
     (case outcome of
        Inr _ \<Rightarrow> (None, c)
      | Inl e \<Rightarrow>
          (Some (case e of ConnectionError _ \<Rightarrow> e | TimeoutError _ _ _ \<Rightarrow> e | _ \<Rightarrow> ConnectionError ''Failed to connect''),
           shutdown_loop c))"

text \<open>
  \<^verbatim>\<open>close\<close>: the sentinel is queued, the manager is closed (whatever comes of it) and the loop is
  shut down. While the manager closes, messages may still be forwarded; \<^verbatim>\<open>late\<close> are those.
\<close>

definition on_message :: "'m \<Rightarrow> ('m, 'h) sync_client \<Rightarrow> ('m, 'h) sync_client" where
  "on_message m c = c\<lparr>sc_queue := sc_queue c @ [Some m]\<rparr>"

definition sc_close_begin :: "('m, 'h) sync_client \<Rightarrow> ('m, 'h) sync_client" where
  "sc_close_begin c = c\<lparr>sc_closed := True, sc_queue := sc_queue c @ [None]\<rparr>"

definition sc_close :: "'m list \<Rightarrow> ('m, 'h) sync_client \<Rightarrow> ('m, 'h) sync_client" where
  "sc_close late c =
     (if sc_closed c then c
      else let c1 = sc_close_begin c;
               c2 = (if sc_loop c1 \<and> sc_manager c1 \<noteq> None then fold on_message late c1 else c1)
           in shutdown_loop c2)"

text \<open>
  The context manager and the destructor, which closes what is open, and the clean-up at the exit of
  the interpreter, which closes every client.
\<close>

definition sc_exit :: "'m list \<Rightarrow> ('m, 'h) sync_client \<Rightarrow> ('m, 'h) sync_client" where
  "sc_exit late c = sc_close late c"

definition sc_del :: "'m list \<Rightarrow> ('m, 'h) sync_client \<Rightarrow> ('m, 'h) sync_client" where
  "sc_del late c = (if \<not> sc_closed c then sc_close late c else c)"

definition cleanup_clients :: "('m, 'h) sync_client list \<Rightarrow> ('m, 'h) sync_client list" where
  "cleanup_clients clients = map (sc_close []) clients"

subsection \<open>Messages\<close>

text \<open>\<^verbatim>\<open>send\<close> and \<^verbatim>\<open>send_raw\<close>: the call is handed to the loop and its outcome is mapped.\<close>

definition sc_send_check :: "('m, 'h) sync_client \<Rightarrow> exn + unit" where
  "sc_send_check c =
     (if \<not> sc_loop c \<or> sc_manager c = None
      then Inl (InvalidStateError ''Not connected'' ''disconnected'' [''connected'']) else Inr ())"

definition sc_send_end :: "exn + unit \<Rightarrow> exn + unit" where
  "sc_send_end outcome =
     (case outcome of
        Inr _ \<Rightarrow> Inr ()
      | Inl e \<Rightarrow> Inl (case e of InvalidStateError _ _ _ \<Rightarrow> e | ConnectionError _ \<Rightarrow> e | _ \<Rightarrow> ConnectionError ''Failed to send''))"

definition sc_connection_closed :: exn where
  "sc_connection_closed = ConnectionError ''Connection closed''"

definition sc_closed_error :: exn where
  "sc_closed_error = InvalidStateError ''Connection closed'' ''closed'' [''connected'']"

definition sc_send :: "exn + unit \<Rightarrow> ('m, 'h) sync_client \<Rightarrow> exn + unit" where
  "sc_send outcome c = bind_result (sc_send_check c) (\<lambda>_. sc_send_end outcome)"

definition sc_send_raw :: "exn + unit \<Rightarrow> ('m, 'h) sync_client \<Rightarrow> exn + unit" where
  "sc_send_raw outcome c = bind_result (sc_send_check c) (\<lambda>_. sc_send_end outcome)"

text \<open>
  \<^verbatim>\<open>recv\<close>: no outcome means that the call waits for the queue. A call that waits goes on with
  \<^verbatim>\<open>sc_take\<close>, without looking at the flag again; the timeout of that wait is below.
\<close>

definition sc_take :: "('m, 'h) sync_client \<Rightarrow> (exn + 'm) option \<times> ('m, 'h) sync_client" where
  "sc_take c =
     (case sc_queue c of
        [] \<Rightarrow> (None, c)
      | Some m # q \<Rightarrow> (Some (Inr m), c\<lparr>sc_queue := q\<rparr>)
      | None # q \<Rightarrow> (Some (Inl sc_connection_closed), c\<lparr>sc_queue := q\<rparr>))"

definition sc_recv :: "('m, 'h) sync_client \<Rightarrow> (exn + 'm) option \<times> ('m, 'h) sync_client" where
  "sc_recv c = (if sc_closed c \<and> sc_queue c = [] then (Some (Inl sc_closed_error), c) else sc_take c)"

definition sc_recv_timeout :: "pyfloat option \<Rightarrow> exn" where
  "sc_recv_timeout timeout =
     TimeoutError ''No message received'' (case timeout of Some t \<Rightarrow> t | None \<Rightarrow> 0) ''recv''"

text \<open>
  \<^verbatim>\<open>__next__\<close> polls the queue for a tenth of a second at a time and calls itself when nothing came:
  \<^verbatim>\<open>depth\<close> is how many more calls the interpreter's stack takes, and each element of \<^verbatim>\<open>polls\<close> is
  what is queued while one poll waits. The left value \<^verbatim>\<open>None\<close> is \<^verbatim>\<open>StopIteration\<close>.
\<close>

fun sc_next :: "nat \<Rightarrow> 'm option list list \<Rightarrow> ('m, 'h) sync_client \<Rightarrow> (exn option + 'm) option \<times> ('m, 'h) sync_client" where
  "sc_next 0 polls c = (Some (Inl (Some (OtherException ''RecursionError''))), c)"
| "sc_next (Suc depth) polls c =
     (if sc_closed c \<and> sc_queue c = [] then (Some (Inl None), c)
      else case polls of
             [] \<Rightarrow> (None, c)
           | arrived # polls' \<Rightarrow>
               (let c1 = c\<lparr>sc_queue := sc_queue c @ arrived\<rparr>
                in case sc_queue c1 of
                     Some m # q \<Rightarrow> (Some (Inr m), c1\<lparr>sc_queue := q\<rparr>)
                   | None # q \<Rightarrow> (Some (Inl None), c1\<lparr>sc_queue := q\<rparr>)
                   | [] \<Rightarrow> if sc_closed c1 then (Some (Inl None), c1) else sc_next depth polls' c1))"

subsection \<open>Statistics\<close>

text \<open>\<^verbatim>\<open>mstats\<close> and \<^verbatim>\<open>mlatency\<close> are what the manager, if there is one, reports.\<close>

definition sc_stats :: "pyfloat \<Rightarrow> connection_stats \<Rightarrow> ('m, 'h) sync_client \<Rightarrow> connection_stats" where
  "sc_stats now mstats c = (case sc_manager c of None \<Rightarrow> snapshot now new_stats | Some _ \<Rightarrow> mstats)"

definition sc_latency_ms :: "pyfloat option \<Rightarrow> ('m, 'h) sync_client \<Rightarrow> pyfloat option" where
  "sc_latency_ms mlatency c = (case sc_manager c of None \<Rightarrow> None | Some _ \<Rightarrow> mlatency)"

subsection \<open>Handlers\<close>

definition sc_add_handler :: "string \<Rightarrow> 'h \<Rightarrow> ('m, 'h) sync_client \<Rightarrow> ('m, 'h) sync_client" where
  "sc_add_handler event handler c =
     (case sc_manager c of
        Some (s, em) \<Rightarrow> c\<lparr>sc_manager := Some (s, add_handler event (Some handler) em)\<rparr>
      | None \<Rightarrow> c\<lparr>sc_pending_handlers := sc_pending_handlers c @ [(event, handler)]\<rparr>)"

definition sc_remove_handler :: "string \<Rightarrow> 'h \<Rightarrow> ('m, 'h) sync_client \<Rightarrow> bool \<times> ('m, 'h) sync_client" where
  "sc_remove_handler event handler c =
     (case sc_manager c of
        Some (s, em) \<Rightarrow> (let (found, em') = remove_handler event (Some handler) em in (found, c\<lparr>sc_manager := Some (s, em')\<rparr>))
      | None \<Rightarrow>
          if (event, handler) \<in> set (sc_pending_handlers c)
          then (True, c\<lparr>sc_pending_handlers := remove1 (event, handler) (sc_pending_handlers c)\<rparr>) else (False, c))"

subsection \<open>Properties\<close>

primrec sc_recv_n :: "nat \<Rightarrow> ('m, 'h) sync_client \<Rightarrow> (exn + 'm) option list" where
  "sc_recv_n 0 c = []"
| "sc_recv_n (Suc n) c = fst (sc_recv c) # sc_recv_n n (snd (sc_recv c))"

lemma on_message_many: "fold on_message ms c = c\<lparr>sc_queue := sc_queue c @ map Some ms\<rparr>"
  by (induction ms arbitrary: c) (simp_all add: on_message_def)

lemma sc_recv_n_queued:
  assumes "sc_queue c = map Some ms @ q"
  shows "sc_recv_n (length ms + k) c = map (Some \<circ> Inr) ms @ sc_recv_n k (c\<lparr>sc_queue := q\<rparr>)"
  using assms
proof (induction ms arbitrary: c)
  case Nil
  then show ?case by (cases c) simp
next
  case (Cons m ms)
  then show ?case by (simp add: sc_recv_def sc_take_def)
qed

lemma sc_recv_n_shut:
  "sc_closed c \<Longrightarrow> sc_queue c = [] \<Longrightarrow> sc_recv_n k c = replicate k (Some (Inl sc_closed_error))"
  by (induction k) (simp_all add: sc_recv_def sc_take_def)

text \<open>
  The blocking client delivers what the loop thread forwards: the messages come out of \<^verbatim>\<open>recv\<close>
  in the order of the events, those that arrived before \<^verbatim>\<open>close\<close> are still delivered after it,
  then one call reports the closed connection and every further call is refused; an open client
  with nothing queued waits.
\<close>

theorem sync_client_delivers:
  assumes "\<not> sc_closed c" and "sc_queue c = []"
  shows "sc_recv_n (length ms + Suc k) (sc_close [] (fold on_message ms c))
       = map (Some \<circ> Inr) ms @ Some (Inl sc_connection_closed) # replicate k (Some (Inl sc_closed_error))
     \<and> sc_recv_n (length ms + Suc k) (fold on_message ms c) = map (Some \<circ> Inr) ms @ replicate (Suc k) None"
proof -
  define d where "d = sc_close [] (fold on_message ms c)"
  have d: "sc_queue d = map Some ms @ [None]" "sc_closed d"
    using assms by (simp_all add: d_def sc_close_def sc_close_begin_def shutdown_loop_def on_message_many Let_def)
  have "sc_recv_n (Suc k) (d\<lparr>sc_queue := [None]\<rparr>) = Some (Inl sc_connection_closed) # replicate k (Some (Inl sc_closed_error))"
    using d(2) sc_recv_n_shut [of "d\<lparr>sc_queue := []\<rparr>" k] by (simp add: sc_recv_def sc_take_def)
  with sc_recv_n_queued [OF d(1), of "Suc k"]
  have closed: "sc_recv_n (length ms + Suc k) d
      = map (Some \<circ> Inr) ms @ Some (Inl sc_connection_closed) # replicate k (Some (Inl sc_closed_error))" by simp
  define e where "e = fold on_message ms c"
  have e: "sc_queue e = map Some ms @ []" "\<not> sc_closed e" using assms by (simp_all add: e_def on_message_many)
  have "sc_recv_n j (e\<lparr>sc_queue := []\<rparr>) = replicate j None" for j
    using e(2) by (induction j) (simp_all add: sc_recv_def sc_take_def)
  with sc_recv_n_queued [OF e(1), of "Suc k"]
  have "sc_recv_n (length ms + Suc k) e = map (Some \<circ> Inr) ms @ replicate (Suc k) None" by simp
  with closed show ?thesis by (simp add: d_def e_def)
qed

theorem sync_client_delivers_witness:
  "sc_recv_n (length [1, 2 :: nat] + Suc 1) (sc_close [] (fold on_message [1, 2] (new_sync_client :: (nat, unit) sync_client)))
     = [Some (Inr 1), Some (Inr 2), Some (Inl sc_connection_closed), Some (Inl sc_closed_error)]"
  using sync_client_delivers [of "new_sync_client :: (nat, unit) sync_client" "[1, 2]" 1]
  by (simp add: new_sync_client_def)

text \<open>
  A message that arrives while \<^verbatim>\<open>close\<close> is under way is queued behind the sentinel: a reader is first
  told that the connection is closed and then given the message.
\<close>

theorem late_messages_follow_the_report:
  assumes "\<not> sc_closed c" and "sc_queue c = []" and "sc_loop c" and "sc_manager c \<noteq> None"
  shows "sc_recv_n (Suc (length late + k)) (sc_close late c)
    = Some (Inl sc_connection_closed) # map (Some \<circ> Inr) late @ replicate k (Some (Inl sc_closed_error))"
proof -
  define d where "d = sc_close late c"
  have d: "sc_queue d = None # map Some late" "sc_closed d"
    using assms by (simp_all add: d_def sc_close_def sc_close_begin_def shutdown_loop_def on_message_many Let_def)
  have "sc_queue (d\<lparr>sc_queue := map Some late\<rparr>) = map Some late @ []" by simp
  from sc_recv_n_queued [OF this, of k] sc_recv_n_shut [of "d\<lparr>sc_queue := []\<rparr>" k] d show ?thesis
    by (simp add: d_def [symmetric] sc_recv_def sc_take_def)
qed

text \<open>
  A failed \<^verbatim>\<open>connect\<close> loses the handlers that were registered before it: they were moved to the
  manager that is discarded, so the manager of the next attempt only has the client's own handler.
\<close>

theorem failed_connect_loses_handlers:
  "(case snd (sc_connect_end (Inl e) (run_event_loop (Inr ()) c)) of c2 \<Rightarrow>
      sc_pending_handlers c2 = [] \<and> sc_manager c2 = None
      \<and> sc_manager (run_event_loop (Inr ()) c2) = Some (IDLE, [(''message'', [None])]))"
  by (simp add: sc_connect_end_def run_event_loop_def shutdown_loop_def new_emitter_def add_handler_def Let_def)

text \<open>
  An invalid configuration is not reported: the manager is built in the thread, whose exception is
  dropped; \<^verbatim>\<open>connect\<close> then fails with the error of a closed event loop, whatever the manager's
  constructor said, and the next attempt is let in and fails in the same way.
\<close>

theorem constructor_error_hidden:
  assumes "sc_connect_begin c = Inr c1"
  shows "sc_connect_submit True (run_event_loop (Inl e) c1) = Inl (RuntimeError ''Event loop is closed'')
     \<and> (\<exists>c2. sc_connect_begin (run_event_loop (Inl e) c1) = Inr c2
           \<and> sc_connect_submit True (run_event_loop (Inl e') c2) = Inl (RuntimeError ''Event loop is closed''))"
  using assms by (auto simp: sc_connect_begin_def sc_connect_submit_def run_event_loop_def split: if_splits)

text \<open>
  Iterating over a quiet connection fails: after as many empty polls as the stack takes nested
  calls, \<^verbatim>\<open>__next__\<close> raises \<^verbatim>\<open>RecursionError\<close> although the connection is open.
\<close>

theorem quiet_iteration_overflows_stack:
  assumes "\<not> sc_closed c" and "sc_queue c = []"
  shows "fst (sc_next depth (replicate depth [] @ polls) c) = Some (Inl (Some (OtherException ''RecursionError'')))"
  using assms by (induction depth arbitrary: c) simp_all

end
