(* ===== verification/Jet_Client_System.thy ===== *)
theory Jet_Client_System
  imports Jet_Sync_Client
begin

text \<open>
  The blocking client as a system: the threads that call it, the loop thread that forwards messages,
  and the threads that wait in \<^verbatim>\<open>recv\<close>, interleaved in any order. Beside the client's own state the
  system counts the threads that have been started but have no loop yet, the loops that are alive (a
  loop may forward messages until it ends, also when the client has forgotten it) and the calls of
  \<^verbatim>\<open>recv\<close> that wait without a timeout, and records what was forwarded, what was received and how
  often a call has reported the end.
\<close>

record ('m, 'h) client_sys =
  cy_client :: "('m, 'h) sync_client"
  cy_starting :: nat
  cy_running :: nat
  cy_waiting :: nat
  cy_got :: "'m list"
  cy_forwarded :: "'m list"
  cy_reports :: nat

definition new_client_sys :: "('m, 'h) client_sys" where
  "new_client_sys = \<lparr>cy_client = new_sync_client, cy_starting = 0, cy_running = 0, cy_waiting = 0,
     cy_got = [], cy_forwarded = [], cy_reports = 0\<rparr>"

abbreviation with_client :: "('m, 'h) sync_client \<Rightarrow> ('m, 'h) client_sys \<Rightarrow> ('m, 'h) client_sys" where
  "with_client c s \<equiv> s\<lparr>cy_client := c\<rparr>"

text \<open>
  A call that takes from the queue: at once, after a wait, in a timed wait or in a poll of
  \<^verbatim>\<open>__next__\<close>.
\<close>

definition record_result :: "exn + 'm \<Rightarrow> ('m, 'h) client_sys \<Rightarrow> ('m, 'h) client_sys" where
  "record_result r s =
     (case r of Inr m \<Rightarrow> s\<lparr>cy_got := cy_got s @ [m]\<rparr> | Inl _ \<Rightarrow> s\<lparr>cy_reports := cy_reports s + 1\<rparr>)"

inductive client_step :: "('m, 'h) client_sys \<Rightarrow> ('m, 'h) client_sys \<Rightarrow> bool" where
  connects: "sc_connect_begin (cy_client s) = Inr c
    \<Longrightarrow> client_step s (s\<lparr>cy_client := c, cy_starting := cy_starting s + 1\<rparr>)"
| loop_up: "cy_starting s = Suc n
    \<Longrightarrow> client_step s (s\<lparr>cy_client := run_event_loop (Inr ()) (cy_client s), cy_starting := n, cy_running := cy_running s + 1\<rparr>)"
| loop_fails: "cy_starting s = Suc n
    \<Longrightarrow> client_step s (s\<lparr>cy_client := run_event_loop (Inl e) (cy_client s), cy_starting := n\<rparr>)"
| connect_ends: "client_step s (with_client (snd (sc_connect_end outcome (cy_client s))) s)"
| manager_moves: "sc_manager (cy_client s) = Some (st, em)
    \<Longrightarrow> client_step s (with_client ((cy_client s)\<lparr>sc_manager := Some (st', em)\<rparr>) s)"
| forwards: "cy_running s > 0
    \<Longrightarrow> client_step s (s\<lparr>cy_client := on_message m (cy_client s), cy_forwarded := cy_forwarded s @ [m]\<rparr>)"
| loop_ends: "cy_running s = Suc n \<Longrightarrow> client_step s (s\<lparr>cy_running := n\<rparr>)"
| close_begins: "\<not> sc_closed (cy_client s) \<Longrightarrow> client_step s (with_client (sc_close_begin (cy_client s)) s)"
| close_ends: "sc_closed (cy_client s) \<Longrightarrow> client_step s (with_client (shutdown_loop (cy_client s)) s)"
| refused: "sc_recv (cy_client s) = (Some (Inl sc_closed_error), cy_client s) \<Longrightarrow> client_step s s"
| blocks: "sc_recv (cy_client s) = (None, c) \<Longrightarrow> client_step s (s\<lparr>cy_waiting := cy_waiting s + 1\<rparr>)"
| takes: "sc_take (cy_client s) = (Some r, c) \<Longrightarrow> client_step s (record_result r (with_client c s))"
| wakes: "cy_waiting s = Suc n \<Longrightarrow> sc_take (cy_client s) = (Some r, c)
    \<Longrightarrow> client_step s (record_result r (s\<lparr>cy_client := c, cy_waiting := n\<rparr>))"
| handler_added: "client_step s (with_client (sc_add_handler event handler (cy_client s)) s)"
| handler_removed: "client_step s (with_client (snd (sc_remove_handler event handler (cy_client s))) s)"

subsection \<open>What the queue holds\<close>

definition queued_messages :: "'m option list \<Rightarrow> 'm list" where
  "queued_messages q = List.map_filter (\<lambda>x. x) q"

lemma queued_messages_simps [simp]:
  "queued_messages [] = []" "queued_messages (Some m # q) = m # queued_messages q"
  "queued_messages (None # q) = queued_messages q" "queued_messages (q @ q') = queued_messages q @ queued_messages q'"
  by (simp_all add: queued_messages_def List.map_filter_def)

text \<open>
  The messages received, followed by those in the queue, are the messages forwarded; the sentinel is
  there, or has been consumed, exactly when the client is closed.
\<close>

definition client_ok :: "('m, 'h) client_sys \<Rightarrow> bool" where
  "client_ok s \<longleftrightarrow> cy_got s @ queued_messages (sc_queue (cy_client s)) = cy_forwarded s
     \<and> cy_reports s + count_list (sc_queue (cy_client s)) None = (if sc_closed (cy_client s) then 1 else 0)"

lemma queue_frame [simp]:
  "sc_queue (run_event_loop made c) = sc_queue c" "sc_closed (run_event_loop made c) = sc_closed c"
  "sc_queue (shutdown_loop c) = sc_queue c" "sc_closed (shutdown_loop c) = sc_closed c"
  "sc_queue (snd (sc_connect_end outcome c)) = sc_queue c" "sc_closed (snd (sc_connect_end outcome c)) = sc_closed c"
  "sc_queue (sc_add_handler event handler c) = sc_queue c" "sc_closed (sc_add_handler event handler c) = sc_closed c"
  "sc_queue (snd (sc_remove_handler event handler c)) = sc_queue c"
  "sc_closed (snd (sc_remove_handler event handler c)) = sc_closed c"
  by (auto simp: run_event_loop_def shutdown_loop_def sc_connect_end_def sc_add_handler_def sc_remove_handler_def Let_def
      split: sum.split option.split prod.split)

lemma sc_take_Some:
  assumes "sc_take c = (Some r, c')"
  shows "sc_queue c = (case r of Inr m \<Rightarrow> Some m | Inl _ \<Rightarrow> None) # sc_queue c'" "sc_closed c' = sc_closed c"
  using assms by (auto simp: sc_take_def split: list.splits option.splits)

lemma client_step_ok: "client_step s s' \<Longrightarrow> client_ok s \<Longrightarrow> client_ok s'"
proof (induction rule: client_step.induct)
  case (connects s c)
  then show ?case by (auto simp: client_ok_def sc_connect_begin_def split: if_splits)
next
  case (takes s r c)
  from sc_take_Some [OF takes.hyps] takes.prems show ?case
    by (cases r) (simp_all add: client_ok_def record_result_def)
next
  case (wakes s n r c)
  from sc_take_Some [OF wakes.hyps(2)] wakes.prems show ?case
    by (cases r) (simp_all add: client_ok_def record_result_def)
qed (auto simp: client_ok_def on_message_def sc_close_begin_def)

interpretation client_sys: preserved client_step client_ok
  by unfold_locales (rule client_step_ok)



subsection \<open>Receivers that nobody wakes\<close>

text \<open>Closed, no loop left, nothing queued, and \<^verbatim>\<open>n\<close> calls of \<^verbatim>\<open>recv\<close> still waiting.\<close>

definition stranded :: "nat \<Rightarrow> ('m, 'h) client_sys \<Rightarrow> bool" where
  "stranded n s \<longleftrightarrow> sc_closed (cy_client s) \<and> cy_starting s = 0 \<and> cy_running s = 0
     \<and> sc_queue (cy_client s) = [] \<and> cy_waiting s = n"

lemma client_step_stranded: "client_step s s' \<Longrightarrow> stranded n s \<Longrightarrow> stranded n s'"
  by (induction rule: client_step.induct)
     (auto simp: stranded_def sc_connect_begin_def sc_recv_def sc_take_def)

interpretation stranded_sys: preserved client_step "stranded n" for n
  by unfold_locales (rule client_step_stranded)

lemma recv_blocks_empty: "\<not> sc_closed c \<Longrightarrow> sc_queue c = [] \<Longrightarrow> sc_recv c = (None, c)"
  by (simp add: sc_recv_def sc_take_def)

text \<open>
  C38. \<^verbatim>\<open>close\<close> wakes one receiver only: when two threads wait in \<^verbatim>\<open>recv\<close>, the single sentinel ends one of
  the calls; the client can then reach a state in which the other still waits, and from there on
  it waits in every continuation, for ever.
\<close>

theorem second_receiver_waits_forever:
  fixes s :: "('m, 'h) client_sys"
  assumes "\<not> sc_closed (cy_client s)" and "sc_queue (cy_client s) = []" and "cy_starting s = 0"
    and "cy_running s = 1" and "cy_waiting s = 2"
  shows "\<exists>t. client_step\<^sup>*\<^sup>* s t \<and> sc_closed (cy_client t) \<and> cy_reports t = cy_reports s + 1 \<and> cy_waiting t = 1
     \<and> (\<forall>u. client_step\<^sup>*\<^sup>* t u \<longrightarrow> cy_waiting u = 1 \<and> sc_queue (cy_client u) = [])"
proof -
  define s1 where "s1 = with_client (sc_close_begin (cy_client s)) s"
  define s2 where "s2 = record_result (Inl sc_connection_closed :: exn + 'm)
    (s1\<lparr>cy_client := (cy_client s1)\<lparr>sc_queue := []\<rparr>, cy_waiting := 1\<rparr>)"
  define s3 where "s3 = with_client (shutdown_loop (cy_client s2)) s2"
  define t where "t = s3\<lparr>cy_running := 0\<rparr>"
  have "client_step s s1" unfolding s1_def using assms(1) by (rule client_step.close_begins)
  moreover have "client_step s1 s2" unfolding s2_def
    by (rule client_step.wakes) (use assms in \<open>simp_all add: s1_def sc_close_begin_def sc_take_def\<close>)
  moreover have "client_step s2 s3" unfolding s3_def
    by (rule client_step.close_ends) (simp add: s2_def s1_def record_result_def sc_close_begin_def)
  moreover have "client_step s3 t" unfolding t_def
    by (rule client_step.loop_ends) (use assms in \<open>simp add: s3_def s2_def s1_def record_result_def\<close>)
  ultimately have "client_step\<^sup>*\<^sup>* s t" by (meson r_into_rtranclp rtranclp_trans)
  moreover have t: "stranded 1 t" "cy_reports t = cy_reports s + 1"
    using assms by (simp_all add: stranded_def t_def s3_def s2_def s1_def record_result_def sc_close_begin_def)
  moreover have "cy_waiting u = 1 \<and> sc_queue (cy_client u) = []" if "client_step\<^sup>*\<^sup>* t u" for u
    using stranded_sys.always [OF that t(1)] by (simp add: stranded_def)
  ultimately show ?thesis by (auto simp: stranded_def)
qed

theorem second_receiver_waits_forever_witness:
  "\<exists>t :: (nat, unit) client_sys. client_step\<^sup>*\<^sup>* (new_client_sys\<lparr>cy_running := 1, cy_waiting := 2\<rparr>) t \<and> cy_reports t = 1 \<and> cy_waiting t = 1"
proof -
  have "\<not> sc_closed (cy_client (new_client_sys :: (nat, unit) client_sys))"
    "sc_queue (cy_client (new_client_sys :: (nat, unit) client_sys)) = []"
    by (simp_all add: new_client_sys_def new_sync_client_def)
  with second_receiver_waits_forever [of "(new_client_sys :: (nat, unit) client_sys)\<lparr>cy_running := 1, cy_waiting := 2\<rparr>"]
  show ?thesis by (auto simp: new_client_sys_def)
qed

end
