(* ===== verification/Jet_Masking.thy ===== *)
theory Jet_Masking
  imports Jet_Prelude
begin

text \<open>
  Payload masking (\<^verbatim>\<open>_apply_mask_c\<close> and \<^verbatim>\<open>apply_mask\<close> of \<^verbatim>\<open>src/jetsocket/_core.pyx\<close>). The C
  routine works in place, eight bytes at a time with a 64-bit word, then four with a 32-bit word,
  then one by one. A word is loaded from and stored to memory in little-endian order; since the
  masks are built from memory in the same way, the result does not depend on that order. The
  optimised routine is proved equal to the byte-wise definition of RFC 6455.
\<close>

subsection \<open>Words in memory\<close>

primrec le_word :: "bytes \<Rightarrow> 'a::len word" where
  "le_word [] = 0"
| "le_word (b # bs) = ucast b OR push_bit 8 (le_word bs)"

primrec word_le :: "nat \<Rightarrow> 'a::len word \<Rightarrow> bytes" where
  "word_le 0 w = []"
| "word_le (Suc n) w = ucast w # word_le n (drop_bit 8 w)"

definition store_at :: "bytes \<Rightarrow> nat \<Rightarrow> bytes \<Rightarrow> bytes" where
  "store_at dat i bs = take i dat @ bs @ drop (i + length bs) dat"

lemma length_word_le [simp]: "length (word_le n w) = n"
  by (induction n arbitrary: w) simp_all

lemma length_store_at [simp]:
  "i + length bs \<le> length dat \<Longrightarrow> length (store_at dat i bs) = length dat"
  by (simp add: store_at_def)

subsection \<open>The routine\<close>

function mask_loop64 :: "bytes \<Rightarrow> nat \<Rightarrow> 64 word \<Rightarrow> bytes \<times> nat" where
  "mask_loop64 dat i mask64 =
     (if i + 8 \<le> length dat
      then mask_loop64
             (store_at dat i (word_le 8 (le_word (take 8 (drop i dat)) XOR mask64))) (i + 8) mask64
      else (dat, i))"
  by pat_completeness auto
termination
  by (relation "measure (\<lambda>(dat, i, m). length dat - i)") auto

function mask_loop32 :: "bytes \<Rightarrow> nat \<Rightarrow> 32 word \<Rightarrow> bytes \<times> nat" where
  "mask_loop32 dat i mask32 =
     (if i + 4 \<le> length dat
      then mask_loop32
             (store_at dat i (word_le 4 (le_word (take 4 (drop i dat)) XOR mask32))) (i + 4) mask32
      else (dat, i))"
  by pat_completeness auto
termination
  by (relation "measure (\<lambda>(dat, i, m). length dat - i)") auto

function mask_loop8 :: "bytes \<Rightarrow> nat \<Rightarrow> bytes \<Rightarrow> bytes" where
  "mask_loop8 dat i key =
     (if i < length dat
      then mask_loop8 (dat[i := dat ! i XOR key ! (i mod 4)]) (i + 1) key
      else dat)"
  by pat_completeness auto
termination
  by (relation "measure (\<lambda>(dat, i, m). length dat - i)") auto

declare mask_loop64.simps [simp del] mask_loop32.simps [simp del] mask_loop8.simps [simp del]

definition apply_mask_c :: "bytes \<Rightarrow> bytes \<Rightarrow> bytes" where
  "apply_mask_c dat key =
     (let mask32 = (le_word (take 4 key) :: 32 word);
          mask64 = (ucast mask32 OR push_bit 32 (ucast mask32) :: 64 word);
          (dat1, i) = mask_loop64 dat 0 mask64;
          (dat2, j) = mask_loop32 dat1 i mask32
      in mask_loop8 dat2 j key)"

text \<open>
  \<^verbatim>\<open>apply_mask\<close> copies its input. A key of fewer than four bytes makes \<^verbatim>\<open>memcpy\<close> read past
  the key's buffer; \<^term>\<open>None\<close> stands for that undefined behaviour.
\<close>

definition apply_mask :: "bytes \<Rightarrow> bytes \<Rightarrow> bytes option" where
  "apply_mask dat key =
     (if dat = [] then Some []
      else if length key < 4 then None
      else Some (apply_mask_c dat key))"

subsection \<open>The byte-wise definition\<close>

definition xor_mask :: "bytes \<Rightarrow> bytes \<Rightarrow> bytes" where
  "xor_mask dat key = map (\<lambda>i. dat ! i XOR key ! (i mod 4)) [0..<length dat]"

lemma length_xor_mask [simp]: "length (xor_mask dat key) = length dat"
  by (simp add: xor_mask_def)

lemma nth_xor_mask [simp]:
  "i < length dat \<Longrightarrow> xor_mask dat key ! i = dat ! i XOR key ! (i mod 4)"
  by (simp add: xor_mask_def)

lemma xor_mask_Nil [simp]: "xor_mask [] key = []"
  by (simp add: xor_mask_def)

lemma xor_mask_involution: "xor_mask (xor_mask dat key) key = dat"
  by (rule nth_equalityI) (simp_all add: xor.assoc)

subsection \<open>Loads and stores are inverse, and commute with XOR\<close>

lemma bit_le_word:
  "n < LENGTH('a) \<Longrightarrow>
   bit (le_word bs :: 'a::len word) n \<longleftrightarrow> n div 8 < length bs \<and> bit (bs ! (n div 8)) (n mod 8)"
proof (induction bs arbitrary: n)
  case (Cons b bs)
  show ?case
  proof (cases "n < 8")
    case True
    with Cons.prems show ?thesis by (simp add: bit_or_iff bit_push_bit_iff bit_unsigned_iff)
  next
    case False
    then have n: "n div 8 = Suc ((n - 8) div 8)" "n mod 8 = (n - 8) mod 8"
      by (simp_all add: le_div_geq le_mod_geq)
    have "\<not> bit b n" using False bit_imp_le_length [of b n] by auto
    with False n Cons show ?thesis
      by (simp add: bit_or_iff bit_push_bit_iff bit_unsigned_iff)
  qed
qed simp

lemma nth_word_le: "i < n \<Longrightarrow> word_le n w ! i = ucast (drop_bit (8 * i) w)"
proof (induction n arbitrary: w i)
  case (Suc n)
  then show ?case by (cases i) (simp_all add: algebra_simps)
qed simp

lemma word_le_le_word:
  assumes "length bs = n" and "8 * n \<le> LENGTH('a)"
  shows "word_le n (le_word bs :: 'a::len word) = bs"
proof (rule nth_equalityI)
  fix i assume "i < length (word_le n (le_word bs :: 'a word))"
  then have i: "i < n" by simp
  show "word_le n (le_word bs :: 'a word) ! i = bs ! i"
  proof (rule bit_eqI)
    fix k assume "possible_bit TYPE(byte) k"
    then have k: "k < 8" by simp
    with i assms have "8 * i + k < LENGTH('a)" by simp
    with i k assms show "bit (word_le n (le_word bs :: 'a word) ! i) k = bit (bs ! i) k"
      by (simp add: nth_word_le bit_unsigned_iff bit_drop_bit_eq bit_le_word)
  qed
qed (use assms in simp)

lemma word_le_xor: "word_le n (v XOR w) = map2 (XOR) (word_le n v) (word_le n w)"
  by (induction n arbitrary: v w) (simp_all add: drop_bit_xor unsigned_xor_eq)

lemma le_word_append:
  "le_word (xs @ ys) = le_word xs OR push_bit (8 * length xs) (le_word ys)"
  by (induction xs) (simp_all add: push_bit_or or.assoc)

subsection \<open>Equivalence with the byte-wise definition\<close>

text \<open>The data after the first \<^term>\<open>i\<close> bytes have been masked.\<close>

definition masked_upto :: "nat \<Rightarrow> bytes \<Rightarrow> bytes \<Rightarrow> bytes" where
  "masked_upto i dat key = take i (xor_mask dat key) @ drop i dat"

lemma length_masked_upto [simp]: "length (masked_upto i dat key) = length dat"
  by (simp add: masked_upto_def)

lemma masked_upto_0 [simp]: "masked_upto 0 dat key = dat"
  by (simp add: masked_upto_def)

lemma masked_upto_all: "length dat \<le> i \<Longrightarrow> masked_upto i dat key = xor_mask dat key"
  by (simp add: masked_upto_def)

lemma nth_masked_upto:
  "j < length dat \<Longrightarrow>
   masked_upto i dat key ! j = (if j < i then xor_mask dat key ! j else dat ! j)"
  by (simp add: masked_upto_def nth_append min_def)

lemma store_masked_upto:
  assumes "i + n \<le> length dat" and "length bs = n"
    and "\<And>k. k < n \<Longrightarrow> bs ! k = dat ! (i + k) XOR key ! ((i + k) mod 4)"
  shows "store_at (masked_upto i dat key) i bs = masked_upto (i + n) dat key"
proof (rule nth_equalityI)
  fix j assume "j < length (store_at (masked_upto i dat key) i bs)"
  with assms have j: "j < length dat" by simp
  consider "j < i" | "i \<le> j" "j < i + n" | "i + n \<le> j" by linarith
  then show "store_at (masked_upto i dat key) i bs ! j = masked_upto (i + n) dat key ! j"
  proof cases
    case 2
    then have "j - i < n" by linarith
    with 2 j assms show ?thesis by (simp add: store_at_def nth_append nth_masked_upto)
  next
    case 3
    then have "\<not> j - i < n" by linarith
    with 3 j assms show ?thesis by (simp add: store_at_def nth_append nth_masked_upto)
  qed (use j assms in \<open>simp add: store_at_def nth_append nth_masked_upto\<close>)
qed (use assms in simp)

lemma store_word_masked_upto:
  fixes key' :: "'a::len word"
  assumes "i + n \<le> length dat" and "8 * n \<le> LENGTH('a)" and "4 dvd i"
    and key': "\<And>k. k < n \<Longrightarrow> word_le n key' ! k = key ! (k mod 4)"
  shows "store_at (masked_upto i dat key) i
           (word_le n (le_word (take n (drop i (masked_upto i dat key))) XOR key'))
         = masked_upto (i + n) dat key"
proof (rule store_masked_upto)
  let ?bs = "take n (drop i (masked_upto i dat key))"
  have bs: "?bs = take n (drop i dat)"
    using assms(1) by (simp add: masked_upto_def)
  have "word_le n (le_word ?bs XOR key') = map2 (XOR) (take n (drop i dat)) (word_le n key')"
    using assms(1,2) by (simp add: bs word_le_xor word_le_le_word)
  moreover have "(i + k) mod 4 = k mod 4" for k
    using \<open>4 dvd i\<close> by (metis mod_add_left_eq mod_0_imp_dvd dvd_imp_mod_0 add_0)
  ultimately show "word_le n (le_word ?bs XOR key') ! k = dat ! (i + k) XOR key ! ((i + k) mod 4)"
    if "k < n" for k
    using that assms(1) key' by simp
qed (use assms in simp_all)

lemma mask_loop64_masked_upto:
  assumes key64: "\<And>k. k < 8 \<Longrightarrow> word_le 8 key64 ! k = key ! (k mod 4)"
    and "4 dvd i" and "i \<le> length dat"
  shows "\<exists>j. mask_loop64 (masked_upto i dat key) i key64 = (masked_upto j dat key, j)
           \<and> 4 dvd j \<and> j \<le> length dat"
  using assms(2,3)
proof (induction "length dat - i" arbitrary: i rule: less_induct)
  case less
  show ?case
  proof (cases "i + 8 \<le> length dat")
    case True
    then have eq: "mask_loop64 (masked_upto i dat key) i key64
                 = mask_loop64 (masked_upto (i + 8) dat key) (i + 8) key64"
      using less.prems key64
      by (subst mask_loop64.simps) (simp add: store_word_masked_upto)
    show ?thesis
      unfolding eq by (rule less.hyps) (use True less.prems in auto)
  next
    case False
    with less.prems show ?thesis by (auto simp: mask_loop64.simps)
  qed
qed

lemma mask_loop32_masked_upto:
  assumes key32: "\<And>k. k < 4 \<Longrightarrow> word_le 4 key32 ! k = key ! (k mod 4)"
    and "4 dvd i" and "i \<le> length dat"
  shows "\<exists>j. mask_loop32 (masked_upto i dat key) i key32 = (masked_upto j dat key, j)
           \<and> j \<le> length dat"
  using assms(2,3)
proof (induction "length dat - i" arbitrary: i rule: less_induct)
  case less
  show ?case
  proof (cases "i + 4 \<le> length dat")
    case True
    then have eq: "mask_loop32 (masked_upto i dat key) i key32
                 = mask_loop32 (masked_upto (i + 4) dat key) (i + 4) key32"
      using less.prems key32
      by (subst mask_loop32.simps) (simp add: store_word_masked_upto)
    show ?thesis
      unfolding eq by (rule less.hyps) (use True less.prems in auto)
  next
    case False
    with less.prems show ?thesis by (auto simp: mask_loop32.simps)
  qed
qed

lemma mask_loop8_masked_upto:
  "mask_loop8 (masked_upto i dat key) i key = xor_mask dat key"
proof (induction "length dat - i" arbitrary: i rule: less_induct)
  case less
  show ?case
  proof (cases "i < length dat")
    case True
    have "store_at (masked_upto i dat key) i [dat ! i XOR key ! (i mod 4)]
        = masked_upto (i + 1) dat key"
      by (rule store_masked_upto) (use True in auto)
    with True have "(masked_upto i dat key)[i := dat ! i XOR key ! (i mod 4)]
        = masked_upto (i + 1) dat key"
      by (simp add: store_at_def upd_conv_take_nth_drop)
    with True less show ?thesis
      by (subst mask_loop8.simps) (simp add: nth_masked_upto)
  next
    case False
    then show ?thesis by (simp add: mask_loop8.simps masked_upto_all)
  qed
qed

lemma word_le_key32:
  assumes "4 \<le> length key"
  shows "word_le 4 (le_word (take 4 key) :: 32 word) = take 4 key"
  by (rule word_le_le_word) (use assms in simp_all)

lemma word_le_key64:
  assumes "4 \<le> length key"
  defines "key32 \<equiv> (le_word (take 4 key) :: 32 word)"
  shows "word_le 8 (ucast key32 OR push_bit 32 (ucast key32) :: 64 word) = take 4 key @ take 4 key"
proof -
  have "ucast key32 = (le_word (take 4 key) :: 64 word)"
  proof (rule bit_eqI)
    fix n assume "possible_bit TYPE(64 word) n"
    then have n: "n < 64" by simp
    show "bit (ucast key32 :: 64 word) n = bit (le_word (take 4 key) :: 64 word) n"
    proof (cases "n < 32")
      case True
      with n show ?thesis by (simp add: key32_def bit_unsigned_iff bit_le_word)
    next
      case False
      then have "\<not> bit key32 n" using bit_imp_le_length [of key32 n] by auto
      moreover have "\<not> n div 8 < length (take 4 key)" using False by simp linarith
      ultimately show ?thesis using n by (auto simp: bit_unsigned_iff bit_le_word)
    qed
  qed
  then have "(ucast key32 OR push_bit 32 (ucast key32) :: 64 word)
      = le_word (take 4 key @ take 4 key)"
    using assms(1) by (simp add: le_word_append min_def)
  then show ?thesis
    using assms(1) by (simp add: word_le_le_word)
qed

lemma apply_mask_c_eq:
  assumes "4 \<le> length key"
  shows "apply_mask_c dat key = xor_mask dat key"
proof -
  define key32 where "key32 = (le_word (take 4 key) :: 32 word)"
  define key64 where "key64 = (ucast key32 OR push_bit 32 (ucast key32) :: 64 word)"
  have k32: "word_le 4 key32 ! k = key ! (k mod 4)" if "k < 4" for k
    using that word_le_key32 [OF assms] by (simp add: key32_def)
  have k64: "word_le 8 key64 ! k = key ! (k mod 4)" if "k < 8" for k
    using that word_le_key64 [OF assms] assms
    by (auto simp: key64_def key32_def nth_append min_def le_mod_geq)
  obtain i where i: "mask_loop64 dat 0 key64 = (masked_upto i dat key, i)" "4 dvd i" "i \<le> length dat"
    using mask_loop64_masked_upto [OF k64, of 0 dat] by auto
  obtain j where j: "mask_loop32 (masked_upto i dat key) i key32 = (masked_upto j dat key, j)"
    using mask_loop32_masked_upto [OF k32 i(2,3)] by auto
  show ?thesis
    unfolding apply_mask_c_def Let_def
    by (simp add: key32_def [symmetric] key64_def [symmetric] i(1) j mask_loop8_masked_upto)
qed

end
