(* ===== verification/Jet_Frame_Codec.thy ===== *)
theory Jet_Frame_Codec
  imports Jet_Types Jet_Masking
begin

text \<open>
  The sans-I/O frame parser and encoder (\<^verbatim>\<open>FrameParser\<close> of \<^verbatim>\<open>src/jetsocket/_core.pyx\<close>).
  \<^verbatim>\<open>os.urandom(4)\<close> is the argument \<^verbatim>\<open>key\<close> of the encoder. Sizes are natural numbers: the
  \<^verbatim>\<open>Py_ssize_t\<close> of the source is observable where a 64-bit length above \<open>2 ^ 63 - 1\<close> is
  converted, which raises \<^verbatim>\<open>OverflowError\<close>.
\<close>

record frame_parser =
  fp_max_frame_size :: int
  fp_max_message_size :: int
  fp_buffer :: bytes
  fp_message_buffer :: bytes
  fp_message_opcode :: "opcode option"

definition new_parser :: "int \<Rightarrow> int \<Rightarrow> frame_parser" where
  "new_parser max_frame_size max_message_size =
     \<lparr>fp_max_frame_size = max_frame_size, fp_max_message_size = max_message_size,
      fp_buffer = [], fp_message_buffer = [], fp_message_opcode = None\<rparr>"

definition reset_parser :: "frame_parser \<Rightarrow> frame_parser" where
  "reset_parser p = p\<lparr>fp_buffer := [], fp_message_buffer := [], fp_message_opcode := None\<rparr>"

subsection \<open>Parsing one frame\<close>

text \<open>
  The extended payload length: the sizes of header and payload, or \<^term>\<open>None\<close> when the length
  field has not arrived.
\<close>

definition parse_sizes :: "bytes \<Rightarrow> nat \<Rightarrow> nat \<Rightarrow> exn + (nat \<times> nat) option" where
  "parse_sizes buf payload_len_byte mask_size =
     (if payload_len_byte \<le> 125 then Inr (Some (2 + mask_size, payload_len_byte))
      else if payload_len_byte = 126 then
        (if length buf < 4 then Inr None
         else Inr (Some (4 + mask_size, int_from_bytes_big (take 2 (drop 2 buf)))))
      else
        (if length buf < 10 then Inr None
         else let payload_len = int_from_bytes_big (take 8 (drop 2 buf)) in
           if 2 ^ 63 \<le> payload_len then Inl (OverflowError ''Python int too large to convert to C ssize_t'')
           else Inr (Some (10 + mask_size, payload_len))))"

definition check_sizes :: "frame_parser \<Rightarrow> opcode \<Rightarrow> bool \<Rightarrow> nat \<Rightarrow> exn + unit" where
  "check_sizes p opc fin payload_len =
     (if int payload_len > fp_max_frame_size p then Inl (ValueError ''Frame too large'')
      else if opcode_value opc \<ge> 0x8 \<and> payload_len > 125
        then Inl (ValueError ''Control frame too large'')
      else if opcode_value opc \<ge> 0x8 \<and> \<not> fin then Inl (ValueError ''Fragmented control frame'')
      else Inr ())"

definition extract_payload :: "bytes \<Rightarrow> bool \<Rightarrow> nat \<Rightarrow> nat \<Rightarrow> bytes" where
  "extract_payload buf masked header_size payload_len =
     (if masked
      then apply_mask_c (take payload_len (drop header_size buf)) (take 4 (drop (header_size - 4) buf))
      else take payload_len (drop header_size buf))"

text \<open>The part of \<^verbatim>\<open>_parse_frame\<close> after the sizes are known.\<close>

definition parse_body ::
  "frame_parser \<Rightarrow> opcode \<Rightarrow> bool \<Rightarrow> bool \<Rightarrow> bool \<Rightarrow> bool \<Rightarrow> bool \<Rightarrow> nat \<Rightarrow> nat
   \<Rightarrow> exn + (frame \<times> nat) option" where
  "parse_body p opc fin rsv1 rsv2 rsv3 masked header_size payload_len =
     bind_result (check_sizes p opc fin payload_len) (\<lambda>_.
       let total_size = header_size + payload_len in
       if length (fp_buffer p) < total_size then Inr None
       else Inr (Some
         (\<lparr>f_opcode = opc,
           f_payload = extract_payload (fp_buffer p) masked header_size payload_len,
           f_fin = fin, f_rsv1 = rsv1, f_rsv2 = rsv2, f_rsv3 = rsv3\<rparr>,
          total_size)))"

definition parse_frame :: "frame_parser \<Rightarrow> exn + (frame \<times> nat) option" where
  "parse_frame p =
     (let buf = fp_buffer p in
      if length buf < 2 then Inr None
      else
        let first_byte = buf ! 0; second_byte = buf ! 1;
            fin = (first_byte AND 0x80 \<noteq> 0);
            rsv1 = (first_byte AND 0x40 \<noteq> 0);
            rsv2 = (first_byte AND 0x20 \<noteq> 0);
            rsv3 = (first_byte AND 0x10 \<noteq> 0)
        in bind_result (Opcode (unat (first_byte AND 0x0F))) (\<lambda>opc.
           if rsv2 \<or> rsv3 then Inl (ValueError ''Reserved bits set without extension'')
           else
             let masked = (second_byte AND 0x80 \<noteq> 0);
                 mask_size = (if masked then 4 else 0)
             in bind_result (parse_sizes buf (unat (second_byte AND 0x7F)) mask_size) (\<lambda>sizes.
                case sizes of None \<Rightarrow> Inr None
                | Some (header_size, payload_len) \<Rightarrow>
                    parse_body p opc fin rsv1 rsv2 rsv3 masked header_size payload_len)))"

lemma parse_sizes_header:
  "parse_sizes buf b m = Inr (Some (h, n)) \<Longrightarrow> 2 + m \<le> h \<and> h \<le> 10 + m \<and> h \<le> length buf + m"
  if "2 \<le> length buf"
  using that by (auto simp: parse_sizes_def Let_def split: if_splits)

lemma parse_frame_cases:
  obtains (err) e where "parse_frame p = Inl e"
  | (short) "length (fp_buffer p) < 2" "parse_frame p = Inr None"
  | (sizes) b m where "2 \<le> length (fp_buffer p)" "parse_sizes (fp_buffer p) b m = Inr None"
      "parse_frame p = Inr None"
  | (body) opc fin rsv1 masked b h n where "2 \<le> length (fp_buffer p)"
      "parse_sizes (fp_buffer p) (unat (b AND 0x7F :: byte)) (if masked then 4 else 0) = Inr (Some (h, n))"
      "parse_frame p = parse_body p opc fin rsv1 False False masked h n"
proof (cases "length (fp_buffer p) < 2")
  case True
  then show thesis by (intro short) (simp_all add: parse_frame_def)
next
  case False
  let ?b0 = "fp_buffer p ! 0" and ?b1 = "fp_buffer p ! 1"
  let ?sizes = "parse_sizes (fp_buffer p) (unat (?b1 AND 0x7F)) (if ?b1 AND 0x80 \<noteq> 0 then 4 else 0)"
  show thesis
  proof (cases "isl (Opcode (unat (?b0 AND 0x0F))) \<or> ?b0 AND 0x20 \<noteq> 0 \<or> ?b0 AND 0x10 \<noteq> 0")
    case True
    with False show thesis
      by (cases "Opcode (unat (?b0 AND 0x0F))") (auto intro: err simp: parse_frame_def Let_def)
  next
    case ok: False
    then obtain opc where opc: "Opcode (unat (?b0 AND 0x0F)) = Inr opc"
      by (cases "Opcode (unat (?b0 AND 0x0F))") auto
    consider e where "?sizes = Inl e" | "?sizes = Inr None" | h n where "?sizes = Inr (Some (h, n))"
      by (metis not_None_eq obj_sumE surj_pair)
    then show thesis
    proof cases
      case 1
      with ok opc False show thesis by (auto intro: err simp: parse_frame_def Let_def)
    next
      case 2
      with ok opc False show thesis by (intro sizes [OF _ 2]) (auto simp: parse_frame_def Let_def)
    next
      case 3
      with ok opc False show thesis by (intro body [OF _ 3]) (auto simp: parse_frame_def Let_def)
    qed
  qed
qed

lemma parse_body_Some:
  "parse_body p opc fin rsv1 rsv2 rsv3 masked h n = Inr (Some (f, c)) \<Longrightarrow>
   c = h + n \<and> c \<le> length (fp_buffer p) \<and> int n \<le> fp_max_frame_size p"
  by (auto simp: parse_body_def check_sizes_def Let_def split: if_splits)

lemma parse_frame_SomeE:
  assumes "parse_frame p = Inr (Some (f, c))"
  obtains h n where "c = h + n" "2 \<le> h" "c \<le> length (fp_buffer p)"
    "int n \<le> fp_max_frame_size p" "h \<le> 14"
proof (cases p rule: parse_frame_cases)
  case (body opc fin rsv1 masked b h n)
  with assms parse_sizes_header [OF body(1,2)] parse_body_Some [of p opc fin rsv1 False False masked h n f c]
  show ?thesis by (intro that [of h n]) (auto split: if_splits)
qed (use assms in simp_all)

lemma parse_frame_consumed:
  assumes "parse_frame p = Inr (Some (f, n))"
  shows "2 \<le> n \<and> n \<le> length (fp_buffer p)"
  using assms by (elim parse_frame_SomeE) auto

lemma parse_frame_progress:
  "parse_frame p = Inr (Some (f, n)) \<Longrightarrow> length (fp_buffer p) - n < length (fp_buffer p)"
  by (drule parse_frame_consumed) auto

subsection \<open>Feeding bytes\<close>

text \<open>
  \<^verbatim>\<open>feed\<close>: the loop returns the frames and the number of bytes consumed; an exception leaves
  the frames parsed so far behind and the buffer at the frame that raised.
\<close>

function feed_loop :: "frame_parser \<Rightarrow> (exn + frame list \<times> nat) \<times> frame_parser" where
  "feed_loop p =
     (case parse_frame p of
        Inl e \<Rightarrow> (Inl e, p)
      | Inr None \<Rightarrow> (Inr ([], 0), p)
      | Inr (Some (f, consumed)) \<Rightarrow>
          (case feed_loop (p\<lparr>fp_buffer := drop consumed (fp_buffer p)\<rparr>) of
             (Inl e, p') \<Rightarrow> (Inl e, p')
           | (Inr (fs, rest), p') \<Rightarrow> (Inr (f # fs, consumed + rest), p')))"
  by pat_completeness auto
termination
  by (relation "measure (\<lambda>p. length (fp_buffer p))") (auto intro: parse_frame_progress)

declare feed_loop.simps [simp del]

definition feed :: "frame_parser \<Rightarrow> bytes \<Rightarrow> (exn + frame list \<times> nat) \<times> frame_parser" where
  "feed p dat = feed_loop (p\<lparr>fp_buffer := fp_buffer p @ dat\<rparr>)"

subsection \<open>Encoding\<close>

definition be_bytes :: "nat \<Rightarrow> nat \<Rightarrow> bytes" where
  "be_bytes k n = map (\<lambda>i. byte_of (n div 256 ^ i mod 256)) (rev [0..<k])"

definition encode_header :: "nat \<Rightarrow> nat \<Rightarrow> bool \<Rightarrow> bool \<Rightarrow> bool \<Rightarrow> bytes" where
  "encode_header opc payload_len masked fin rsv1 =
     (let first_byte = (if fin then 0x80 else 0x00) OR byte_of opc;
          first_byte = (if rsv1 then first_byte OR 0x40 else first_byte);
          mask_bit = (if masked then 0x80 else 0x00 :: byte)
      in first_byte #
         (if payload_len \<le> 125 then [mask_bit OR byte_of payload_len]
          else if payload_len \<le> 65535 then (mask_bit OR 126) # be_bytes 2 payload_len
          else (mask_bit OR 127) # be_bytes 8 payload_len))"

definition encode_frame :: "bytes \<Rightarrow> nat \<Rightarrow> bytes \<Rightarrow> bool \<Rightarrow> bool \<Rightarrow> bool \<Rightarrow> bytes" where
  "encode_frame key opc payload masked fin rsv1 =
     encode_header opc (length payload) masked fin rsv1 @
     (if masked then take 4 key @ apply_mask_c payload (take 4 key) else payload)"

text \<open>\<^verbatim>\<open>struct.pack(">H", code)\<close> raises outside 0..65535.\<close>

definition struct_pack_H :: "int \<Rightarrow> exn + bytes" where
  "struct_pack_H code =
     (if 0 \<le> code \<and> code \<le> 65535 then Inr (be_bytes 2 (nat code))
      else Inl (StructError ''H format requires 0 <= number <= 65535''))"

definition encode_close :: "bytes \<Rightarrow> int \<Rightarrow> pystr \<Rightarrow> bool \<Rightarrow> exn + bytes" where
  "encode_close key code reason masked =
     bind_result (struct_pack_H code) (\<lambda>hdr.
       bind_result (str_encode reason) (\<lambda>text.
         Inr (encode_frame key (opcode_value CLOSE) (hdr @ text) masked True False)))"

subsection \<open>Parsing looks at a prefix only\<close>

abbreviation extend_buf :: "frame_parser \<Rightarrow> bytes \<Rightarrow> frame_parser" where
  "extend_buf p dat \<equiv> p\<lparr>fp_buffer := fp_buffer p @ dat\<rparr>"

lemma parse_sizes_append:
  assumes "parse_sizes buf b m \<noteq> Inr None"
  shows "parse_sizes (buf @ ys) b m = parse_sizes buf b m"
  using assms by (auto simp: parse_sizes_def)

lemma extract_payload_append:
  assumes "h + n \<le> length buf" and "masked \<Longrightarrow> 4 \<le> h"
  shows "extract_payload (buf @ ys) masked h n = extract_payload buf masked h n"
  using assms by (simp add: extract_payload_def)

lemma parse_body_append:
  assumes "parse_body p opc fin rsv1 rsv2 rsv3 masked h n \<noteq> Inr None" and "masked \<Longrightarrow> 4 \<le> h"
  shows "parse_body (extend_buf p ys) opc fin rsv1 rsv2 rsv3 masked h n
       = parse_body p opc fin rsv1 rsv2 rsv3 masked h n"
  using assms
  by (cases "check_sizes p opc fin n")
     (auto simp: parse_body_def check_sizes_def Let_def extract_payload_append split: if_splits)

lemma parse_frame_append:
  assumes "parse_frame p \<noteq> Inr None"
  shows "parse_frame (extend_buf p ys) = parse_frame p"
proof -
  let ?b0 = "fp_buffer p ! 0" and ?b1 = "fp_buffer p ! 1"
  let ?masked = "?b1 AND 0x80 \<noteq> 0"
  let ?sizes = "parse_sizes (fp_buffer p) (unat (?b1 AND 0x7F)) (if ?masked then 4 else 0)"
  have len: "2 \<le> length (fp_buffer p)"
    using assms by (rule contrapos_np) (simp add: parse_frame_def)
  then have idx: "(fp_buffer p @ ys) ! 0 = ?b0" "(fp_buffer p @ ys) ! 1 = ?b1"
    by (auto simp: nth_append)
  show ?thesis
  proof (cases "Opcode (unat (?b0 AND 0x0F))")
    case (Inl e)
    with len idx show ?thesis by (simp add: parse_frame_def Let_def)
  next
    case (Inr opc)
    show ?thesis
    proof (cases "?b0 AND 0x20 \<noteq> 0 \<or> ?b0 AND 0x10 \<noteq> 0")
      case True
      with Inr len idx show ?thesis by (auto simp: parse_frame_def Let_def)
    next
      case False
      with assms Inr len have s: "?sizes \<noteq> Inr None"
        by (auto simp: parse_frame_def Let_def)
      from parse_sizes_append [OF s] have s': "parse_sizes (fp_buffer p @ ys) (unat (?b1 AND 0x7F))
          (if ?masked then 4 else 0) = ?sizes" .
      show ?thesis
      proof (cases ?sizes)
        case (Inl e)
        with False Inr len idx s' show ?thesis by (simp add: parse_frame_def Let_def)
      next
        case (Inr r)
        with s obtain h n where hn: "?sizes = Inr (Some (h, n))" by (cases r) auto
        from parse_sizes_header [OF len hn] have h: "?masked \<Longrightarrow> 4 \<le> h" by simp
        from assms False \<open>Opcode _ = Inr opc\<close> len hn
        have "parse_body p opc (?b0 AND 0x80 \<noteq> 0) (?b0 AND 0x40 \<noteq> 0) (?b0 AND 0x20 \<noteq> 0)
            (?b0 AND 0x10 \<noteq> 0) ?masked h n \<noteq> Inr None"
          by (simp add: parse_frame_def Let_def)
        from parse_body_append [OF this h] False \<open>Opcode _ = Inr opc\<close> len idx hn s' show ?thesis
          by (simp add: parse_frame_def Let_def)
      qed
    qed
  qed
qed

subsection \<open>Chunking\<close>

text \<open>
  What \<^verbatim>\<open>feed\<close> returns for two chunks, from what it returns for each.
\<close>

definition join_feed ::
  "exn + frame list \<times> nat \<Rightarrow> exn + frame list \<times> nat \<Rightarrow> exn + frame list \<times> nat" where
  "join_feed r1 r2 = bind_result r1 (\<lambda>(fs1, n1). bind_result r2 (\<lambda>(fs2, n2). Inr (fs1 @ fs2, n1 + n2)))"

lemma feed_loop_Inl: "parse_frame p = Inl e \<Longrightarrow> feed_loop p = (Inl e, p)"
  by (simp add: feed_loop.simps)

lemma feed_loop_None: "parse_frame p = Inr None \<Longrightarrow> feed_loop p = (Inr ([], 0), p)"
  by (simp add: feed_loop.simps)

lemma feed_loop_Some:
  "parse_frame p = Inr (Some (f, n)) \<Longrightarrow>
   feed_loop p = (let (r, p') = feed_loop (p\<lparr>fp_buffer := drop n (fp_buffer p)\<rparr>)
                  in (join_feed (Inr ([f], n)) r, p'))"
  by (subst feed_loop.simps)
     (auto simp: join_feed_def Let_def split: prod.splits sum.splits)

lemma join_feed_Nil [simp]: "join_feed (Inr ([], 0)) r = r"
  by (cases r) (auto simp: join_feed_def)

lemma join_feed_assoc: "join_feed (join_feed r1 r2) r3 = join_feed r1 (join_feed r2 r3)"
  by (cases r1; cases r2; cases r3) (auto simp: join_feed_def)

lemma join_feed_simps [simp]:
  "join_feed (Inl e) r = Inl e"
  "join_feed (Inr s) (Inl e) = Inl e"
  "join_feed (Inr (fs, n)) (Inr (fs', n')) = Inr (fs @ fs', n + n')"
  by (auto simp: join_feed_def split: prod.splits)

lemma feed_loop_append:
  "feed_loop (extend_buf p ys) =
     (case feed_loop p of
        (Inl e, p') \<Rightarrow> (Inl e, extend_buf p' ys)
      | (Inr r, p') \<Rightarrow> (let (r', p'') = feed_loop (extend_buf p' ys) in (join_feed (Inr r) r', p'')))"
proof (induction p rule: feed_loop.induct)
  case (1 p)
  consider (err) e where "parse_frame p = Inl e" | (none) "parse_frame p = Inr None"
    | (some) f n where "parse_frame p = Inr (Some (f, n))"
    by (metis not_None_eq obj_sumE surj_pair)
  then show ?case
  proof cases
    case err
    with parse_frame_append [of p ys] show ?thesis by (simp add: feed_loop_Inl)
  next
    case none
    then show ?thesis by (simp add: feed_loop_None)
  next
    case some
    let ?q = "p\<lparr>fp_buffer := drop n (fp_buffer p)\<rparr>"
    have n: "n \<le> length (fp_buffer p)" using parse_frame_consumed [OF some] by simp
    then have ext: "(extend_buf p ys)\<lparr>fp_buffer := drop n (fp_buffer (extend_buf p ys))\<rparr> = extend_buf ?q ys"
      by simp
    have "parse_frame (extend_buf p ys) = Inr (Some (f, n))"
      using parse_frame_append [of p ys] some by simp
    from feed_loop_Some [OF this, unfolded ext] feed_loop_Some [OF some] "1.IH" [OF some refl refl]
    show ?thesis
      by (cases "feed_loop ?q"; cases "fst (feed_loop ?q)")
         (auto simp: Let_def join_feed_assoc [symmetric] split: prod.splits)
  qed
qed

primrec feed_chunks :: "frame_parser \<Rightarrow> bytes list \<Rightarrow> (exn + frame list \<times> nat) \<times> frame_parser" where
  "feed_chunks p [] = (Inr ([], 0), p)"
| "feed_chunks p (c # cs) =
     (case feed p c of
        (Inl e, p') \<Rightarrow> (Inl e, p')
      | (Inr r, p') \<Rightarrow> (let (r', p'') = feed_chunks p' cs in (join_feed (Inr r) r', p'')))"

text \<open>A parser that waits for more bytes: the state every successful \<^verbatim>\<open>feed\<close> leaves.\<close>

definition waiting :: "frame_parser \<Rightarrow> bool" where
  "waiting p \<longleftrightarrow> parse_frame p = Inr None"

lemma waiting_new [simp]: "waiting (new_parser mf mm)"
  by (simp add: waiting_def parse_frame_def new_parser_def)

lemma feed_loop_waiting: "feed_loop p = (Inr r, p') \<Longrightarrow> waiting p'"
proof (induction p arbitrary: r p' rule: feed_loop.induct)
  case (1 p)
  consider (err) e where "parse_frame p = Inl e" | (none) "parse_frame p = Inr None"
    | (some) f n where "parse_frame p = Inr (Some (f, n))"
    by (metis not_None_eq obj_sumE surj_pair)
  then show ?case
  proof cases
    case some
    let ?q = "p\<lparr>fp_buffer := drop n (fp_buffer p)\<rparr>"
    from some "1.prems" obtain r' where "feed_loop ?q = (Inr r', p')"
      by (cases "feed_loop ?q"; cases "fst (feed_loop ?q)") (auto simp: feed_loop_Some)
    then show ?thesis by (rule "1.IH" [OF some refl refl])
  qed (use "1.prems" in \<open>simp_all add: feed_loop_Inl feed_loop_None waiting_def\<close>)
qed

lemma feed_waiting: "feed p c = (Inr r, p') \<Longrightarrow> waiting p'"
  by (auto simp: feed_def dest: feed_loop_waiting)

lemma feed_append:
  "feed p (xs @ ys) =
     (case feed p xs of
        (Inl e, p') \<Rightarrow> (Inl e, extend_buf p' ys)
      | (Inr r, p') \<Rightarrow> (let (r', p'') = feed p' ys in (join_feed (Inr r) r', p'')))"
  using feed_loop_append [of "extend_buf p xs" ys]
  by (simp add: feed_def split: prod.splits sum.splits)

lemma feed_chunks_concat:
  "waiting p \<Longrightarrow>
   fst (feed_chunks p cs) = fst (feed p (concat cs))
   \<and> (isl (fst (feed p (concat cs))) \<or> feed_chunks p cs = feed p (concat cs))"
proof (induction cs arbitrary: p)
  case Nil
  then show ?case by (simp add: feed_def waiting_def feed_loop_None)
next
  case (Cons c cs)
  show ?case
  proof (cases "feed p c")
    case (Pair r p')
    show ?thesis
    proof (cases r)
      case (Inl e)
      with Pair show ?thesis by (simp add: feed_append)
    next
      case (Inr a)
      with Pair have "waiting p'" by (simp add: feed_waiting)
      from Cons.IH [OF this] Pair Inr show ?thesis
        by (cases "feed p' (concat cs)"; cases "feed_chunks p' cs"; cases a)
           (auto simp: feed_append isl_def join_feed_def bind_result_def split: sum.splits prod.splits)
    qed
  qed
qed

subsection \<open>Encoding and parsing are inverse\<close>

text \<open>The frames a parser with these limits accepts.\<close>

definition sendable :: "frame_parser \<Rightarrow> frame \<Rightarrow> bool" where
  "sendable p f \<longleftrightarrow>
     \<not> f_rsv2 f \<and> \<not> f_rsv3 f \<and> length (f_payload f) < 2 ^ 63
     \<and> int (length (f_payload f)) \<le> fp_max_frame_size p
     \<and> (opcode_is_control (f_opcode f) \<longrightarrow> length (f_payload f) \<le> 125 \<and> f_fin f)"

definition encode_of :: "bytes \<Rightarrow> bool \<Rightarrow> frame \<Rightarrow> bytes" where
  "encode_of key masked f =
     encode_frame key (opcode_value (f_opcode f)) (f_payload f) masked (f_fin f) (f_rsv1 f)"

lemma length_be_bytes [simp]: "length (be_bytes k n) = k"
  by (simp add: be_bytes_def)

lemma int_from_bytes_big_Cons:
  "int_from_bytes_big (b # bs) = unat b * 256 ^ length bs + int_from_bytes_big bs"
proof -
  have "fold (\<lambda>b n. n * 256 + unat b) bs a = a * 256 ^ length bs + fold (\<lambda>b n. n * 256 + unat b) bs 0" for a
  proof (induction bs arbitrary: a)
    case (Cons b bs)
    from Cons.IH [of "a * 256 + unat b"] Cons.IH [of "unat b"] show ?case
      by (simp add: algebra_simps)
  qed simp
  from this [of "unat b"] show ?thesis by (simp add: int_from_bytes_big_def)
qed

lemma int_from_bytes_be_bytes: "int_from_bytes_big (be_bytes k n) = n mod 256 ^ k"
proof (induction k)
  case 0
  show ?case by (simp add: be_bytes_def int_from_bytes_big_def)
next
  case (Suc k)
  have "be_bytes (Suc k) n = byte_of (n div 256 ^ k mod 256) # be_bytes k n"
    by (simp add: be_bytes_def)
  with Suc show ?case
    using mod_mult2_eq [of n "256 ^ k" 256]
    by (simp add: int_from_bytes_big_Cons unat_byte_of algebra_simps)
qed

lemma byte_and_mask7: "n < 128 \<Longrightarrow> byte_of n AND 0x7F = byte_of n"
proof -
  assume "n < 128"
  then have "take_bit 7 (byte_of n) = byte_of n"
    by (simp add: take_bit_of_nat take_bit_nat_eq_self)
  then show ?thesis by (simp add: take_bit_eq_mask mask_eq_exp_minus_1)
qed

lemma byte_and_0x80: "n < 128 \<Longrightarrow> byte_of n AND 0x80 = 0"
proof -
  assume "n < 128"
  then have "byte_of n AND 0x80 = byte_of n AND (0x7F AND 0x80)"
    by (simp only: and.assoc [symmetric] byte_and_mask7)
  then show ?thesis by simp
qed

lemma second_byte:
  assumes "n < 128"
  shows "((if masked then 0x80 else 0x00) OR byte_of n) AND 0x80 \<noteq> 0 \<longleftrightarrow> masked"
    and "unat (((if masked then 0x80 else 0x00) OR byte_of n) AND 0x7F) = n"
  using assms
  by (auto simp: bit.conj_disj_distrib2 byte_and_0x80 byte_and_mask7 unat_byte_of)

lemma first_byte:
  defines "b opc fin rsv1 \<equiv>
    (if rsv1 then ((if fin then 0x80 else 0x00) OR byte_of (opcode_value opc)) OR 0x40
     else (if fin then 0x80 else 0x00) OR byte_of (opcode_value opc))"
  shows "b opc fin rsv1 AND 0x80 \<noteq> 0 \<longleftrightarrow> fin" and "b opc fin rsv1 AND 0x40 \<noteq> 0 \<longleftrightarrow> rsv1"
    and "b opc fin rsv1 AND 0x20 = 0" and "b opc fin rsv1 AND 0x10 = 0"
    and "unat (b opc fin rsv1 AND 0x0F) = opcode_value opc"
  by (cases opc; cases fin; cases rsv1; simp add: b_def)+

definition len7 :: "nat \<Rightarrow> nat" where
  "len7 n = (if n \<le> 125 then n else if n \<le> 65535 then 126 else 127)"

definition len_ext :: "nat \<Rightarrow> bytes" where
  "len_ext n = (if n \<le> 125 then [] else if n \<le> 65535 then be_bytes 2 n else be_bytes 8 n)"

lemma len7_less: "len7 n < 128"
  by (simp add: len7_def)

lemma encode_header_eq:
  "encode_header opc n masked fin rsv1 =
     (if rsv1 then ((if fin then 0x80 else 0x00) OR byte_of opc) OR 0x40
      else (if fin then 0x80 else 0x00) OR byte_of opc)
     # ((if masked then 0x80 else 0x00) OR byte_of (len7 n)) # len_ext n"
  by (simp add: encode_header_def Let_def len7_def len_ext_def)

lemma parse_sizes_encode:
  assumes "n < 2 ^ 63"
  shows "parse_sizes (b0 # b1 # len_ext n @ rest) (len7 n) m = Inr (Some (2 + length (len_ext n) + m, n))"
  using assms
  by (simp add: parse_sizes_def len7_def len_ext_def int_from_bytes_be_bytes Let_def)

lemma check_sizes_sendable:
  "sendable p f \<Longrightarrow> check_sizes p (f_opcode f) (f_fin f) (length (f_payload f)) = Inr ()"
  by (auto simp: sendable_def check_sizes_def opcode_is_control_def)

lemma length_apply_mask_c [simp]: "4 \<le> length key \<Longrightarrow> length (apply_mask_c dat key) = length dat"
  by (simp add: apply_mask_c_eq)

lemma extract_payload_encode:
  assumes "length key = 4"
  shows "extract_payload (hdr @ (if masked then key @ apply_mask_c payload key else payload) @ rest)
           masked (length hdr + (if masked then 4 else 0)) (length payload) = payload"
  using assms
  by (cases masked) (simp_all add: extract_payload_def apply_mask_c_eq xor_mask_involution)

lemma parse_frame_encode:
  assumes "length key = 4" and "sendable p f"
  shows "parse_frame (p\<lparr>fp_buffer := encode_of key masked f @ rest\<rparr>)
       = Inr (Some (f, length (encode_of key masked f)))"
proof -
  define body where "body = (if masked then key @ apply_mask_c (f_payload f) key else f_payload f)"
  define hdr where "hdr = encode_header (opcode_value (f_opcode f)) (length (f_payload f)) masked
                            (f_fin f) (f_rsv1 f)"
  let ?n = "length (f_payload f)" and ?m = "if masked then 4 else 0 :: nat"
  let ?p = "p\<lparr>fp_buffer := hdr @ body @ rest\<rparr>"
  have n: "?n < 2 ^ 63" and rsv: "\<not> f_rsv2 f" "\<not> f_rsv3 f"
    using assms(2) by (simp_all add: sendable_def)
  have enc: "encode_of key masked f = hdr @ body"
    using assms(1) by (simp add: encode_of_def encode_frame_def hdr_def body_def)
  have len: "length (hdr @ body) = 2 + length (len_ext ?n) + ?m + ?n"
    using assms(1) by (simp add: hdr_def body_def encode_header_eq)
  have "parse_body ?p (f_opcode f) (f_fin f) (f_rsv1 f) False False masked
          (2 + length (len_ext ?n) + ?m) ?n = Inr (Some (f, length (hdr @ body)))"
    using check_sizes_sendable [OF assms(2)] rsv len
      extract_payload_encode [OF assms(1), of hdr masked "f_payload f" rest]
    by (cases f) (simp add: parse_body_def check_sizes_def body_def hdr_def encode_header_eq
        split: if_splits)
  then show ?thesis
    unfolding enc append_assoc
    by (simp add: parse_frame_def Let_def hdr_def encode_header_eq first_byte second_byte len7_less
        parse_sizes_encode [OF n, simplified])
qed

lemma encode_of_nonempty [simp]: "encode_of key masked f \<noteq> []"
  by (simp add: encode_of_def encode_frame_def encode_header_eq)

lemma feed_loop_encoded:
  assumes "length keys = length fs" and "list_all (\<lambda>k. length k = 4) keys"
    and "list_all (sendable p) fs" and "waiting (p\<lparr>fp_buffer := rest\<rparr>)"
  shows "feed_loop (p\<lparr>fp_buffer := concat (map2 (\<lambda>k f. encode_of k masked f) keys fs) @ rest\<rparr>)
       = (Inr (fs, length (concat (map2 (\<lambda>k f. encode_of k masked f) keys fs))), p\<lparr>fp_buffer := rest\<rparr>)"
  using assms
proof (induction keys fs rule: list_induct2)
  case Nil
  then show ?case by (simp add: waiting_def feed_loop_None)
next
  case (Cons k keys f fs)
  let ?rest = "concat (map2 (\<lambda>k f. encode_of k masked f) keys fs) @ rest"
  from Cons.prems have "parse_frame (p\<lparr>fp_buffer := encode_of k masked f @ ?rest\<rparr>)
      = Inr (Some (f, length (encode_of k masked f)))"
    by (intro parse_frame_encode) simp_all
  from feed_loop_Some [OF this] Cons show ?case by simp
qed

subsection \<open>What a parsed frame satisfies, and what stays in the buffer\<close>

lemma int_from_bytes_big_less: "int_from_bytes_big bs < 256 ^ length bs"
proof (induction bs)
  case Nil
  show ?case by (simp add: int_from_bytes_big_def)
next
  case (Cons b bs)
  have "unat b * 256 ^ length bs \<le> 255 * 256 ^ length bs"
    using unat_byte_less [of b] by (intro mult_right_mono) linarith+
  with Cons show ?case unfolding int_from_bytes_big_Cons length_Cons power_Suc by linarith
qed

lemma byte_and_0x7F_less: "unat (x AND 0x7F :: byte) < 128"
  using word_and_le1 [of x "0x7F"] by (simp add: word_le_nat_alt)

lemma parse_sizes_bound:
  assumes "parse_sizes buf b m = Inr (Some (h, n))" and "b < 128"
  shows "n < 2 ^ 63"
proof -
  have "int_from_bytes_big (take 2 (drop 2 buf)) < 256 ^ 2"
    using int_from_bytes_big_less [of "take 2 (drop 2 buf)"]
      power_increasing [of "length (take 2 (drop 2 buf))" 2 "256 :: nat"] by simp
  with assms show ?thesis by (auto simp: parse_sizes_def Let_def split: if_splits)
qed

lemma length_extract_payload:
  assumes "h + n \<le> length buf" and "masked \<Longrightarrow> 4 \<le> h"
  shows "length (extract_payload buf masked h n) = n"
  using assms by (simp add: extract_payload_def)

lemma parse_body_sendable:
  assumes "parse_body p opc fin rsv1 False False masked h n = Inr (Some (f, c))"
    and "n < 2 ^ 63" and "masked \<Longrightarrow> 4 \<le> h"
  shows "sendable p f"
  using assms length_extract_payload [of h n "fp_buffer p" masked]
  by (auto simp: parse_body_def check_sizes_def sendable_def opcode_is_control_def Let_def
      split: if_splits)

lemma parse_frame_sendable:
  assumes "parse_frame p = Inr (Some (f, c))"
  shows "sendable p f"
proof (cases p rule: parse_frame_cases)
  case (body opc fin rsv1 masked b h n)
  with assms have "parse_body p opc fin rsv1 False False masked h n = Inr (Some (f, c))" by simp
  moreover have "n < 2 ^ 63" by (rule parse_sizes_bound [OF body(2) byte_and_0x7F_less])
  ultimately show ?thesis
    by (rule parse_body_sendable) (use parse_sizes_header [OF body(1,2)] in simp)
qed (use assms in simp_all)

lemma parse_frame_None_bound:
  assumes "parse_frame p = Inr None"
  shows "int (length (fp_buffer p)) < 14 + max 0 (fp_max_frame_size p)"
proof (cases p rule: parse_frame_cases)
  case (sizes b m)
  then show ?thesis by (auto simp: parse_sizes_def Let_def split: if_splits)
next
  case (body opc fin rsv1 masked b h n)
  with assms parse_sizes_header [OF body(1,2)] show ?thesis
    by (auto simp: parse_body_def check_sizes_def Let_def split: if_splits)
qed (use assms in simp_all)

lemma feed_loop_result:
  "feed_loop p = (Inr (fs, n), p') \<Longrightarrow>
   p' = p\<lparr>fp_buffer := drop n (fp_buffer p)\<rparr> \<and> n \<le> length (fp_buffer p) \<and> list_all (sendable p) fs"
proof (induction p arbitrary: fs n p' rule: feed_loop.induct)
  case (1 p)
  consider (err) e where "parse_frame p = Inl e" | (none) "parse_frame p = Inr None"
    | (some) f k where "parse_frame p = Inr (Some (f, k))"
    by (metis not_None_eq obj_sumE surj_pair)
  then show ?case
  proof cases
    case some
    let ?q = "p\<lparr>fp_buffer := drop k (fp_buffer p)\<rparr>"
    from some "1.prems" obtain fs' n' where r: "feed_loop ?q = (Inr (fs', n'), p')"
      and fs: "fs = f # fs'" "n = k + n'"
      by (cases "feed_loop ?q"; cases "fst (feed_loop ?q)") (auto simp: feed_loop_Some)
    have "sendable ?q = sendable p" by (simp add: sendable_def fun_eq_iff)
    with "1.IH" [OF some refl refl r] fs parse_frame_consumed [OF some] parse_frame_sendable [OF some]
    show ?thesis by (auto simp: add.commute)
  qed (use "1.prems" in \<open>simp_all add: feed_loop_Inl feed_loop_None\<close>)
qed

lemma feed_loop_message_size:
  "feed_loop (p\<lparr>fp_max_message_size := m\<rparr>) =
     (let (r, p') = feed_loop p in (r, p'\<lparr>fp_max_message_size := m\<rparr>))"
proof (induction p rule: feed_loop.induct)
  case (1 p)
  have pb: "parse_body (q\<lparr>fp_max_message_size := m\<rparr>) = parse_body q" for q
    by (intro ext) (simp add: parse_body_def check_sizes_def Let_def)
  have bf: "fp_buffer (q\<lparr>fp_max_message_size := m\<rparr>) = fp_buffer q" for q by simp
  have pf: "parse_frame (q\<lparr>fp_max_message_size := m\<rparr>) = parse_frame q" for q
    unfolding parse_frame_def Let_def pb bf by (rule refl)
  consider (err) e where "parse_frame p = Inl e" | (none) "parse_frame p = Inr None"
    | (some) f k where "parse_frame p = Inr (Some (f, k))"
    by (metis not_None_eq obj_sumE surj_pair)
  then show ?case
  proof cases
    case some
    then have some': "parse_frame (p\<lparr>fp_max_message_size := m\<rparr>) = Inr (Some (f, k))" by (simp add: pf)
    have "p\<lparr>fp_max_message_size := m, fp_buffer := b\<rparr> = p\<lparr>fp_buffer := b, fp_max_message_size := m\<rparr>" for b
      by (cases p) simp
    with feed_loop_Some [OF some'] feed_loop_Some [OF some] "1.IH" [OF some refl refl]
    show ?thesis by (simp add: Let_def split: prod.splits)
  qed (simp_all add: feed_loop_Inl feed_loop_None pf)
qed

subsection \<open>Properties\<close>

text \<open>
  C1. Round trip over the wire: frames encoded one after the other (masked or not, with any
  4-byte masking keys) and delivered in any chunks are parsed back into exactly the same frames
  in order, with every byte consumed and the parser ready for the next frame.
\<close>

theorem frames_round_trip:
  assumes "length keys = length fs" and "list_all (\<lambda>k. length k = 4) keys"
    and "list_all (sendable (new_parser mf mm)) fs"
    and "concat chunks = concat (map2 (\<lambda>k f. encode_of k masked f) keys fs)"
  shows "feed_chunks (new_parser mf mm) chunks
       = (Inr (fs, length (concat chunks)), new_parser mf mm)"
proof -
  have "feed (new_parser mf mm) (concat chunks)
      = (Inr (fs, length (concat chunks)), new_parser mf mm)"
    using feed_loop_encoded [of keys fs "new_parser mf mm" "[]" masked] assms
    by (simp add: feed_def new_parser_def waiting_def parse_frame_def)
  with feed_chunks_concat [of "new_parser mf mm" chunks] show ?thesis by simp
qed

theorem frames_round_trip_witness:
  "let f = mk_frame TEXT [72, 105] True False; g = mk_frame PING [] True False;
       wire = encode_of [1, 2, 3, 4] True f @ encode_of [5, 6, 7, 8] True g
   in feed_chunks (new_parser 100 100) [take 1 wire, drop 1 wire]
      = (Inr ([f, g], length wire), new_parser 100 100)"
proof -
  define f where "f = mk_frame TEXT [72, 105] True False"
  define g where "g = mk_frame PING [] True False"
  define wire where "wire = encode_of [1, 2, 3, 4] True f @ encode_of [5, 6, 7, 8] True g"
  have "sendable (new_parser 100 100) f" "sendable (new_parser 100 100) g"
    by (simp_all add: f_def g_def sendable_def new_parser_def mk_frame_def opcode_is_control_def)
  then have "feed_chunks (new_parser 100 100) [take 1 wire, drop 1 wire]
      = (Inr ([f, g], length (concat [take 1 wire, drop 1 wire])), new_parser 100 100)"
    by (intro frames_round_trip [where keys = "[[1, 2, 3, 4], [5, 6, 7, 8]]" and masked = True])
       (simp_all add: wire_def del: take_append drop_append)
  then show ?thesis by (simp add: Let_def f_def g_def wire_def del: take_append drop_append)
qed




text \<open>
  The limit \<^verbatim>\<open>max_message_size\<close> has no effect on the parser: with any two values of it, the
  same bytes give the same frames or the same error. Fragments are returned one by one and never
  assembled, so the documented bound on a message is not enforced.
\<close>

theorem max_message_size_ignored:
  "fst (feed (new_parser mf m1) dat) = fst (feed (new_parser mf m2) dat)"
proof -
  have "extend_buf (new_parser mf m2) dat
      = (extend_buf (new_parser mf m1) dat)\<lparr>fp_max_message_size := m2\<rparr>"
    by (simp add: new_parser_def)
  with feed_loop_message_size [of m2 "extend_buf (new_parser mf m1) dat"] show ?thesis
    by (simp add: feed_def Let_def split: prod.splits)
qed

text \<open>
  C16. Masking: the word-at-a-time routine computes the byte-wise XOR with the repeated key, keeps
  the length, and is its own inverse.
\<close>

theorem apply_mask_correct:
  assumes "length key = 4"
  shows "apply_mask dat key = Some (xor_mask dat key)
       \<and> Option.bind (apply_mask dat key) (\<lambda>d. apply_mask d key) = Some dat"
proof -
  have "apply_mask d key = Some (xor_mask d key)" for d
    using assms by (simp add: apply_mask_def apply_mask_c_eq)
  then show ?thesis by (simp add: xor_mask_involution)
qed

theorem apply_mask_correct_witness:
  "apply_mask [1, 2, 3, 4, 5, 6, 7, 8, 9] [0x37, 0xFA, 0x21, 0x3D]
     = Some (xor_mask [1, 2, 3, 4, 5, 6, 7, 8, 9] [0x37, 0xFA, 0x21, 0x3D])"
  using apply_mask_correct [of "[0x37, 0xFA, 0x21, 0x3D]" "[1, 2, 3, 4, 5, 6, 7, 8, 9]"] by simp

end
