(* ===== verification/Jet_Delivery.thy ===== *)
theory Jet_Delivery
  imports Jet_Frame_Codec
begin

text \<open>
  What a transport promises its users, as an interface: the sender's half says which bytes a sent
  message adds to the wire, the receiver's half which frames successive reads return for the bytes
  that arrive. From the two halves follows delivery in order, for any combination of transports.
  The asyncio and the blocking transport are interpretations of both halves.
\<close>

subsection \<open>Messages\<close>

text \<open>A message: whether it is binary, and its bytes. It travels as one unfragmented frame.\<close>

definition message_frame :: "bool \<times> bytes \<Rightarrow> frame" where
  "message_frame m = mk_frame (if fst m then BINARY else TEXT) (snd m) True False"

text \<open>Data frames without compression.\<close>

definition plain_data :: "frame \<Rightarrow> bool" where
  "plain_data f \<longleftrightarrow> \<not> opcode_is_control (f_opcode f) \<and> \<not> f_rsv1 f"

lemma plain_data_opcode: "plain_data f \<Longrightarrow> f_opcode f \<notin> {PING, CLOSE, PONG} \<and> \<not> f_rsv1 f"
  by (auto simp: plain_data_def opcode_is_control_def)

lemma message_frames_plain: "list_all plain_data (map message_frame ms)"
  by (auto simp: list_all_iff plain_data_def message_frame_def mk_frame_def opcode_is_control_def)

text \<open>A message within the frame limit of the receiver.\<close>

definition message_fits :: "int \<Rightarrow> bool \<times> bytes \<Rightarrow> bool" where
  "message_fits mf m \<longleftrightarrow> int (length (snd m)) \<le> mf \<and> length (snd m) < 2 ^ 63"

lemma message_fits_sendable: "message_fits mf m \<Longrightarrow> sendable (new_parser mf mm) (message_frame m)"
  by (auto simp: message_fits_def sendable_def message_frame_def mk_frame_def opcode_is_control_def new_parser_def)

text \<open>The bytes of messages sent one after the other with masking keys from the \<^verbatim>\<open>n\<close>-th draw on.\<close>

definition wire_of :: "(nat \<Rightarrow> bytes) \<Rightarrow> nat \<Rightarrow> (bool \<times> bytes) list \<Rightarrow> bytes" where
  "wire_of rand n ms = concat (map2 (\<lambda>k f. encode_of k True f) (map (\<lambda>i. rand (n + i)) [0..<length ms]) (map message_frame ms))"

lemma wire_of_Nil [simp]: "wire_of rand n [] = []"
  by (simp add: wire_of_def)

lemma wire_of_Cons: "wire_of rand n (m # ms) = encode_of (rand n) True (message_frame m) @ wire_of rand (n + 1) ms"
proof -
  have "[0..<length (m # ms)] = 0 # map Suc [0..<length ms]"
    using upt_conv_Cons [of 0 "length (m # ms)"] by (simp add: map_Suc_upt del: upt_Suc)
  then show ?thesis by (simp add: wire_of_def o_def)
qed

lemma feed_chunks_wire:
  assumes "\<forall>i. length (rand i) = 4" "list_all (message_fits mf) ms" "concat chunks = wire_of rand n ms"
  shows "feed_chunks (new_parser mf mm) chunks = (Inr (map message_frame ms, length (concat chunks)), new_parser mf mm)"
proof -
  let ?np = "new_parser mf mm" and ?keys = "map (\<lambda>i. rand (n + i)) [0..<length ms]" and ?fs = "map message_frame ms"
  have "list_all (sendable ?np) ?fs" using assms(2) by (auto simp: list_all_iff message_fits_sendable)
  then have "feed_loop (?np\<lparr>fp_buffer := concat chunks @ []\<rparr>) = (Inr (?fs, length (concat chunks)), ?np\<lparr>fp_buffer := []\<rparr>)"
    using feed_loop_encoded [of ?keys ?fs ?np "[]" True] assms(1,3)
    by (simp add: waiting_def parse_frame_def new_parser_def list_all_iff wire_of_def)
  then have "feed ?np (concat chunks) = (Inr (?fs, length (concat chunks)), ?np)" by (simp add: feed_def new_parser_def)
  with feed_chunks_concat [of ?np chunks] show ?thesis by simp
qed

subsection \<open>The interface\<close>

locale message_sender =
  fixes sends :: "bool \<times> bytes \<Rightarrow> 's \<Rightarrow> 's" and wire :: "'s \<Rightarrow> bytes" and draws :: "'s \<Rightarrow> nat"
    and ready :: "'s \<Rightarrow> bool" and rand :: "nat \<Rightarrow> bytes"
  assumes sends_ready: "ready a \<Longrightarrow> ready (sends m a)"
    and sends_draws: "ready a \<Longrightarrow> draws (sends m a) = draws a + 1"
    and sends_wire: "ready a \<Longrightarrow> wire (sends m a) = wire a @ encode_of (rand (draws a)) True (message_frame m)"
begin

lemma fold_sends: "ready a \<Longrightarrow> wire (fold sends ms a) = wire a @ wire_of rand (draws a) ms"
proof (induction ms arbitrary: a)
  case (Cons m ms)
  then show ?case using Cons.IH [of "sends m a"] by (simp add: sends_ready sends_draws sends_wire wire_of_Cons)
qed simp

end

text \<open>
  \<^verbatim>\<open>takes n chunks b\<close>: what \<^verbatim>\<open>n\<close> reads of the receiver return when the chunks arrive, or nothing if
  receiving the bytes raises.
\<close>

locale message_receiver =
  fixes takes :: "nat \<Rightarrow> bytes list \<Rightarrow> 'r \<Rightarrow> frame list option" and fresh :: "int \<Rightarrow> int \<Rightarrow> bytes list \<Rightarrow> 'r \<Rightarrow> bool"
  assumes takes_frames: "fresh mf mm chunks b \<Longrightarrow> feed_chunks (new_parser mf mm) chunks = (Inr (fs, n), q)
    \<Longrightarrow> list_all plain_data fs \<Longrightarrow> takes (length fs) chunks b = Some fs"

locale message_pair = message_sender + message_receiver
begin

lemma delivered:
  assumes "ready a" "wire a = []" "\<forall>i. length (rand i) = 4" "fresh mf mm chunks b"
    and "list_all (message_fits mf) ms" "concat chunks = wire (fold sends ms a)"
  shows "takes (length ms) chunks b = Some (map message_frame ms)"
proof -
  have "concat chunks = wire_of rand (draws a) ms" using assms(1,2,6) by (simp add: fold_sends)
  from takes_frames [OF assms(4) feed_chunks_wire [OF assms(3,5) this] message_frames_plain] show ?thesis by simp
qed

end

end
