(* ===== verification/Jet_Deflate.thy ===== *)
theory Jet_Deflate
  imports Jet_Exceptions
begin

text \<open>
  The \<^verbatim>\<open>Deflater\<close> of \<^verbatim>\<open>src/jetsocket/_core.pyx\<close>. The library \<^verbatim>\<open>zlib\<close> it drives is a parameter: a
  record of the four calls it makes, over abstract states of a compressor and a decompressor.
  \<^verbatim>\<open>zl_compress\<close> stands for \<^verbatim>\<open>compress(data)\<close> followed by \<^verbatim>\<open>flush(Z_SYNC_FLUSH)\<close>.
\<close>

record ('c, 'd) zlib =
  zl_compressobj :: "int \<Rightarrow> 'c"
  zl_compress :: "'c \<Rightarrow> bytes \<Rightarrow> bytes \<times> 'c"
  zl_decompressobj :: "int \<Rightarrow> 'd"
  zl_decompress :: "'d \<Rightarrow> bytes \<Rightarrow> exn + bytes \<times> 'd"

record ('c, 'd) deflater =
  df_client_no_context_takeover :: bool
  df_server_no_context_takeover :: bool
  df_client_max_window_bits :: int
  df_server_max_window_bits :: int
  df_compressor :: 'c
  df_decompressor :: 'd

definition DEFLATE_TRAILER :: bytes where
  "DEFLATE_TRAILER = [0x00, 0x00, 0xFF, 0xFF]"

definition new_deflater :: "('c, 'd) zlib \<Rightarrow> bool \<Rightarrow> bool \<Rightarrow> int \<Rightarrow> int \<Rightarrow> exn + ('c, 'd) deflater" where
  "new_deflater z cnct snct cmwb smwb =
     (if \<not> (9 \<le> cmwb \<and> cmwb \<le> 15) then Inl (ValueError ''client_max_window_bits must be between 9 and 15'')
      else if \<not> (9 \<le> smwb \<and> smwb \<le> 15) then Inl (ValueError ''server_max_window_bits must be between 9 and 15'')
      else Inr \<lparr>df_client_no_context_takeover = cnct, df_server_no_context_takeover = snct,
                df_client_max_window_bits = cmwb, df_server_max_window_bits = smwb,
                df_compressor = zl_compressobj z (- cmwb), df_decompressor = zl_decompressobj z (- smwb)\<rparr>)"

definition ends_with :: "'a list \<Rightarrow> 'a list \<Rightarrow> bool" where
  "ends_with suffix xs \<longleftrightarrow> length suffix \<le> length xs \<and> drop (length xs - length suffix) xs = suffix"

definition strip_trailer :: "bytes \<Rightarrow> bytes" where
  "strip_trailer compressed =
     (if ends_with DEFLATE_TRAILER compressed then take (length compressed - 4) compressed else compressed)"

definition deflate_compress :: "('c, 'd) zlib \<Rightarrow> bytes \<Rightarrow> ('c, 'd) deflater \<Rightarrow> bytes \<times> ('c, 'd) deflater" where
  "deflate_compress z dat df =
     (let (compressed, c) = zl_compress z (df_compressor df) dat
      in (strip_trailer compressed,
          df\<lparr>df_compressor := (if df_client_no_context_takeover df
             then zl_compressobj z (- df_client_max_window_bits df) else c)\<rparr>))"

definition deflate_decompress :: "('c, 'd) zlib \<Rightarrow> bytes \<Rightarrow> ('c, 'd) deflater
    \<Rightarrow> exn + bytes \<times> ('c, 'd) deflater" where
  "deflate_decompress z dat df =
     bind_result (zl_decompress z (df_decompressor df) (dat @ DEFLATE_TRAILER)) (\<lambda>(out, d).
       Inr (out, df\<lparr>df_decompressor := (if df_server_no_context_takeover df
                    then zl_decompressobj z (- df_server_max_window_bits df) else d)\<rparr>))"

definition reset_compressor :: "('c, 'd) zlib \<Rightarrow> ('c, 'd) deflater \<Rightarrow> ('c, 'd) deflater" where
  "reset_compressor z df = df\<lparr>df_compressor := zl_compressobj z (- df_client_max_window_bits df)\<rparr>"

definition reset_decompressor :: "('c, 'd) zlib \<Rightarrow> ('c, 'd) deflater \<Rightarrow> ('c, 'd) deflater" where
  "reset_decompressor z df = df\<lparr>df_decompressor := zl_decompressobj z (- df_server_max_window_bits df)\<rparr>"

lemma strip_trailer_append: "ends_with DEFLATE_TRAILER xs \<Longrightarrow> strip_trailer xs @ DEFLATE_TRAILER = xs"
proof -
  assume "ends_with DEFLATE_TRAILER xs"
  moreover have "length DEFLATE_TRAILER = 4" by (simp add: DEFLATE_TRAILER_def)
  ultimately have "drop (length xs - 4) xs = DEFLATE_TRAILER" by (simp add: ends_with_def)
  then have "take (length xs - 4) xs @ DEFLATE_TRAILER = xs" by (metis append_take_drop_id)
  then show ?thesis using \<open>ends_with DEFLATE_TRAILER xs\<close> by (simp add: strip_trailer_def)
qed

text \<open>
  What the Deflater relies on: a synchronously flushed block ends in the trailer, and a
  decompressor whose history matches the compressor's recovers the data; \<^verbatim>\<open>synced\<close> is that
  relation between the states. Compressors and decompressors created for the same window are in
  this relation.
\<close>

definition zlib_ok :: "('c, 'd) zlib \<Rightarrow> ('c \<Rightarrow> 'd \<Rightarrow> bool) \<Rightarrow> bool" where
  "zlib_ok z synced \<longleftrightarrow>
     (\<forall>w. synced (zl_compressobj z w) (zl_decompressobj z w))
     \<and> (\<forall>c d dat out c'. synced c d \<longrightarrow> zl_compress z c dat = (out, c') \<longrightarrow>
          ends_with DEFLATE_TRAILER out \<and> (\<exists>d'. zl_decompress z d out = Inr (dat, d') \<and> synced c' d'))"

text \<open>
  Two endpoints agree: the sender's compressor and the receiver's decompressor are in step, and
  both restart their history, or neither does, with the same window.
\<close>

definition peers :: "('c \<Rightarrow> 'd \<Rightarrow> bool) \<Rightarrow> ('c, 'd) deflater \<Rightarrow> ('c, 'd) deflater \<Rightarrow> bool" where
  "peers synced a b \<longleftrightarrow> synced (df_compressor a) (df_decompressor b)
     \<and> df_client_no_context_takeover a = df_server_no_context_takeover b
     \<and> df_client_max_window_bits a = df_server_max_window_bits b"

lemma deflate_step:
  assumes "zlib_ok z synced" and "peers synced a b" and "deflate_compress z dat a = (wire, a')"
  shows "\<exists>b'. deflate_decompress z wire b = Inr (dat, b') \<and> peers synced a' b'"
proof -
  obtain out c' where c: "zl_compress z (df_compressor a) dat = (out, c')" by fastforce
  from assms(1,2) c obtain d' where ends: "ends_with DEFLATE_TRAILER out"
    and d: "zl_decompress z (df_decompressor b) out = Inr (dat, d')" "synced c' d'"
    unfolding zlib_ok_def peers_def by blast
  have "wire @ DEFLATE_TRAILER = out"
    using assms(3) c strip_trailer_append [OF ends] by (simp add: deflate_compress_def)
  then show ?thesis
    using assms c d by (auto simp: deflate_decompress_def deflate_compress_def peers_def zlib_ok_def)
qed

primrec compress_all :: "('c, 'd) zlib \<Rightarrow> bytes list \<Rightarrow> ('c, 'd) deflater \<Rightarrow> bytes list \<times> ('c, 'd) deflater" where
  "compress_all z [] df = ([], df)"
| "compress_all z (m # ms) df =
     (let (w, df1) = deflate_compress z m df; (ws, df2) = compress_all z ms df1 in (w # ws, df2))"

primrec decompress_all :: "('c, 'd) zlib \<Rightarrow> bytes list \<Rightarrow> ('c, 'd) deflater
    \<Rightarrow> exn + bytes list \<times> ('c, 'd) deflater" where
  "decompress_all z [] df = Inr ([], df)"
| "decompress_all z (w # ws) df =
     bind_result (deflate_decompress z w df) (\<lambda>(m, df1).
       bind_result (decompress_all z ws df1) (\<lambda>(ms, df2). Inr (m # ms, df2)))"

lemma decompress_compress_all:
  assumes "zlib_ok z synced" and "peers synced a b"
  shows "\<exists>b'. decompress_all z (fst (compress_all z ms a)) b = Inr (ms, b')
            \<and> peers synced (snd (compress_all z ms a)) b'"
  using assms(2)
proof (induction ms arbitrary: a b)
  case (Cons m ms)
  obtain w a1 where w: "deflate_compress z m a = (w, a1)" by fastforce
  from deflate_step [OF assms(1) Cons.prems w] obtain b1
    where b1: "deflate_decompress z w b = Inr (m, b1)" "peers synced a1 b1" by blast
  from Cons.IH [OF b1(2)] b1(1) w show ?case by (auto simp: split_def Let_def)
qed simp

text \<open>
  C40. Compression is transparent: when two endpoints were created with matching parameters (the
  sender's context takeover and window are what the receiver expects of its peer), every sequence
  of messages compressed by one is recovered by the other, message by message, in both takeover
  modes, although the four trailer bytes are cut off on the way.
\<close>

theorem deflate_round_trip:
  assumes "zlib_ok z synced"
    and "new_deflater z cnct snct cmwb smwb = Inr a" and "new_deflater z cnct' cnct cmwb' cmwb = Inr b"
  shows "\<exists>b'. decompress_all z (fst (compress_all z ms a)) b = Inr (ms, b')"
proof -
  have "peers synced a b"
    using assms by (auto simp: new_deflater_def peers_def zlib_ok_def split: if_splits)
  from decompress_compress_all [OF assms(1) this] show ?thesis by blast
qed

text \<open>A stand-in for \<^verbatim>\<open>zlib\<close> that satisfies the hypothesis: data is stored and the trailer added.\<close>

definition stored_zlib :: "(unit, unit) zlib" where
  "stored_zlib = \<lparr>zl_compressobj = (\<lambda>_. ()), zl_compress = (\<lambda>_ dat. (dat @ DEFLATE_TRAILER, ())),
     zl_decompressobj = (\<lambda>_. ()), zl_decompress = (\<lambda>_ dat. Inr (take (length dat - 4) dat, ()))\<rparr>"

lemma stored_zlib_ok: "zlib_ok stored_zlib (\<lambda>_ _. True)"
  by (simp add: zlib_ok_def stored_zlib_def ends_with_def DEFLATE_TRAILER_def)

theorem deflate_round_trip_witness:
  "\<exists>a b b'. new_deflater stored_zlib True False 12 15 = Inr a \<and> new_deflater stored_zlib False True 15 12 = Inr b
     \<and> decompress_all stored_zlib (fst (compress_all stored_zlib [[1, 2], [3]] a)) b = Inr ([[1, 2], [3]], b')"
proof -
  obtain a b where ab: "new_deflater stored_zlib True False 12 15 = Inr a"
      "new_deflater stored_zlib False True 15 12 = Inr b"
    by (simp add: new_deflater_def)
  from deflate_round_trip [OF stored_zlib_ok ab, of "[[1, 2], [3]]"] ab show ?thesis by blast
qed

end
