(* ===== verification/Jet_Sha1.thy ===== *)
theory Jet_Sha1
  imports Jet_Utf8
begin

text \<open>
  The two functions of the Python standard library behind the accept key of the opening
  handshake: \<^verbatim>\<open>hashlib.sha1\<close> (FIPS 180-4; the 32-bit words are integers kept below
  \<^verbatim>\<open>2^32\<close> by \<^verbatim>\<open>take_bit\<close>, a form in which the kernel evaluates them) and \<^verbatim>\<open>base64.b64encode\<close> (RFC 4648), with
  the text of the encoding as a Python string. Both compute; the example of RFC 6455, section 1.3,
  is evaluated in \<^verbatim>\<open>Jet_Handshake\<close>.
\<close>

subsection \<open>SHA-1\<close>

type_synonym w32 = int

record sha_state =
  ha :: w32
  hb :: w32
  hc :: w32
  hd' :: w32
  he :: w32

definition rotl32 :: "nat \<Rightarrow> w32 \<Rightarrow> w32" where
  "rotl32 n w = take_bit 32 (push_bit n w) OR drop_bit (32 - n) w"

definition add32 :: "w32 \<Rightarrow> w32 \<Rightarrow> w32" where
  "add32 x y = take_bit 32 (x + y)"

definition not32 :: "w32 \<Rightarrow> w32" where
  "not32 x = 0xFFFFFFFF XOR x"

fun words_of :: "bytes \<Rightarrow> w32 list" where
  "words_of (a # b # c # d # bs) =
     (push_bit 24 (uint a) OR push_bit 16 (uint b) OR push_bit 8 (uint c) OR uint d) # words_of bs"
| "words_of _ = []"

definition byte_at :: "nat \<Rightarrow> w32 \<Rightarrow> byte" where
  "byte_at i w = of_int (drop_bit (8 * i) w)"

definition bytes_of :: "w32 \<Rightarrow> bytes" where
  "bytes_of w = [byte_at 3 w, byte_at 2 w, byte_at 1 w, byte_at 0 w]"

text \<open>The padding: a one bit, zeros, and the length in bits as a 64-bit number (the bytes
  above are cut off).\<close>

definition length_field :: "nat \<Rightarrow> bytes" where
  "length_field n = map (\<lambda>i. of_int (drop_bit i (8 * int n))) [56, 48, 40, 32, 24, 16, 8, 0]"

definition sha_pad :: "bytes \<Rightarrow> bytes" where
  "sha_pad m = m @ 0x80 # replicate ((119 - length m mod 64) mod 64) 0 @ length_field (length m)"

text \<open>The message schedule, latest word first.\<close>

fun schedule :: "nat \<Rightarrow> w32 list \<Rightarrow> w32 list" where
  "schedule 0 rs = rs"
| "schedule (Suc n) rs = schedule n (rotl32 1 (rs ! 2 XOR rs ! 7 XOR rs ! 13 XOR rs ! 15) # rs)"

definition sha_f :: "nat \<Rightarrow> w32 \<Rightarrow> w32 \<Rightarrow> w32 \<Rightarrow> w32" where
  "sha_f t b c d =
     (if t < 20 then (b AND c) OR (not32 b AND d)
      else if t < 40 then b XOR c XOR d
      else if t < 60 then (b AND c) OR (b AND d) OR (c AND d)
      else b XOR c XOR d)"

definition sha_k :: "nat \<Rightarrow> w32" where
  "sha_k t = (if t < 20 then 0x5A827999 else if t < 40 then 0x6ED9EBA1 else if t < 60 then 0x8F1BBCDC else 0xCA62C1D6)"

definition sha_round :: "nat \<Rightarrow> w32 \<Rightarrow> sha_state \<Rightarrow> sha_state" where
  "sha_round t w s =
     \<lparr>ha = add32 (rotl32 5 (ha s) + sha_f t (hb s) (hc s) (hd' s) + he s + sha_k t) w,
      hb = ha s, hc = rotl32 30 (hb s), hd' = hc s, he = hd' s\<rparr>"

fun sha_rounds :: "nat \<Rightarrow> w32 list \<Rightarrow> sha_state \<Rightarrow> sha_state" where
  "sha_rounds t [] s = s"
| "sha_rounds t (w # ws) s = sha_rounds (Suc t) ws (sha_round t w s)"

definition sha_block :: "w32 list \<Rightarrow> sha_state \<Rightarrow> sha_state" where
  "sha_block block s =
     (let r = sha_rounds 0 (rev (schedule 64 (rev block))) s
      in \<lparr>ha = add32 (ha s) (ha r), hb = add32 (hb s) (hb r), hc = add32 (hc s) (hc r),
          hd' = add32 (hd' s) (hd' r), he = add32 (he s) (he r)\<rparr>)"

function sha_blocks :: "w32 list \<Rightarrow> sha_state \<Rightarrow> sha_state" where
  "sha_blocks ws s = (if length ws < 16 then s else sha_blocks (drop 16 ws) (sha_block (take 16 ws) s))"
  by pat_completeness auto
termination
  by (relation "measure (length \<circ> fst)") auto

declare sha_blocks.simps [simp del]

definition sha_init :: sha_state where
  "sha_init = \<lparr>ha = 0x67452301, hb = 0xEFCDAB89, hc = 0x98BADCFE, hd' = 0x10325476, he = 0xC3D2E1F0\<rparr>"

definition sha1 :: "bytes \<Rightarrow> bytes" where
  "sha1 m =
     (let s = sha_blocks (words_of (sha_pad m)) sha_init
      in bytes_of (ha s) @ bytes_of (hb s) @ bytes_of (hc s) @ bytes_of (hd' s) @ bytes_of (he s))"

lemma sha1_length [simp]: "length (sha1 m) = 20"
  by (simp add: sha1_def bytes_of_def Let_def)

lemma sha_pad_length: "length (sha_pad m) mod 64 = 0"
proof -
  define r where "r = length m mod 64"
  have r: "r < 64" by (simp add: r_def)
  have "(119 - r) mod 64 = (if r \<le> 55 then 55 - r else 119 - r)"
    using r by (auto simp: mod_if)
  then have "r + 9 + (119 - r) mod 64 \<in> {64, 128}" using r by auto
  then have "(r + 9 + (119 - r) mod 64) mod 64 = 0" by (elim insertE emptyE) (simp_all only: mod_self, simp)
  then have "(r + (9 + (119 - r) mod 64)) mod 64 = 0" by (simp only: add.assoc)
  then have "(length m + (9 + (119 - r) mod 64)) mod 64 = 0" unfolding r_def by (simp add: mod_add_left_eq)
  then show ?thesis by (simp add: sha_pad_def length_field_def r_def add.commute add.left_commute add.assoc)
qed

subsection \<open>Base64\<close>

definition b64_digit :: "nat \<Rightarrow> codepoint" where
  "b64_digit n =
     (if n < 26 then 65 + n else if n < 52 then 71 + n else if n < 62 then n - 4 else if n = 62 then 43 else 47)"

fun b64encode :: "bytes \<Rightarrow> pystr" where
  "b64encode [] = []"
| "b64encode [a] = [b64_digit (unat a div 4), b64_digit (unat a mod 4 * 16), 61, 61]"
| "b64encode [a, b] =
     [b64_digit (unat a div 4), b64_digit (unat a mod 4 * 16 + unat b div 16), b64_digit (unat b mod 16 * 4), 61]"
| "b64encode (a # b # c # bs) =
     b64_digit (unat a div 4) # b64_digit (unat a mod 4 * 16 + unat b div 16)
     # b64_digit (unat b mod 16 * 4 + unat c div 64) # b64_digit (unat c mod 64) # b64encode bs"

text \<open>The characters of an encoding.\<close>

definition b64_char :: "codepoint \<Rightarrow> bool" where
  "b64_char c \<longleftrightarrow> (65 \<le> c \<and> c \<le> 90) \<or> (97 \<le> c \<and> c \<le> 122) \<or> (48 \<le> c \<and> c \<le> 57) \<or> c = 43 \<or> c = 47 \<or> c = 61"

lemma b64_digit_char: "n < 64 \<Longrightarrow> b64_char (b64_digit n)"
  by (auto simp: b64_digit_def b64_char_def)

lemma byte_div: "unat (a::byte) div 4 < 64" "unat a div 16 < 16" "unat a div 64 < 4"
  using unsigned_less [of a] by (simp_all add: less_mult_imp_div_less)

lemma b64encode_chars: "list_all b64_char (b64encode bs)"
proof (induction bs rule: b64encode.induct)
  case (2 a)
  have "unat a mod 4 * 16 < 64" by simp
  then show ?case using byte_div(1) [of a] by (simp add: b64_digit_char) (simp add: b64_char_def)
next
  case (3 a b)
  have "unat a mod 4 * 16 + unat b div 16 < 64" "unat b mod 16 * 4 < 64"
    using byte_div(2) [of b] mod_less_divisor [of 4 "unat a"] mod_less_divisor [of 16 "unat b"] by linarith+
  then show ?case using byte_div(1) [of a] by (simp add: b64_digit_char) (simp add: b64_char_def)
next
  case (4 a b c bs)
  have "unat a mod 4 * 16 + unat b div 16 < 64" "unat b mod 16 * 4 + unat c div 64 < 64"
    using byte_div(2) [of b] byte_div(3) [of c] mod_less_divisor [of 4 "unat a"] mod_less_divisor [of 16 "unat b"] by linarith+
  then show ?case using 4 byte_div(1) [of a] by (simp add: b64_digit_char)
qed simp

lemma b64encode_length: "length (b64encode bs) = (length bs + 2) div 3 * 4"
proof (induction bs rule: b64encode.induct)
  case (4 a b c bs)
  have "(length bs + 5) div 3 = (length bs + 2) div 3 + 1" by simp
  with 4 show ?case by (simp add: add.commute)
qed auto

end
