(* ===== verification/Jet_Handshake.thy ===== *)
theory Jet_Handshake
  imports Jet_Strings Jet_Sha1 Jet_Types
begin

text \<open>
  The opening handshake of \<^verbatim>\<open>src/jetsocket/_core.pyx\<close>: the key, the upgrade request, the examination
  of the response, and the parameters of the compression extension. The 16 random bytes of
  \<^verbatim>\<open>generate_key\<close> are an argument. Header names and values are Python strings; a dictionary of
  headers is an association list in the order of insertion.
\<close>

definition CR :: codepoint where "CR = 13"
definition LF :: codepoint where "LF = 10"

definition CRLF :: pystr where "CRLF = [13, 10]"
definition CRLF2 :: bytes where "CRLF2 = [13, 10, 13, 10]"

subsection \<open>Key and accept\<close>

definition WS_GUID :: bytes where
  "WS_GUID = map of_nat (lit ''258EAFA5-E914-47DA-95CA-C5AB0DC85B11'')"

definition generate_key :: "bytes \<Rightarrow> pystr" where
  "generate_key random16 = b64encode random16"

text \<open>\<^verbatim>\<open>str.encode("ascii")\<close>\<close>

definition ascii_encode :: "pystr \<Rightarrow> exn + bytes" where
  "ascii_encode s = (if list_all (\<lambda>c. c < 128) s then Inr (map of_nat s) else Inl UnicodeEncodeError)"

definition accept_of :: "bytes \<Rightarrow> pystr" where
  "accept_of key = b64encode (sha1 (key @ WS_GUID))"

definition validate_accept :: "pystr \<Rightarrow> pystr \<Rightarrow> exn + bool" where
  "validate_accept key acc = bind_result (ascii_encode key) (\<lambda>k. Inr (accept_of k = acc))"

subsection \<open>The request\<close>

record handshake =
  hs_key :: pystr
  hs_host :: pystr
  hs_path :: pystr
  hs_origin :: "pystr option"
  hs_subprotocols :: "pystr list"
  hs_extensions :: "pystr list"
  hs_extra_headers :: "(pystr \<times> pystr) list"

definition new_handshake :: "bytes \<Rightarrow> pystr \<Rightarrow> pystr \<Rightarrow> pystr option \<Rightarrow> pystr list option \<Rightarrow> pystr list option
    \<Rightarrow> (pystr \<times> pystr) list option \<Rightarrow> handshake" where
  "new_handshake random16 host path orig subprotocols extensions extra_headers =
     \<lparr>hs_key = generate_key random16, hs_host = host, hs_path = path, hs_origin = orig,
      hs_subprotocols = (case subprotocols of Some xs \<Rightarrow> xs | None \<Rightarrow> []),
      hs_extensions = (case extensions of Some xs \<Rightarrow> xs | None \<Rightarrow> []),
      hs_extra_headers = (case extra_headers of Some xs \<Rightarrow> xs | None \<Rightarrow> [])\<rparr>"

definition header_line :: "pystr \<times> pystr \<Rightarrow> pystr" where
  "header_line h = fst h @ lit '': '' @ snd h"

definition request_lines :: "handshake \<Rightarrow> pystr list" where
  "request_lines h =
     [lit ''GET '' @ hs_path h @ lit '' HTTP/1.1'', lit ''Host: '' @ hs_host h, lit ''Upgrade: websocket'',
      lit ''Connection: Upgrade'', lit ''Sec-WebSocket-Key: '' @ hs_key h, lit ''Sec-WebSocket-Version: 13'']
     @ (case hs_origin h of None \<Rightarrow> [] | Some orig \<Rightarrow> if orig = [] then [] else [lit ''Origin: '' @ orig])
     @ (if hs_subprotocols h = [] then []
        else [lit ''Sec-WebSocket-Protocol: '' @ join (lit '', '') (hs_subprotocols h)])
     @ (if hs_extensions h = [] then []
        else [lit ''Sec-WebSocket-Extensions: '' @ join (lit ''; '') (hs_extensions h)])
     @ map header_line (hs_extra_headers h)
     @ [[], []]"

definition build_request :: "handshake \<Rightarrow> exn + bytes" where
  "build_request h = str_encode (join CRLF (request_lines h))"

subsection \<open>The response\<close>

record handshake_result =
  hr_status :: int
  hr_headers :: "(pystr \<times> pystr) list"
  hr_subprotocol :: "pystr option"
  hr_extensions :: "pystr list"

primrec header_lines :: "pystr list \<Rightarrow> (pystr \<times> pystr) list \<Rightarrow> (pystr \<times> pystr) list" where
  "header_lines [] headers = headers"
| "header_lines (l # ls) headers =
     header_lines ls
       (case partition_at 58 l of
          (name, True, value) \<Rightarrow> dict_set (lower (strip name)) (strip value) headers
        | _ \<Rightarrow> headers)"

definition get :: "(pystr \<times> pystr) list \<Rightarrow> pystr \<Rightarrow> pystr \<Rightarrow> pystr" where
  "get headers name dflt = (case map_of headers name of Some v \<Rightarrow> v | None \<Rightarrow> dflt)"

definition invalid_response :: exn where
  "invalid_response = ValueError ''Invalid HTTP response''"

definition parse_response :: "handshake \<Rightarrow> bytes \<Rightarrow> exn + handshake_result" where
  "parse_response h response =
     (case find_sub CRLF2 response of
        None \<Rightarrow> Inl invalid_response
      | Some header_end \<Rightarrow>
     (case utf8_decode (take header_end response) of
        None \<Rightarrow> Inl invalid_response
      | Some header_section \<Rightarrow>
          (let lines = split_on CRLF header_section;
               parts = split_max 2 32 (hd lines)
           in if length parts < 2 then Inl invalid_response
              else case py_int (parts ! 1) of
                Inl _ \<Rightarrow> Inl invalid_response
              | Inr status \<Rightarrow>
                  if status \<noteq> 101 then Inl (ValueError ''HTTP status'')
                  else
                    (let headers = header_lines (tl lines) [];
                         upgrade = get headers (lit ''upgrade'') [];
                         connection = get headers (lit ''connection'') []
                     in if lower upgrade \<noteq> lit ''websocket'' then Inl (ValueError ''Invalid Upgrade header'')
                        else if \<not> contains (lit ''upgrade'') (lower connection) then Inl (ValueError ''Invalid Connection header'')
                        else case map_of headers (lit ''sec-websocket-accept'') of
                          None \<Rightarrow> Inl (ValueError ''Missing Sec-WebSocket-Accept header'')
                        | Some acc \<Rightarrow>
                            bind_result (validate_accept (hs_key h) acc) (\<lambda>ok.
                              if \<not> ok then Inl (ValueError ''Invalid Sec-WebSocket-Accept'')
                              else
                                (let extensions_str = get headers (lit ''sec-websocket-extensions'') []
                                 in Inr \<lparr>hr_status = status, hr_headers = headers,
                                      hr_subprotocol = map_of headers (lit ''sec-websocket-protocol''),
                                      hr_extensions = (if extensions_str = [] then []
                                        else map strip (split_on [59] extensions_str))\<rparr>)))))) "

definition validate_utf8 :: "bytes \<Rightarrow> bool" where
  "validate_utf8 dat \<longleftrightarrow> utf8_decode dat \<noteq> None"

subsection \<open>Parameters of the compression extension\<close>

record deflate_params =
  dp_client_no_context_takeover :: bool
  dp_server_no_context_takeover :: bool
  dp_client_max_window_bits :: int
  dp_server_max_window_bits :: int

definition deflate_token :: "pystr \<Rightarrow> deflate_params \<Rightarrow> exn + deflate_params" where
  "deflate_token raw_part p =
     (let token = strip raw_part
      in if lower token = lit ''permessage-deflate'' \<or> token = [] then Inr p
         else case partition_at 61 token of
           (k, True, v) \<Rightarrow>
             (let key = strip k; value = strip v
              in if key = lit ''client_max_window_bits'' then
                   bind_result (py_int value) (\<lambda>n. Inr (p\<lparr>dp_client_max_window_bits := n\<rparr>))
                 else if key = lit ''server_max_window_bits'' then
                   bind_result (py_int value) (\<lambda>n. Inr (p\<lparr>dp_server_max_window_bits := n\<rparr>))
                 else Inr p)
         | _ \<Rightarrow>
             Inr (if token = lit ''client_no_context_takeover'' then p\<lparr>dp_client_no_context_takeover := True\<rparr>
                  else if token = lit ''server_no_context_takeover'' then p\<lparr>dp_server_no_context_takeover := True\<rparr>
                  else p))"

primrec deflate_tokens :: "pystr list \<Rightarrow> deflate_params \<Rightarrow> exn + deflate_params" where
  "deflate_tokens [] p = Inr p"
| "deflate_tokens (t # ts) p = bind_result (deflate_token t p) (deflate_tokens ts)"

definition parse_deflate_params :: "pystr \<Rightarrow> exn + deflate_params" where
  "parse_deflate_params extension_str =
     deflate_tokens (split_on [59] extension_str)
       \<lparr>dp_client_no_context_takeover = False, dp_server_no_context_takeover = False,
        dp_client_max_window_bits = 15, dp_server_max_window_bits = 15\<rparr>"

text \<open>The example of RFC 6455, section 1.3.\<close>

lemma rfc_6455_digest:
  "sha1 [100, 71, 104, 108, 73, 72, 78, 104, 98, 88, 66, 115, 90, 83, 66, 117, 98, 50, 53, 106, 90, 81, 61, 61, 50,
     53, 56, 69, 65, 70, 65, 53, 45, 69, 57, 49, 52, 45, 52, 55, 68, 65, 45, 57, 53, 67, 65, 45, 67, 53, 65, 66,
     48, 68, 67, 56, 53, 66, 49, 49]
   = [179, 122, 79, 44, 192, 98, 79, 22, 144, 246, 70, 6, 207, 56, 89, 69, 178, 190, 196, 234]"
  by code_simp

lemma rfc_6455_accept:
  "validate_accept (lit ''dGhlIHNhbXBsZSBub25jZQ=='') (lit ''s3pPLMBiTxaQ9kYGzzhZRbK+xOo='') = Inr True"
  by (simp add: validate_accept_def ascii_encode_def accept_of_def WS_GUID_def rfc_6455_digest b64_digit_def)

subsection \<open>Reading a block of header lines\<close>

text \<open>A string that can stand in a header line.\<close>

definition clean :: "pystr \<Rightarrow> bool" where
  "clean s \<longleftrightarrow> list_all scalar_value s \<and> 13 \<notin> set s"

lemma clean_append [simp]: "clean (s @ t) \<longleftrightarrow> clean s \<and> clean t"
  by (auto simp: clean_def)

lemma clean_Cons [simp]: "clean (c # s) \<longleftrightarrow> scalar_value c \<and> c \<noteq> 13 \<and> clean s"
  by (auto simp: clean_def)

lemma clean_Nil [simp]: "clean []"
  by (simp add: clean_def)

lemma scalar_value_small [simp]: "c < 0xD800 \<Longrightarrow> scalar_value c"
  by (simp add: scalar_value_def)

lemma clean_join: "list_all clean xs \<Longrightarrow> clean sep \<Longrightarrow> clean (join sep xs)"
  by (induction xs) auto

lemma clean_b64: "list_all b64_char s \<Longrightarrow> clean s"
  by (auto simp: clean_def list_all_iff b64_char_def scalar_value_def)

lemma utf8_encode_append: "utf8_encode (s @ t) = utf8_encode s @ utf8_encode t"
  by (simp add: utf8_encode_def)

lemma utf8_encode_join: "utf8_encode (join CRLF ls) = join [13, 10] (map utf8_encode ls)"
proof -
  have "utf8_encode CRLF = [13, 10]" by (simp add: CRLF_def utf8_encode_def utf8_encode_char_def)
  then show ?thesis by (induction ls) (auto simp: utf8_encode_append, simp add: utf8_encode_def)
qed

lemma encode_nats_13: "scalar_value c \<Longrightarrow> 13 \<in> set (encode_nats c) \<Longrightarrow> c = 13"
  by (auto simp: encode_nats_eq split: if_splits)

lemma utf8_encode_no_cr: "clean s \<Longrightarrow> 13 \<notin> set (utf8_encode s)"
proof
  assume s: "clean s" and "13 \<in> set (utf8_encode s)"
  then have "unat (13 :: byte) \<in> set (map unat (utf8_encode s))" by (simp only: set_map imageI)
  then show False using s encode_nats_13
    by (auto simp: map_unat_utf8_encode clean_def list_all_iff)
qed

lemma utf8_encode_nonempty: "s \<noteq> [] \<Longrightarrow> utf8_encode s \<noteq> []"
  by (cases s) (auto simp: utf8_encode_def utf8_encode_char_def)

definition header_block :: "pystr list \<Rightarrow> bool" where
  "header_block ls \<longleftrightarrow> ls \<noteq> [] \<and> list_all (\<lambda>l. clean l \<and> l \<noteq> []) ls"

lemma header_block_read:
  assumes "header_block ls" and resp: "resp = utf8_encode (join CRLF (ls @ [[], []])) @ early"
  shows "find_sub CRLF2 resp = Some (length (utf8_encode (join CRLF ls)))"
    and "utf8_decode (take (length (utf8_encode (join CRLF ls))) resp) = Some (join CRLF ls)"
    and "split_on CRLF (join CRLF ls) = ls"
proof -
  have ls: "ls \<noteq> []" "list_all (\<lambda>l. clean l \<and> l \<noteq> []) ls" using assms(1) by (simp_all add: header_block_def)
  have eq: "resp = join [13, 10] (map utf8_encode ls) @ [13, 10, 13, 10] @ early"
    using join_snoc2 [of "map utf8_encode ls" "[13, 10]"] ls(1)
    by (simp add: resp utf8_encode_join) (simp add: utf8_encode_def)
  have "list_all (\<lambda>l. 13 \<notin> set l \<and> l \<noteq> []) (map utf8_encode ls)"
    using ls(2) by (auto simp: list_all_iff utf8_encode_no_cr utf8_encode_nonempty)
  from find_blank_line [OF this, of 10 early] ls(1)
  show "find_sub CRLF2 resp = Some (length (utf8_encode (join CRLF ls)))"
    unfolding eq by (simp add: CRLF2_def utf8_encode_join)
  have "list_all scalar_value (join CRLF ls)"
    using ls(2) by (intro list_all_join) (auto simp: CRLF_def list_all_iff clean_def)
  moreover have "take (length (utf8_encode (join CRLF ls))) resp = utf8_encode (join CRLF ls)"
    unfolding eq by (simp add: utf8_encode_join)
  ultimately show "utf8_decode (take (length (utf8_encode (join CRLF ls))) resp) = Some (join CRLF ls)"
    by (simp add: utf8_decode_encode)
  show "split_on CRLF (join CRLF ls) = ls"
    unfolding CRLF_def using ls by (intro split_on_join) (auto simp: list_all_iff clean_def)
qed

text \<open>The name and value that a line contributes.\<close>

definition line_header :: "pystr \<Rightarrow> (pystr \<times> pystr) option" where
  "line_header l = (case partition_at 58 l of
     (name, True, value) \<Rightarrow> Some (lower (strip name), strip value) | _ \<Rightarrow> None)"

lemma header_lines_step:
  "header_lines (l # ls) d = header_lines ls (case line_header l of Some (n, v) \<Rightarrow> dict_set n v d | None \<Rightarrow> d)"
  by (auto simp: line_header_def split: prod.splits bool.splits)

definition names_other :: "pystr \<Rightarrow> pystr list \<Rightarrow> bool" where
  "names_other k ls \<longleftrightarrow> list_all (\<lambda>l. map_option fst (line_header l) \<noteq> Some k) ls"

lemma header_lines_other: "names_other k ls \<Longrightarrow> map_of (header_lines ls d) k = map_of d k"
proof (induction ls arbitrary: d)
  case (Cons l ls)
  then show ?case by (cases "line_header l") (auto simp: names_other_def header_lines_step simp del: header_lines.simps)
qed simp

lemma line_header_named:
  "line_header (lit ''Host: '' @ v) = Some (lit ''host'', strip v)"
  "line_header (lit ''Upgrade: '' @ v) = Some (lit ''upgrade'', strip v)"
  "line_header (lit ''Connection: '' @ v) = Some (lit ''connection'', strip v)"
  "line_header (lit ''Sec-WebSocket-Key: '' @ v) = Some (lit ''sec-websocket-key'', strip v)"
  "line_header (lit ''Sec-WebSocket-Version: '' @ v) = Some (lit ''sec-websocket-version'', strip v)"
  "line_header (lit ''Sec-WebSocket-Accept: '' @ v) = Some (lit ''sec-websocket-accept'', strip v)"
  "line_header (lit ''Sec-WebSocket-Protocol: '' @ v) = Some (lit ''sec-websocket-protocol'', strip v)"
  "line_header (lit ''Sec-WebSocket-Extensions: '' @ v) = Some (lit ''sec-websocket-extensions'', strip v)"
  "line_header (lit ''Origin: '' @ v) = Some (lit ''origin'', strip v)"
  by (simp_all add: line_header_def partition_at_def strip_def is_space_def lower_def lower_char_def)

lemma header_line_other:
  "58 \<notin> set (fst h) \<Longrightarrow> line_header (header_line h) = Some (lower (strip (fst h)), strip (snd h))"
  by (cases h) (simp add: header_line_def line_header_def partition_at_found strip_def is_space_def)

lemma dropWhile_none: "list_all (\<lambda>c. \<not> P c) s \<Longrightarrow> dropWhile P s = s"
  by (cases s) auto

lemma strip_id: "list_all (\<lambda>c. \<not> is_space c) s \<Longrightarrow> strip s = s"
  using dropWhile_none [of is_space s] dropWhile_none [of is_space "rev s"] by (simp add: strip_def list_all_iff)

lemma strip_b64: "list_all b64_char s \<Longrightarrow> strip s = s"
  by (rule strip_id) (auto simp: list_all_iff b64_char_def is_space_def)

subsection \<open>A conforming server\<close>

text \<open>
  The server's half of the handshake (RFC 6455, sections 4.2.1 and 4.2.2): it reads the key of a
  valid request, and answers with the accept key and further headers of its choice.
\<close>

definition server_reads :: "bytes \<Rightarrow> pystr option" where
  "server_reads req =
     (case find_sub CRLF2 req of
        None \<Rightarrow> None
      | Some n \<Rightarrow> Option.bind (utf8_decode (take n req)) (\<lambda>section.
          let headers = header_lines (tl (split_on CRLF section)) []
          in if lower (get headers (lit ''upgrade'') []) = lit ''websocket''
               \<and> contains (lit ''upgrade'') (lower (get headers (lit ''connection'') []))
               \<and> get headers (lit ''sec-websocket-version'') [] = lit ''13''
             then map_of headers (lit ''sec-websocket-key'') else None))"

definition reply_lines :: "pystr \<Rightarrow> (pystr \<times> pystr) list \<Rightarrow> pystr list" where
  "reply_lines key headers =
     [lit ''HTTP/1.1 101 Switching Protocols'', lit ''Upgrade: websocket'', lit ''Connection: Upgrade'',
      lit ''Sec-WebSocket-Accept: '' @ accept_of (map of_nat key)] @ map header_line headers"

definition server_writes :: "pystr \<Rightarrow> (pystr \<times> pystr) list \<Rightarrow> bytes" where
  "server_writes key headers = utf8_encode (join CRLF (reply_lines key headers @ [[], []]))"

text \<open>Further headers that do not repeat those of the handshake itself.\<close>

definition extra_ok :: "pystr list \<Rightarrow> (pystr \<times> pystr) list \<Rightarrow> bool" where
  "extra_ok names headers \<longleftrightarrow>
     list_all (\<lambda>h. clean (fst h) \<and> 58 \<notin> set (fst h) \<and> clean (snd h) \<and> lower (strip (fst h)) \<notin> set names) headers"

definition reserved_names :: "pystr list" where
  "reserved_names = [lit ''upgrade'', lit ''connection'', lit ''sec-websocket-key'', lit ''sec-websocket-version'',
     lit ''sec-websocket-accept'']"

definition handshake_wf :: "handshake \<Rightarrow> bool" where
  "handshake_wf h \<longleftrightarrow> clean (hs_host h) \<and> clean (hs_path h) \<and> pred_option clean (hs_origin h)
     \<and> list_all clean (hs_subprotocols h) \<and> list_all clean (hs_extensions h)
     \<and> extra_ok reserved_names (hs_extra_headers h)"

lemma extra_ok_block: "extra_ok ns hs \<Longrightarrow> list_all (\<lambda>l. clean l \<and> l \<noteq> []) (map header_line hs)"
  by (auto simp: extra_ok_def list_all_iff header_line_def)

lemma extra_ok_other: "extra_ok ns hs \<Longrightarrow> k \<in> set ns \<Longrightarrow> names_other k (map header_line hs)"
  by (auto simp: extra_ok_def names_other_def list_all_iff header_line_other)

lemma names_other_append: "names_other k (xs @ ys) \<longleftrightarrow> names_other k xs \<and> names_other k ys"
  by (simp add: names_other_def)

lemma names_other_Cons: "names_other k (x # xs) \<longleftrightarrow> map_option fst (line_header x) \<noteq> Some k \<and> names_other k xs"
  by (simp add: names_other_def)

lemma names_other_Nil: "names_other k []"
  by (simp add: names_other_def)

lemma header_lines_cong: "map_of d k = map_of d' k \<Longrightarrow> map_of (header_lines ls d) k = map_of (header_lines ls d') k"
proof (induction ls arbitrary: d d')
  case (Cons l ls)
  show ?case unfolding header_lines_step
    by (rule Cons.IH) (use Cons.prems in \<open>auto split: option.split\<close>)
qed simp

lemma accept_chars: "list_all b64_char (accept_of k)"
  by (simp add: accept_of_def b64encode_chars)

lemma ascii_encode_b64: "list_all b64_char s \<Longrightarrow> ascii_encode s = Inr (map of_nat s)"
proof -
  assume "list_all b64_char s"
  then have "list_all (\<lambda>c. c < 128) s" by (auto simp: list_all_iff b64_char_def)
  then show ?thesis by (simp add: ascii_encode_def)
qed

text \<open>The optional lines of the request, between the fixed ones and the extra headers.\<close>

definition optional_lines :: "handshake \<Rightarrow> pystr list" where
  "optional_lines h =
     (case hs_origin h of None \<Rightarrow> [] | Some orig \<Rightarrow> if orig = [] then [] else [lit ''Origin: '' @ orig])
     @ (if hs_subprotocols h = [] then [] else [lit ''Sec-WebSocket-Protocol: '' @ join (lit '', '') (hs_subprotocols h)])
     @ (if hs_extensions h = [] then [] else [lit ''Sec-WebSocket-Extensions: '' @ join (lit ''; '') (hs_extensions h)])"

definition fixed_lines :: "handshake \<Rightarrow> pystr list" where
  "fixed_lines h = [lit ''GET '' @ hs_path h @ lit '' HTTP/1.1'', lit ''Host: '' @ hs_host h, lit ''Upgrade: websocket'',
      lit ''Connection: Upgrade'', lit ''Sec-WebSocket-Key: '' @ hs_key h, lit ''Sec-WebSocket-Version: 13'']"

lemma request_lines_eq:
  "request_lines h = (fixed_lines h @ optional_lines h @ map header_line (hs_extra_headers h)) @ [[], []]"
  by (simp add: request_lines_def fixed_lines_def optional_lines_def)

lemma names_other_single: "line_header l = Some (n, v) \<Longrightarrow> n \<noteq> k \<Longrightarrow> names_other k [l]"
  by (simp add: names_other_def)

lemma reserved_neq:
  "k \<in> set reserved_names \<Longrightarrow> lit ''origin'' \<noteq> k \<and> lit ''sec-websocket-protocol'' \<noteq> k \<and> lit ''sec-websocket-extensions'' \<noteq> k
     \<and> lit ''host'' \<noteq> k"
  by (auto simp: reserved_names_def lit_inject simp del: lit_simps)

lemma clean_lit [simp]: "13 \<notin> set (lit s) \<Longrightarrow> clean (lit s)"
  by (auto simp: clean_def list_all_iff dest: lit_less)

lemma optional_lines_block: "handshake_wf h \<Longrightarrow> list_all (\<lambda>l. clean l \<and> l \<noteq> []) (optional_lines h)"
proof -
  assume "handshake_wf h"
  then have "clean (join (lit '', '') (hs_subprotocols h))" "clean (join (lit ''; '') (hs_extensions h))" "pred_option clean (hs_origin h)"
    by (auto simp: handshake_wf_def intro!: clean_join)
  then show ?thesis by (cases "hs_origin h") (simp_all add: optional_lines_def)
qed

lemma optional_lines_other: "k \<in> set reserved_names \<Longrightarrow> names_other k (optional_lines h)"
proof -
  assume "k \<in> set reserved_names"
  note ne = reserved_neq [OF this]
  have "names_other k [lit ''Origin: '' @ v]" "names_other k [lit ''Sec-WebSocket-Protocol: '' @ v]"
    "names_other k [lit ''Sec-WebSocket-Extensions: '' @ v]" for v
    using ne by (blast intro: names_other_single line_header_named)+
  then show ?thesis
    unfolding optional_lines_def
    by (simp add: names_other_append names_other_Nil del: lit_simps split: option.split)
qed

lemma request_lines_block:
  assumes "handshake_wf h" "list_all b64_char (hs_key h)"
  shows "header_block (fixed_lines h @ optional_lines h @ map header_line (hs_extra_headers h))"
proof -
  have "list_all (\<lambda>l. clean l \<and> l \<noteq> []) (fixed_lines h)"
    using assms clean_b64 [of "hs_key h"] by (simp add: fixed_lines_def handshake_wf_def)
  moreover have "fixed_lines h \<noteq> []" by (simp add: fixed_lines_def)
  ultimately show ?thesis
    using optional_lines_block [OF assms(1)] extra_ok_block assms(1) by (auto simp: header_block_def handshake_wf_def)
qed

lemma fixed_lines_tl:
  "tl (fixed_lines h) = [lit ''Host: '' @ hs_host h, lit ''Upgrade: '' @ lit ''websocket'', lit ''Connection: '' @ lit ''Upgrade'',
     lit ''Sec-WebSocket-Key: '' @ hs_key h, lit ''Sec-WebSocket-Version: '' @ lit ''13'']" "fixed_lines h \<noteq> []"
  by (simp_all add: fixed_lines_def)

text \<open>The headers a server finds in the request.\<close>

lemma request_headers:
  assumes "handshake_wf h" "list_all b64_char (hs_key h)"
    and d: "d = header_lines (tl (fixed_lines h @ optional_lines h @ map header_line (hs_extra_headers h))) []"
  shows "map_of d (lit ''upgrade'') = Some (lit ''websocket'')" "map_of d (lit ''connection'') = Some (lit ''Upgrade'')"
    "map_of d (lit ''sec-websocket-version'') = Some (lit ''13'')" "map_of d (lit ''sec-websocket-key'') = Some (hs_key h)"
proof -
  let ?rest = "optional_lines h @ map header_line (hs_extra_headers h)"
  have rest: "names_other k ?rest" if "k \<in> set reserved_names" for k
    using optional_lines_other [OF that] extra_ok_other [OF _ that] assms(1)
    by (auto simp: names_other_append handshake_wf_def)
  have d': "d = header_lines (tl (fixed_lines h) @ ?rest) []" using fixed_lines_tl(2) [of h] by (simp add: d)
  have lines: "line_header (lit ''Upgrade: '' @ lit ''websocket'') = Some (lit ''upgrade'', lit ''websocket'')"
    "line_header (lit ''Connection: '' @ lit ''Upgrade'') = Some (lit ''connection'', lit ''Upgrade'')"
    "line_header (lit ''Sec-WebSocket-Version: '' @ lit ''13'') = Some (lit ''sec-websocket-version'', lit ''13'')"
    "line_header (lit ''Sec-WebSocket-Key: '' @ hs_key h) = Some (lit ''sec-websocket-key'', hs_key h)"
    using strip_b64 [OF assms(2)] by (simp_all add: line_header_named del: lit_simps) (simp_all add: strip_def is_space_def)
  let ?base = "[(lit ''host'', strip (hs_host h)), (lit ''upgrade'', lit ''websocket''), (lit ''connection'', lit ''Upgrade''),
     (lit ''sec-websocket-key'', hs_key h), (lit ''sec-websocket-version'', lit ''13'')]"
  have base: "d = header_lines ?rest ?base"
    unfolding d' fixed_lines_tl
    by (simp add: header_lines_step lines line_header_named(1) lit_inject del: lit_simps header_lines.simps)
  have found: "map_of d k = map_of ?base k" if "k \<in> set reserved_names" for k
    unfolding base by (rule header_lines_other) (rule rest [OF that])
  show "map_of d (lit ''upgrade'') = Some (lit ''websocket'')" "map_of d (lit ''connection'') = Some (lit ''Upgrade'')"
    "map_of d (lit ''sec-websocket-version'') = Some (lit ''13'')" "map_of d (lit ''sec-websocket-key'') = Some (hs_key h)"
    by (subst found; simp add: reserved_names_def lit_inject del: lit_simps)+
qed

lemma get_found: "map_of d k = Some v \<Longrightarrow> get d k dflt = v"
  by (simp add: get_def)

lemma server_reads_request:
  assumes wf: "handshake_wf h" and key: "list_all b64_char (hs_key h)" and req: "build_request h = Inr req"
  shows "server_reads req = Some (hs_key h)"
proof -
  let ?ls = "fixed_lines h @ optional_lines h @ map header_line (hs_extra_headers h)"
  have "req = utf8_encode (join CRLF (?ls @ [[], []]))"
    using req by (simp add: build_request_def str_encode_def request_lines_eq split: if_splits)
  then have eq: "req = utf8_encode (join CRLF (?ls @ [[], []])) @ []" by simp
  note read = header_block_read [OF request_lines_block [OF wf key] eq]
  note hdr = request_headers [OF wf key refl]
  have "contains (lit ''upgrade'') (lower (lit ''Upgrade''))" "lower (lit ''websocket'') = lit ''websocket''"
    by (simp_all add: contains_def lower_def lower_char_def)
  then show ?thesis
    by (simp add: server_reads_def read Let_def hdr get_found [OF hdr(1)] get_found [OF hdr(2)] get_found [OF hdr(3)] del: lit_simps)
qed

lemma build_request_ok:
  assumes "handshake_wf h" "list_all b64_char (hs_key h)"
  shows "\<exists>req. build_request h = Inr req"
proof -
  have "list_all (list_all scalar_value) (fixed_lines h @ optional_lines h @ map header_line (hs_extra_headers h))"
    using request_lines_block [OF assms] by (auto simp: header_block_def clean_def list_all_iff)
  then have "list_all scalar_value (join CRLF (request_lines h))"
    unfolding request_lines_eq by (intro list_all_join) (simp_all add: CRLF_def)
  then show ?thesis by (simp add: build_request_def str_encode_def)
qed

definition answer_names :: "pystr list" where
  "answer_names = [lit ''upgrade'', lit ''connection'', lit ''sec-websocket-accept'']"

lemma answer_headers:
  fixes headers key
  defines "d \<equiv> header_lines (tl (reply_lines key headers)) []" and "acc \<equiv> accept_of (map of_nat key)"
  assumes extra: "extra_ok answer_names headers"
  shows "map_of d (lit ''upgrade'') = Some (lit ''websocket'')" "map_of d (lit ''connection'') = Some (lit ''Upgrade'')"
    "map_of d (lit ''sec-websocket-accept'') = Some acc"
    "\<And>k. k \<notin> set answer_names \<Longrightarrow> map_of d k = map_of (header_lines (map header_line headers) []) k"
proof -
  let ?extra = "map header_line headers"
  let ?base = "[(lit ''upgrade'', lit ''websocket''), (lit ''connection'', lit ''Upgrade''), (lit ''sec-websocket-accept'', acc)]"
  have lines: "line_header (lit ''Upgrade: '' @ lit ''websocket'') = Some (lit ''upgrade'', lit ''websocket'')"
    "line_header (lit ''Connection: '' @ lit ''Upgrade'') = Some (lit ''connection'', lit ''Upgrade'')"
    "line_header (lit ''Sec-WebSocket-Accept: '' @ acc) = Some (lit ''sec-websocket-accept'', acc)"
    using strip_b64 [OF accept_chars] unfolding acc_def
    by (simp_all add: line_header_named del: lit_simps) (simp_all add: strip_def is_space_def)
  have "tl (reply_lines key headers) = [lit ''Upgrade: '' @ lit ''websocket'', lit ''Connection: '' @ lit ''Upgrade'',
      lit ''Sec-WebSocket-Accept: '' @ acc] @ ?extra" by (simp add: reply_lines_def acc_def)
  then have d: "d = header_lines ?extra ?base"
    unfolding d_def by (simp add: header_lines_step lines lit_inject del: lit_simps header_lines.simps)
  have "names_other k ?extra" if "k \<in> set answer_names" for k using extra_ok_other [OF extra that] .
  then have found: "map_of d k = map_of ?base k" if "k \<in> set answer_names" for k
    unfolding d using header_lines_other that by blast
  show "map_of d (lit ''upgrade'') = Some (lit ''websocket'')" "map_of d (lit ''connection'') = Some (lit ''Upgrade'')"
    "map_of d (lit ''sec-websocket-accept'') = Some acc"
    by (subst found; simp add: answer_names_def lit_inject del: lit_simps)+
  show "map_of d k = map_of (header_lines ?extra []) k" if "k \<notin> set answer_names" for k
    unfolding d by (rule header_lines_cong) (use that in \<open>auto simp: answer_names_def simp del: lit_simps\<close>)
qed

lemma parse_answer:
  assumes key: "list_all b64_char (hs_key h)" and extra: "extra_ok answer_names headers"
  shows "\<exists>res. parse_response h (server_writes (hs_key h) headers @ early) = Inr res \<and> hr_status res = 101
    \<and> hr_subprotocol res = map_of (header_lines (map header_line headers) []) (lit ''sec-websocket-protocol'')
    \<and> (\<forall>k. k \<notin> set answer_names \<longrightarrow> map_of (hr_headers res) k = map_of (header_lines (map header_line headers) []) k)"
proof -
  let ?acc = "accept_of (map of_nat (hs_key h))"
  let ?ls = "reply_lines (hs_key h) headers"
  have "clean ?acc" using accept_chars clean_b64 by blast
  then have "list_all (\<lambda>l. clean l \<and> l \<noteq> []) ?ls"
    using extra_ok_block [OF extra] by (simp add: reply_lines_def)
  then have "header_block ?ls" by (simp add: header_block_def reply_lines_def)
  moreover define resp where "resp = server_writes (hs_key h) headers @ early"
  ultimately have read: "find_sub CRLF2 resp = Some (length (utf8_encode (join CRLF ?ls)))"
    "utf8_decode (take (length (utf8_encode (join CRLF ?ls))) resp) = Some (join CRLF ?ls)" "split_on CRLF (join CRLF ?ls) = ?ls"
    using header_block_read [of ?ls resp early] by (simp_all add: server_writes_def)
  note hdr = answer_headers [OF extra, where key = "hs_key h"]
  have sub: "map_of (header_lines (tl ?ls) []) (lit ''sec-websocket-protocol'')
      = map_of (header_lines (map header_line headers) []) (lit ''sec-websocket-protocol'')"
    by (rule hdr(4)) (simp add: answer_names_def lit_inject del: lit_simps)
  have low: "contains (lit ''upgrade'') (lower (lit ''Upgrade''))" "lower (lit ''websocket'') = lit ''websocket''"
    by (simp_all add: contains_def lower_def lower_char_def)
  have status: "split_max 2 32 (hd ?ls) = [lit ''HTTP/1.1'', lit ''101'', lit ''Switching Protocols'']"
    by (simp add: reply_lines_def numeral_2_eq_2 partition_at_def)
  have int: "py_int (lit ''101'') = Inr 101"
    by (simp add: py_int_def strip_def is_space_def is_digit_def digits_value_def Let_def)
  have valid: "validate_accept (hs_key h) ?acc = Inr True" by (simp add: validate_accept_def ascii_encode_b64 [OF key])
  show ?thesis
    unfolding resp_def [symmetric] by (simp add: parse_response_def read Let_def status int hdr(1-3) get_found [OF hdr(1)]
        get_found [OF hdr(2)] low valid sub hdr(4) del: lit_simps)
qed

text \<open>
  C6. The opening handshake succeeds with a conforming server: for a request whose parts contain no
  line break and whose extra headers do not repeat those of the handshake, the server finds the
  client's key in the bytes of \<^verbatim>\<open>build_request\<close>, and \<^verbatim>\<open>parse_response\<close> accepts the answer the server
  computes from that key, whatever further headers it carries and whatever data follow it, and
  returns the status 101 and the subprotocol the server chose.
\<close>

theorem opening_handshake_succeeds:
  assumes "handshake_wf h" and "hs_key h = generate_key random16" and "extra_ok answer_names headers"
  shows "\<exists>req res. build_request h = Inr req \<and> server_reads req = Some (hs_key h)
    \<and> parse_response h (server_writes (hs_key h) headers @ early) = Inr res \<and> hr_status res = 101
    \<and> hr_subprotocol res = map_of (header_lines (map header_line headers) []) (lit ''sec-websocket-protocol'')"
proof -
  have key: "list_all b64_char (hs_key h)" by (simp add: assms(2) generate_key_def b64encode_chars)
  show ?thesis
    using build_request_ok [OF assms(1) key] server_reads_request [OF assms(1) key] parse_answer [OF key assms(3)] by blast
qed

definition sample_handshake :: handshake where
  "sample_handshake = new_handshake [1, 2, 3] (lit ''example.com'') (lit ''/ws'') (Some (lit ''http://example.com''))
     (Some [lit ''chat'', lit ''superchat'']) None (Some [(lit ''X-Token'', lit ''a:b'')])"

lemma sample_handshake_wf:
  "handshake_wf sample_handshake" "hs_key sample_handshake = generate_key [1, 2, 3]"
  "extra_ok answer_names [(lit ''Sec-WebSocket-Protocol'', lit ''chat'')]"
  by (simp_all add: sample_handshake_def new_handshake_def handshake_wf_def extra_ok_def reserved_names_def answer_names_def
      strip_def is_space_def lower_def lower_char_def)

theorem opening_handshake_succeeds_witness:
  "\<exists>req res. build_request sample_handshake = Inr req \<and> server_reads req = Some (hs_key sample_handshake)
     \<and> parse_response sample_handshake
         (server_writes (hs_key sample_handshake) [(lit ''Sec-WebSocket-Protocol'', lit ''chat'')] @ [0x81, 0x00]) = Inr res
     \<and> hr_status res = 101
     \<and> hr_subprotocol res = map_of (header_lines (map header_line [(lit ''Sec-WebSocket-Protocol'', lit ''chat'')]) [])
         (lit ''sec-websocket-protocol'')"
  by (rule opening_handshake_succeeds [OF sample_handshake_wf])

text \<open>What an accepted response has been checked for.\<close>

lemma parse_response_sound:
  assumes "parse_response h response = Inr res"
  shows "hr_status res = 101" "lower (get (hr_headers res) (lit ''upgrade'') []) = lit ''websocket''"
    "contains (lit ''upgrade'') (lower (get (hr_headers res) (lit ''connection'') []))"
    "\<exists>k. ascii_encode (hs_key h) = Inr k \<and> map_of (hr_headers res) (lit ''sec-websocket-accept'') = Some (accept_of k)"
  using assms
  by (auto simp: parse_response_def Let_def bind_result_Inr_conv validate_accept_def simp del: lit_simps
      split: option.splits if_splits sum.splits)

text \<open>Every failure of \<^verbatim>\<open>parse_response\<close> is a \<^verbatim>\<open>ValueError\<close>.\<close>

lemma parse_response_error: "parse_response h response = Inl e \<Longrightarrow> is_ValueError e"
  by (auto simp: parse_response_def Let_def bind_result_def validate_accept_def ascii_encode_def invalid_response_def simp del: lit_simps
      split: option.splits if_splits sum.splits)

text \<open>A response with another status, such as 401, is refused.\<close>

lemma py_int_decimal: "py_int (decimal n) = Inr (int n)"
proof -
  have digits: "list_all is_digit (decimal n)" by (rule decimal_digits)
  then have "strip (decimal n) = decimal n" by (intro strip_id) (auto simp: list_all_iff is_digit_def is_space_def)
  moreover obtain c cs where c: "decimal n = c # cs" "is_digit c" using digits decimal_nonempty [of n] by (cases "decimal n") auto
  moreover have "digits_ok False (decimal n)"
  proof -
    have "list_all is_digit s \<Longrightarrow> digits_ok True s" for s by (induction s) auto
    then show ?thesis using digits c by simp
  qed
  moreover have "filter is_digit (decimal n) = decimal n" using digits by (simp add: filter_id_conv list_all_iff)
  ultimately show ?thesis
    using digits_value_decimal [of n] by (auto simp: py_int_def Let_def is_digit_def)
qed

definition status_line :: "nat \<Rightarrow> pystr \<Rightarrow> pystr" where
  "status_line n reason = lit ''HTTP/1.1 '' @ decimal n @ 32 # reason"

lemma other_status_refused:
  assumes "header_block (status_line n reason # ls)" "n \<noteq> 101"
  shows "parse_response h (utf8_encode (join CRLF ((status_line n reason # ls) @ [[], []])) @ body) = Inl (ValueError ''HTTP status'')"
proof -
  define resp where "resp = utf8_encode (join CRLF ((status_line n reason # ls) @ [[], []])) @ body"
  note read = header_block_read [OF assms(1) resp_def]
  have sp: "32 \<notin> set (decimal n)" using decimal_digits [of n] by (auto simp: list_all_iff is_digit_def)
  have "split_max 2 32 (status_line n reason) = [lit ''HTTP/1.1'', decimal n, reason]"
    using partition_at_found [OF sp, of reason]
    by (simp add: status_line_def numeral_2_eq_2 partition_at_def)
  then show ?thesis
    unfolding resp_def [symmetric] using assms(2) by (simp add: parse_response_def read Let_def py_int_decimal del: join.simps)
qed

end
