(* ===== verification/Jet_Async_Transport.thy ===== *)
theory Jet_Async_Transport
  imports Jet_Delivery Jet_Deflate Jet_Handshake
begin

text \<open>
  The asyncio transport (\<^verbatim>\<open>src/jetsocket/transport/_async.py\<close>): the protocol object that asyncio
  calls back, and the transport's operations once \<^verbatim>\<open>connect\<close> has finished its handshake (its
  beginning is in \<^verbatim>\<open>Jet_Connect\<close>).

  The protocol's asyncio transport is what has been written to it, in order, and whether it has
  been closed. Masking keys come from \<^verbatim>\<open>os.urandom\<close>: a parameter \<^verbatim>\<open>rand\<close> gives the key of every
  draw, and the state counts the draws. A coroutine is split at its suspension points; an
  operation returns \<^verbatim>\<open>Waiting\<close> where the coroutine would suspend, and the function that resumes
  it is named after it.
\<close>

datatype hs_future = NoFuture | FuturePending | FutureResult bytes | FutureFailed exn

record ('c, 'd) ws_protocol =
  pr_out :: bytes
  pr_closed :: bool
  pr_parser :: "frame_parser option"
  pr_deflater :: "('c, 'd) deflater option"
  pr_frames :: "frame list"
  pr_frame_ready :: bool
  pr_can_write :: bool
  pr_handshake_buffer :: bytes
  pr_handshake_future :: hs_future
  pr_handshake_done :: bool
  pr_connection_lost :: bool
  pr_draws :: nat

definition new_protocol :: "('c, 'd) ws_protocol" where
  "new_protocol = \<lparr>pr_out = [], pr_closed = False, pr_parser = None, pr_deflater = None,
     pr_frames = [], pr_frame_ready = False, pr_can_write = True, pr_handshake_buffer = [],
     pr_handshake_future = NoFuture, pr_handshake_done = False, pr_connection_lost = False, pr_draws = 0\<rparr>"

definition wire_write :: "bytes \<Rightarrow> ('c, 'd) ws_protocol \<Rightarrow> ('c, 'd) ws_protocol" where
  "wire_write bs p = p\<lparr>pr_out := pr_out p @ bs\<rparr>"

definition push_frame :: "frame \<Rightarrow> ('c, 'd) ws_protocol \<Rightarrow> ('c, 'd) ws_protocol" where
  "push_frame f p = p\<lparr>pr_frames := pr_frames p @ [f], pr_frame_ready := True\<rparr>"

text \<open>
  The loop over the parsed frames. An exception from the decompressor leaves \<^verbatim>\<open>data_received\<close>;
  the frames after it are lost.
\<close>

fun handle_frames :: "('c, 'd) zlib \<Rightarrow> (nat \<Rightarrow> bytes) \<Rightarrow> frame list \<Rightarrow> ('c, 'd) ws_protocol
    \<Rightarrow> exn option \<times> ('c, 'd) ws_protocol" where
  "handle_frames z rand [] p = (None, p)"
| "handle_frames z rand (f # fs) p =
     (if f_opcode f = PING then
        handle_frames z rand fs
          (wire_write (encode_frame (rand (pr_draws p)) 0xA (f_payload f) True True False)
             (p\<lparr>pr_draws := pr_draws p + 1\<rparr>))
      else if f_opcode f = CLOSE \<or> f_opcode f = PONG then
        handle_frames z rand fs (push_frame f p)
      else if f_rsv1 f \<and> \<not> Option.is_none (pr_deflater p) then
        (case deflate_decompress z (f_payload f) (the (pr_deflater p)) of
           Inl e \<Rightarrow> (Some e, p)
         | Inr (decompressed, df) \<Rightarrow>
             handle_frames z rand fs
               (push_frame (mk_frame (f_opcode f) decompressed (f_fin f) False) (p\<lparr>pr_deflater := Some df\<rparr>)))
      else handle_frames z rand fs (push_frame f p))"

definition data_received :: "('c, 'd) zlib \<Rightarrow> (nat \<Rightarrow> bytes) \<Rightarrow> bytes \<Rightarrow> ('c, 'd) ws_protocol
    \<Rightarrow> exn option \<times> ('c, 'd) ws_protocol" where
  "data_received z rand dat p =
     (if \<not> pr_handshake_done p then
        (let p1 = p\<lparr>pr_handshake_buffer := pr_handshake_buffer p @ dat\<rparr>
         in (None,
             if find_sub CRLF2 (pr_handshake_buffer p1) \<noteq> None \<and> pr_handshake_future p1 = FuturePending
             then p1\<lparr>pr_handshake_future := FutureResult (pr_handshake_buffer p1)\<rparr> else p1))
      else case pr_parser p of
        None \<Rightarrow> (None, p)
      | Some parser \<Rightarrow>
          (case feed parser dat of
             (Inl e, parser') \<Rightarrow>
               if is_ValueError e then (None, p\<lparr>pr_parser := Some parser', pr_closed := True\<rparr>)
               else (Some e, p\<lparr>pr_parser := Some parser'\<rparr>)
           | (Inr (frames, _), parser') \<Rightarrow> handle_frames z rand frames (p\<lparr>pr_parser := Some parser'\<rparr>)))"

definition connection_lost :: "exn option \<Rightarrow> ('c, 'd) ws_protocol \<Rightarrow> ('c, 'd) ws_protocol" where
  "connection_lost exc p =
     (let p1 = p\<lparr>pr_connection_lost := True, pr_frame_ready := True\<rparr>
      in if pr_handshake_future p1 = FuturePending then
           p1\<lparr>pr_handshake_future := FutureFailed (case exc of Some e \<Rightarrow> e
              | None \<Rightarrow> ConnectionError ''Connection closed during handshake'')\<rparr>
         else p1)"

definition pause_writing :: "('c, 'd) ws_protocol \<Rightarrow> ('c, 'd) ws_protocol" where
  "pause_writing p = p\<lparr>pr_can_write := False\<rparr>"

definition resume_writing :: "('c, 'd) ws_protocol \<Rightarrow> ('c, 'd) ws_protocol" where
  "resume_writing p = p\<lparr>pr_can_write := True\<rparr>"

subsection \<open>\<^verbatim>\<open>AsyncTransport\<close>\<close>

text \<open>
  \<^verbatim>\<open>at_attached\<close> says that \<^verbatim>\<open>_protocol\<close>, \<^verbatim>\<open>_parser\<close> and \<^verbatim>\<open>_asyncio_transport\<close> are set: \<^verbatim>\<open>connect\<close>
  sets them and \<^verbatim>\<open>_close_transport\<close> clears them together. The parser and the deflater are the
  objects the protocol holds.
\<close>

record ('c, 'd) async_transport =
  at_connected :: bool
  at_closing :: bool
  at_attached :: bool
  at_proto :: "('c, 'd) ws_protocol"
  at_close_code :: "int option"
  at_close_reason :: pystr
  at_read_timeout :: "pyfloat option"
  at_compression_threshold :: int

datatype 'a outcome = Return 'a | Raise exn | Waiting

definition with_proto :: "(('c, 'd) ws_protocol \<Rightarrow> ('c, 'd) ws_protocol)
    \<Rightarrow> ('c, 'd) async_transport \<Rightarrow> ('c, 'd) async_transport" where
  "with_proto g t = t\<lparr>at_proto := g (at_proto t)\<rparr>"

text \<open>
  The end of \<^verbatim>\<open>connect\<close>, after the handshake: the protocol is switched to frames and the bytes
  that followed the response headers are handed to it.
\<close>

definition connect_finish :: "('c, 'd) zlib \<Rightarrow> (nat \<Rightarrow> bytes) \<Rightarrow> int \<Rightarrow> int \<Rightarrow> ('c, 'd) deflater option
    \<Rightarrow> ('c, 'd) async_transport \<Rightarrow> exn option \<times> ('c, 'd) async_transport" where
  "connect_finish z rand max_frame_size max_message_size df t =
     (let p = (at_proto t)\<lparr>pr_parser := Some (new_parser max_frame_size max_message_size),
                 pr_deflater := df, pr_handshake_done := True\<rparr>;
          leftover = pr_handshake_buffer p
      in case find_sub CRLF2 leftover of
           None \<Rightarrow> (None, t\<lparr>at_proto := p, at_attached := True, at_connected := True\<rparr>)
         | Some idx \<Rightarrow>
             let remaining = drop (idx + 4) leftover
             in if remaining = [] then (None, t\<lparr>at_proto := p, at_attached := True, at_connected := True\<rparr>)
                else (case data_received z rand remaining p of
                        (Some e, p') \<Rightarrow> (Some e, t\<lparr>at_proto := p', at_attached := True\<rparr>)
                      | (None, p') \<Rightarrow> (None, t\<lparr>at_proto := p', at_attached := True, at_connected := True\<rparr>)))"

definition close_transport :: "('c, 'd) async_transport \<Rightarrow> ('c, 'd) async_transport" where
  "close_transport t =
     (if at_attached t
      then (with_proto (\<lambda>p. p\<lparr>pr_closed := True\<rparr>) t)\<lparr>at_attached := False\<rparr> else t)"

datatype payload = PBytes bytes | PStr pystr

definition not_connected :: exn where
  "not_connected = ConnectionError ''Transport is not connected''"

text \<open>
  The two senders share their second half: compress when applicable, encode, and write when the
  transport accepts data. When it does not, the encoded frame waits.
\<close>

definition compress_if :: "('c, 'd) zlib \<Rightarrow> bool \<Rightarrow> bytes \<Rightarrow> bool \<Rightarrow> ('c, 'd) async_transport
    \<Rightarrow> bytes \<times> bool \<times> ('c, 'd) async_transport" where
  "compress_if z eligible dat rsv1 t =
     (case pr_deflater (at_proto t) of
        None \<Rightarrow> (dat, rsv1, t)
      | Some df \<Rightarrow>
          if eligible \<and> at_compression_threshold t \<le> int (length dat) then
            (let (dat', df') = deflate_compress z dat df
             in (dat', True, with_proto (\<lambda>p. p\<lparr>pr_deflater := Some df'\<rparr>) t))
          else (dat, rsv1, t))"

definition draw_key :: "(nat \<Rightarrow> bytes) \<Rightarrow> ('c, 'd) async_transport \<Rightarrow> bytes \<times> ('c, 'd) async_transport" where
  "draw_key rand t = (rand (pr_draws (at_proto t)), with_proto (\<lambda>p. p\<lparr>pr_draws := pr_draws p + 1\<rparr>) t)"

text \<open>
  \<^verbatim>\<open>send_resume\<close>: the wait for \<^verbatim>\<open>_can_write\<close> is over, the frame is written without a second look;
  by then the transport may have been closed and its attribute be \<^verbatim>\<open>None\<close>.
\<close>

definition send_resume :: "bytes \<Rightarrow> ('c, 'd) async_transport \<Rightarrow> unit outcome \<times> ('c, 'd) async_transport" where
  "send_resume frame_data t =
     (if \<not> at_attached t then (Raise (OtherException ''AttributeError''), t)
      else (Return (), with_proto (wire_write frame_data) t))"

definition send_write :: "bytes \<Rightarrow> ('c, 'd) async_transport \<Rightarrow> unit outcome \<times> ('c, 'd) async_transport" where
  "send_write frame_data t =
     (if \<not> pr_can_write (at_proto t) then (Waiting, t) else send_resume frame_data t)"

definition encode_and_write :: "(nat \<Rightarrow> bytes) \<Rightarrow> opcode \<Rightarrow> bytes \<Rightarrow> bool \<Rightarrow> bool \<Rightarrow> ('c, 'd) async_transport
    \<Rightarrow> bytes \<times> unit outcome \<times> ('c, 'd) async_transport" where
  "encode_and_write rand opc dat fin rsv1 t =
     (let (key, t1) = draw_key rand t;
          frame_data = encode_frame key (opcode_value opc) dat True fin rsv1
      in (frame_data, send_write frame_data t1))"

text \<open>\<^verbatim>\<open>send\<close> returns the encoded frame beside its outcome: what is written now, or on resumption.\<close>

definition send :: "('c, 'd) zlib \<Rightarrow> (nat \<Rightarrow> bytes) \<Rightarrow> payload \<Rightarrow> bool option \<Rightarrow> ('c, 'd) async_transport
    \<Rightarrow> bytes \<times> unit outcome \<times> ('c, 'd) async_transport" where
  "send z rand data binary t =
     (if \<not> at_connected t \<or> \<not> at_attached t then ([], Raise not_connected, t)
      else let is_binary = (case binary of Some b \<Rightarrow> b | None \<Rightarrow> (case data of PBytes _ \<Rightarrow> True | PStr _ \<Rightarrow> False));
               opc = (if is_binary then BINARY else TEXT)
           in case (case data of PBytes bs \<Rightarrow> Inr bs | PStr s \<Rightarrow> str_encode s) of
                Inl e \<Rightarrow> ([], Raise e, t)
              | Inr dat \<Rightarrow>
                  let (dat', rsv1, t1) = compress_if z True dat False t
                  in encode_and_write rand opc dat' True rsv1 t1)"

definition send_frame :: "('c, 'd) zlib \<Rightarrow> (nat \<Rightarrow> bytes) \<Rightarrow> frame \<Rightarrow> ('c, 'd) async_transport
    \<Rightarrow> bytes \<times> unit outcome \<times> ('c, 'd) async_transport" where
  "send_frame z rand f t =
     (if \<not> at_connected t \<or> \<not> at_attached t then ([], Raise not_connected, t)
      else let (dat, rsv1, t1) = compress_if z (\<not> opcode_is_control (f_opcode f)) (f_payload f) (f_rsv1 f) t
           in encode_and_write rand (f_opcode f) dat (f_fin f) rsv1 t1)"

definition ping :: "(nat \<Rightarrow> bytes) \<Rightarrow> bytes \<Rightarrow> ('c, 'd) async_transport \<Rightarrow> unit outcome \<times> ('c, 'd) async_transport" where
  "ping rand payload t =
     (if length payload > 125 then (Raise (ValueError ''Ping payload must be 125 bytes or less''), t)
      else if \<not> at_connected t \<or> \<not> at_attached t then (Raise not_connected, t)
      else let (key, t1) = draw_key rand t
           in (Return (), with_proto (wire_write (encode_frame key (opcode_value PING) payload True True False)) t1))"

subsection \<open>\<^verbatim>\<open>recv\<close>\<close>

definition remote_closed :: exn where
  "remote_closed = ConnectionError ''Connection closed by remote''"

text \<open>
  A close frame: the code and reason are kept on the transport, the close is echoed unless the
  closing was already under way, and the call raises.
\<close>

definition recv_close_frame :: "(nat \<Rightarrow> bytes) \<Rightarrow> frame \<Rightarrow> ('c, 'd) async_transport
    \<Rightarrow> frame outcome \<times> ('c, 'd) async_transport" where
  "recv_close_frame rand f t =
     (let code = (case frame_close_code f of Some c \<Rightarrow> if c = 0 then CloseCode NO_STATUS else c
                  | None \<Rightarrow> CloseCode NO_STATUS);
          t1 = t\<lparr>at_close_code := Some code, at_close_reason := frame_close_reason f\<rparr>
      in if \<not> at_closing t1 then
           (let t2 = t1\<lparr>at_closing := True\<rparr>
            in if at_attached t2 then
                 (let (key, t3) = draw_key rand t2
                  in case encode_close key code (at_close_reason t3) True of
                       Inl e \<Rightarrow> (Raise e, t2)
                     | Inr close_echo \<Rightarrow>
                         (Raise remote_closed,
                          close_transport ((with_proto (wire_write close_echo) t3)\<lparr>at_connected := False\<rparr>)))
               else (Raise remote_closed, close_transport (t2\<lparr>at_connected := False\<rparr>)))
         else (Raise remote_closed, close_transport (t1\<lparr>at_connected := False\<rparr>)))"

text \<open>The loop from its head: take the available frames, or clear the event and wait.\<close>

fun recv_loop :: "(nat \<Rightarrow> bytes) \<Rightarrow> frame list \<Rightarrow> ('c, 'd) async_transport
    \<Rightarrow> frame outcome \<times> ('c, 'd) async_transport" where
  "recv_loop rand [] t = (Waiting, with_proto (\<lambda>p. p\<lparr>pr_frames := [], pr_frame_ready := False\<rparr>) t)"
| "recv_loop rand (f # fs) t =
     (let t1 = with_proto (\<lambda>p. p\<lparr>pr_frames := fs\<rparr>) t
      in if f_opcode f = CLOSE then recv_close_frame rand f t1
         else if f_opcode f = PONG then recv_loop rand fs t1
         else (Return f, t1))"

definition recv :: "(nat \<Rightarrow> bytes) \<Rightarrow> ('c, 'd) async_transport \<Rightarrow> frame outcome \<times> ('c, 'd) async_transport" where
  "recv rand t =
     (if \<not> at_connected t \<or> \<not> at_attached t then (Raise not_connected, t)
      else recv_loop rand (pr_frames (at_proto t)) t)"

text \<open>The coroutine resumes: the event has been set, or the read timeout has expired.\<close>

definition recv_wake :: "(nat \<Rightarrow> bytes) \<Rightarrow> ('c, 'd) async_transport
    \<Rightarrow> frame outcome \<times> ('c, 'd) async_transport" where
  "recv_wake rand t =
     (if pr_connection_lost (at_proto t) \<and> pr_frames (at_proto t) = []
      then (Raise remote_closed, t\<lparr>at_connected := False\<rparr>)
      else recv_loop rand (pr_frames (at_proto t)) t)"

definition recv_timeout :: "('c, 'd) async_transport \<Rightarrow> frame outcome \<times> ('c, 'd) async_transport" where
  "recv_timeout t =
     (Raise (TimeoutError ''Read operation timed out''
        (case at_read_timeout t of Some s \<Rightarrow> s | None \<Rightarrow> 0) ''recv''), t)"

subsection \<open>\<^verbatim>\<open>close\<close>\<close>

definition close_finish :: "('c, 'd) async_transport \<Rightarrow> unit outcome \<times> ('c, 'd) async_transport" where
  "close_finish t = (Return (), close_transport (t\<lparr>at_connected := False\<rparr>))"

text \<open>The head of the loop of \<^verbatim>\<open>_wait_for_close\<close>: clear the event and wait.\<close>

definition wait_for_close :: "('c, 'd) async_transport \<Rightarrow> unit outcome \<times> ('c, 'd) async_transport" where
  "wait_for_close t =
     (if at_attached t \<and> at_connected t
      then (Waiting, with_proto (\<lambda>p. p\<lparr>pr_frame_ready := False\<rparr>) t) else close_finish t)"

definition close :: "(nat \<Rightarrow> bytes) \<Rightarrow> int \<Rightarrow> pystr \<Rightarrow> ('c, 'd) async_transport
    \<Rightarrow> unit outcome \<times> ('c, 'd) async_transport" where
  "close rand code reason t =
     (if \<not> at_connected t \<or> at_closing t then (Return (), t)
      else let t1 = t\<lparr>at_closing := True, at_close_code := Some code, at_close_reason := reason\<rparr>
           in if at_attached t1 then
                (let (key, t2) = draw_key rand t1
                 in case encode_close key code reason True of
                      Inl _ \<Rightarrow> close_finish t1
                    | Inr close_frame \<Rightarrow> wait_for_close (with_proto (wire_write close_frame) t2))
              else close_finish t1)"

text \<open>The frames that arrive while closing are discarded up to and including the close frame.\<close>

fun discard_to_close :: "frame list \<Rightarrow> bool \<times> frame list" where
  "discard_to_close [] = (False, [])"
| "discard_to_close (f # fs) = (if f_opcode f = CLOSE then (True, fs) else discard_to_close fs)"

definition close_wake :: "('c, 'd) async_transport \<Rightarrow> unit outcome \<times> ('c, 'd) async_transport" where
  "close_wake t =
     (let (found, rest) = discard_to_close (pr_frames (at_proto t));
          t1 = with_proto (\<lambda>p. p\<lparr>pr_frames := rest\<rparr>) t
      in if found \<or> pr_connection_lost (at_proto t1) then close_finish t1 else wait_for_close t1)"

subsection \<open>Sending and receiving\<close>

lemma with_proto_simps [simp]:
  "at_proto (with_proto g t) = g (at_proto t)" "at_connected (with_proto g t) = at_connected t"
  "at_attached (with_proto g t) = at_attached t" "at_closing (with_proto g t) = at_closing t"
  "at_close_code (with_proto g t) = at_close_code t" "at_close_reason (with_proto g t) = at_close_reason t"
  "at_compression_threshold (with_proto g t) = at_compression_threshold t"
  by (simp_all add: with_proto_def)

lemma wire_write_simps [simp]:
  "pr_out (wire_write bs p) = pr_out p @ bs" "pr_can_write (wire_write bs p) = pr_can_write p"
  "pr_deflater (wire_write bs p) = pr_deflater p" "pr_parser (wire_write bs p) = pr_parser p"
  "pr_frames (wire_write bs p) = pr_frames p" "pr_draws (wire_write bs p) = pr_draws p"
  "pr_handshake_done (wire_write bs p) = pr_handshake_done p"
  "pr_frame_ready (wire_write bs p) = pr_frame_ready p"
  "pr_connection_lost (wire_write bs p) = pr_connection_lost p"
  "pr_closed (wire_write bs p) = pr_closed p"
  by (simp_all add: wire_write_def)

definition ready_to_send :: "('c, 'd) async_transport \<Rightarrow> bool" where
  "ready_to_send t \<longleftrightarrow> at_connected t \<and> at_attached t \<and> pr_can_write (at_proto t) \<and> pr_deflater (at_proto t) = None"

lemma send_plain:
  assumes "ready_to_send t"
  shows "\<exists>t'. send z rand (PBytes dat) (Some b) t = (encode_of (rand (pr_draws (at_proto t))) True (message_frame (b, dat)), Return (), t')
    \<and> ready_to_send t' \<and> pr_draws (at_proto t') = pr_draws (at_proto t) + 1
    \<and> pr_out (at_proto t') = pr_out (at_proto t) @ encode_of (rand (pr_draws (at_proto t))) True (message_frame (b, dat))"
  using assms
  by (simp add: ready_to_send_def send_def compress_if_def encode_and_write_def draw_key_def send_write_def
      send_resume_def encode_of_def message_frame_def mk_frame_def Let_def)

primrec send_all :: "('c, 'd) zlib \<Rightarrow> (nat \<Rightarrow> bytes) \<Rightarrow> (bool \<times> bytes) list \<Rightarrow> ('c, 'd) async_transport
    \<Rightarrow> ('c, 'd) async_transport" where
  "send_all z rand [] t = t"
| "send_all z rand (m # ms) t = send_all z rand ms (snd (snd (send z rand (PBytes (snd m)) (Some (fst m)) t)))"

lemma send_all_fold:
  "send_all z rand ms t = fold (\<lambda>m t. snd (snd (send z rand (PBytes (snd m)) (Some (fst m)) t))) ms t"
  by (induction ms arbitrary: t) simp_all

interpretation async_sender: message_sender "\<lambda>m t. snd (snd (send z rand (PBytes (snd m)) (Some (fst m)) t))"
    "\<lambda>t. pr_out (at_proto t)" "\<lambda>t. pr_draws (at_proto t)" ready_to_send rand for z rand
proof
  fix a :: "('a, 'b) async_transport" and m :: "bool \<times> bytes"
  assume "ready_to_send a"
  from send_plain [OF this, of z rand "snd m" "fst m"]
  show "ready_to_send (snd (snd (send z rand (PBytes (snd m)) (Some (fst m)) a)))"
    "pr_draws (at_proto (snd (snd (send z rand (PBytes (snd m)) (Some (fst m)) a)))) = pr_draws (at_proto a) + 1"
    "pr_out (at_proto (snd (snd (send z rand (PBytes (snd m)) (Some (fst m)) a))))
       = pr_out (at_proto a) @ encode_of (rand (pr_draws (at_proto a))) True (message_frame m)"
    by auto
qed

primrec receive_all :: "('c, 'd) zlib \<Rightarrow> (nat \<Rightarrow> bytes) \<Rightarrow> bytes list \<Rightarrow> ('c, 'd) ws_protocol
    \<Rightarrow> exn option \<times> ('c, 'd) ws_protocol" where
  "receive_all z rand [] p = (None, p)"
| "receive_all z rand (c # cs) p =
     (case data_received z rand c p of (Some e, p') \<Rightarrow> (Some e, p') | (None, p') \<Rightarrow> receive_all z rand cs p')"

text \<open>Data frames without compression are appended to the queue as they come.\<close>

lemma handle_frames_plain:
  "list_all plain_data fs \<Longrightarrow> \<exists>b. handle_frames z rand fs p
     = (None, p\<lparr>pr_frames := pr_frames p @ fs, pr_frame_ready := b\<rparr>)"
proof (induction fs arbitrary: p)
  case Nil
  show ?case by (rule exI [of _ "pr_frame_ready p"]) simp
next
  case (Cons f fs)
  from Cons.IH [of "push_frame f p"] Cons.prems obtain b where
    "handle_frames z rand fs (push_frame f p)
       = (None, (push_frame f p)\<lparr>pr_frames := pr_frames (push_frame f p) @ fs, pr_frame_ready := b\<rparr>)" by auto
  moreover have "f_opcode f \<notin> {PING, CLOSE, PONG}" "\<not> f_rsv1 f"
    using Cons.prems by (auto simp: plain_data_def opcode_is_control_def)
  ultimately show ?case by (intro exI [of _ b]) (simp add: push_frame_def)
qed

lemma receive_all_plain:
  assumes "pr_handshake_done p" and "pr_parser p = Some q"
    and "feed_chunks q cs = (Inr (fs, n), q')" and "list_all plain_data fs"
  shows "\<exists>b. receive_all z rand cs p = (None, p\<lparr>pr_parser := Some q', pr_frames := pr_frames p @ fs, pr_frame_ready := b\<rparr>)"
  using assms
proof (induction cs arbitrary: p q fs n)
  case Nil
  then show ?case by (intro exI [of _ "pr_frame_ready p"]) (cases p, simp)
next
  case (Cons c cs)
  from Cons.prems(3) obtain fs1 n1 q1 fs2 n2 where
    c: "feed q c = (Inr (fs1, n1), q1)" and cs: "feed_chunks q1 cs = (Inr (fs2, n2), q')" and fs: "fs = fs1 @ fs2"
    by (auto simp: join_feed_def bind_result_Inr_conv split: prod.splits sum.splits if_splits)
  let ?p1 = "p\<lparr>pr_parser := Some q1\<rparr>"
  from handle_frames_plain [of fs1 z rand ?p1] Cons.prems(4) fs obtain b1 where
    b1: "handle_frames z rand fs1 ?p1 = (None, ?p1\<lparr>pr_frames := pr_frames p @ fs1, pr_frame_ready := b1\<rparr>)" by auto
  have d: "data_received z rand c p = handle_frames z rand fs1 ?p1"
    using Cons.prems(1,2) c by (simp add: data_received_def)
  from Cons.IH [of "?p1\<lparr>pr_frames := pr_frames p @ fs1, pr_frame_ready := b1\<rparr>" q1 fs2 n2] Cons.prems(1,4) cs fs
  obtain b where "receive_all z rand cs (?p1\<lparr>pr_frames := pr_frames p @ fs1, pr_frame_ready := b1\<rparr>)
      = (None, p\<lparr>pr_parser := Some q', pr_frames := pr_frames p @ fs, pr_frame_ready := b\<rparr>)" by auto
  then show ?case using d b1 by (intro exI [of _ b]) simp
qed

text \<open>Successive calls of \<^verbatim>\<open>recv\<close> on what has arrived.\<close>

fun recv_n :: "nat \<Rightarrow> (nat \<Rightarrow> bytes) \<Rightarrow> ('c, 'd) async_transport \<Rightarrow> frame list" where
  "recv_n 0 rand t = []"
| "recv_n (Suc n) rand t =
     (case recv rand t of (Return f, t') \<Rightarrow> f # recv_n n rand t' | _ \<Rightarrow> [])"

lemma recv_n_plain:
  assumes "at_connected t" and "at_attached t" and "pr_frames (at_proto t) = fs" and "list_all plain_data fs"
  shows "recv_n (length fs) rand t = fs"
  using assms
proof (induction fs arbitrary: t)
  case (Cons f fs)
  have "f_opcode f \<notin> {CLOSE, PONG}" using Cons.prems(4) by (auto simp: plain_data_def opcode_is_control_def)
  then have r: "recv rand t = (Return f, with_proto (\<lambda>p. p\<lparr>pr_frames := fs\<rparr>) t)"
    using Cons.prems by (simp add: recv_def)
  with Cons.IH [of "with_proto (\<lambda>p. p\<lparr>pr_frames := fs\<rparr>) t"] Cons.prems show ?case by simp
qed simp

definition async_takes :: "('c, 'd) zlib \<Rightarrow> (nat \<Rightarrow> bytes) \<Rightarrow> nat \<Rightarrow> bytes list \<Rightarrow> ('c, 'd) async_transport \<Rightarrow> frame list option" where
  "async_takes z rand n chunks b =
     (case receive_all z rand chunks (at_proto b) of
        (None, p) \<Rightarrow> Some (recv_n n rand (b\<lparr>at_proto := p\<rparr>)) | (Some _, _) \<Rightarrow> None)"

definition async_fresh :: "int \<Rightarrow> int \<Rightarrow> bytes list \<Rightarrow> ('c, 'd) async_transport \<Rightarrow> bool" where
  "async_fresh mf mm chunks b \<longleftrightarrow> at_connected b \<and> at_attached b \<and> pr_handshake_done (at_proto b)
     \<and> pr_parser (at_proto b) = Some (new_parser mf mm) \<and> pr_frames (at_proto b) = []"

interpretation async_receiver: message_receiver "async_takes z rand" async_fresh for z rand
proof
  fix mf mm chunks fs n q and b :: "('a, 'b) async_transport"
  assume b: "async_fresh mf mm chunks b" and feed: "feed_chunks (new_parser mf mm) chunks = (Inr (fs, n), q)"
    and plain: "list_all plain_data fs"
  obtain rb where "receive_all z rand chunks (at_proto b)
      = (None, (at_proto b)\<lparr>pr_parser := Some q, pr_frames := pr_frames (at_proto b) @ fs, pr_frame_ready := rb\<rparr>)"
    using receive_all_plain [OF _ _ feed plain, of "at_proto b" z rand] b by (auto simp: async_fresh_def)
  with recv_n_plain [OF _ _ _ plain, of "b\<lparr>at_proto := snd (receive_all z rand chunks (at_proto b))\<rparr>" rand] b
  show "async_takes z rand (length fs) chunks b = Some fs" by (simp add: async_takes_def async_fresh_def)
qed

interpretation async_pair: message_pair "\<lambda>m t. snd (snd (send z rand (PBytes (snd m)) (Some (fst m)) t))"
    "\<lambda>t. pr_out (at_proto t)" "\<lambda>t. pr_draws (at_proto t)" ready_to_send rand "async_takes z' rand'" async_fresh for z rand z' rand'
  by unfold_locales


definition sample_transport :: "(unit, unit) async_transport" where
  "sample_transport = \<lparr>at_connected = True, at_closing = False, at_attached = True,
     at_proto = new_protocol\<lparr>pr_parser := Some (new_parser 100 100), pr_handshake_done := True\<rparr>,
     at_close_code = None, at_close_reason = [], at_read_timeout = None, at_compression_threshold = 128\<rparr>"


lemma recv_loop_returns:
  "recv_loop rand fs t = (Return f, t') \<Longrightarrow> f \<in> set fs \<and> f_opcode f \<notin> {CLOSE, PONG}"
  by (induction fs arbitrary: t)
     (auto simp: recv_close_frame_def Let_def split: if_splits prod.splits sum.splits)

text \<open>
  \<^verbatim>\<open>recv\<close> and its resumption only ever return data frames: a pong that reaches the transport
  is dropped inside \<^verbatim>\<open>recv\<close>, so a caller that waits for pongs from \<^verbatim>\<open>recv\<close> never sees one.
\<close>

theorem recv_never_returns_pong:
  assumes "recv rand t = (Return f, t') \<or> recv_wake rand t = (Return f, t')"
  shows "f_opcode f \<noteq> PONG \<and> f_opcode f \<noteq> CLOSE \<and> f \<in> set (pr_frames (at_proto t))"
  using assms recv_loop_returns [of rand _ t f t']
  by (auto simp: recv_def recv_wake_def split: if_splits)

theorem recv_never_returns_pong_witness:
  "recv (\<lambda>_. []) (with_proto (push_frame (mk_frame TEXT [1] True False) \<circ> push_frame (mk_frame PONG [] True False))
      sample_transport) = (Return (mk_frame TEXT [1] True False), sample_transport\<lparr>at_proto := (at_proto sample_transport)\<lparr>pr_frame_ready := True\<rparr>\<rparr>)
   \<and> f_opcode (mk_frame TEXT [1] True False) \<noteq> PONG"
proof -
  let ?t = "with_proto (push_frame (mk_frame TEXT [1] True False) \<circ> push_frame (mk_frame PONG [] True False)) sample_transport"
  have "recv (\<lambda>_. []) ?t = (Return (mk_frame TEXT [1] True False),
      sample_transport\<lparr>at_proto := (at_proto sample_transport)\<lparr>pr_frame_ready := True\<rparr>\<rparr>)"
    by (simp add: recv_def sample_transport_def new_protocol_def push_frame_def with_proto_def mk_frame_def)
  with recv_never_returns_pong [OF disjI1 [OF this]] show ?thesis by simp
qed



text \<open>
  C31. A connection that is lost while nobody waits in \<^verbatim>\<open>recv\<close> goes unnoticed: with the loss already
  recorded and no frame left, \<^verbatim>\<open>recv\<close> clears the event that reported the loss and suspends on it.
  No callback sets it again, since asyncio makes none after \<^verbatim>\<open>connection_lost\<close>: without a read
  timeout the call never returns.
\<close>

theorem lost_wakeup:
  assumes "at_connected t" and "at_attached t" and "pr_connection_lost (at_proto t)"
    and "list_all (\<lambda>f. f_opcode f = PONG) (pr_frames (at_proto t))"
  shows "\<exists>t'. recv rand t = (Waiting, t') \<and> \<not> pr_frame_ready (at_proto t')
     \<and> pr_connection_lost (at_proto t') \<and> pr_frames (at_proto t') = [] \<and> at_connected t'"
proof -
  have "\<exists>t'. recv_loop rand fs t = (Waiting, t') \<and> \<not> pr_frame_ready (at_proto t')
      \<and> pr_connection_lost (at_proto t') \<and> pr_frames (at_proto t') = [] \<and> at_connected t'"
    if "list_all (\<lambda>f. f_opcode f = PONG) fs" "at_connected t" "pr_connection_lost (at_proto t)" for fs
    using that by (induction fs arbitrary: t) simp_all
  from this [OF assms(4,1,3)] assms(1,2) show ?thesis by (simp add: recv_def)
qed

theorem lost_wakeup_witness:
  "\<exists>t'. recv (\<lambda>_. []) (with_proto (connection_lost None) sample_transport) = (Waiting, t')
     \<and> \<not> pr_frame_ready (at_proto t')"
  using lost_wakeup [of "with_proto (connection_lost None) sample_transport" "\<lambda>_. []"]
  by (auto simp: sample_transport_def new_protocol_def connection_lost_def)

primrec pongs :: "(nat \<Rightarrow> bytes) \<Rightarrow> nat \<Rightarrow> frame list \<Rightarrow> bytes" where
  "pongs rand n [] = []"
| "pongs rand n (f # fs) =
     (if f_opcode f = PING
      then encode_of (rand n) True (mk_frame PONG (f_payload f) True False) @ pongs rand (n + 1) fs
      else pongs rand n fs)"



text \<open>The echo of a close frame can always be encoded.\<close>

lemma close_echo_encodes:
  defines "code f \<equiv> (case frame_close_code f of Some c \<Rightarrow> if c = 0 then CloseCode NO_STATUS else c | None \<Rightarrow> CloseCode NO_STATUS)"
  shows "\<exists>echo. encode_close key (code f) (frame_close_reason f) True = Inr echo"
proof -
  have code: "0 \<le> code f \<and> code f \<le> 65535"
    using frame_close_code_bounds [of f] by (auto simp: code_def split: option.splits)
  have "list_all scalar_value (frame_close_reason f)"
    by (auto simp: frame_close_reason_def utf8_decode_replace_def decode_replace_scalar)
  with code show ?thesis by (simp add: encode_close_def struct_pack_H_def str_encode_def)
qed

lemma recv_close_raises:
  assumes "at_connected t" and "at_attached t" and "\<not> at_closing t"
    and "pr_frames (at_proto t) = f # fs" and "f_opcode f = CLOSE"
  shows "fst (recv rand t) = Raise (ConnectionError ''Connection closed by remote'')"
  using assms close_echo_encodes [of "rand (pr_draws (at_proto t))" f]
  by (auto simp: recv_def recv_close_frame_def draw_key_def remote_closed_def Let_def)

text \<open>
  C29. A close frame from the server ends the connection: \<^verbatim>\<open>recv\<close> raises a plain
  \<^verbatim>\<open>ConnectionError\<close> that carries neither code nor reason (they stay on the transport object), the
  close is echoed once, and afterwards the transport refuses to send and to receive.
\<close>

theorem close_frame_ends_connection:
  assumes "at_connected t" and "at_attached t" and "\<not> at_closing t"
    and "pr_frames (at_proto t) = f # fs" and "f_opcode f = CLOSE"
    and "recv rand t = (res, t')"
  defines "code \<equiv> (case frame_close_code f of Some c \<Rightarrow> if c = 0 then 1005 else c | None \<Rightarrow> 1005)"
  shows "res = Raise (ConnectionError ''Connection closed by remote'')
     \<and> at_close_code t' = Some code \<and> at_close_reason t' = frame_close_reason f
     \<and> (\<exists>echo. encode_close (rand (pr_draws (at_proto t))) code (frame_close_reason f) True = Inr echo
          \<and> pr_out (at_proto t') = pr_out (at_proto t) @ echo)
     \<and> \<not> at_connected t' \<and> pr_closed (at_proto t')
     \<and> fst (recv rand t') = Raise not_connected \<and> fst (snd (send z rand data binary t')) = Raise not_connected
     \<and> close rand c2 reason2 t' = (Return (), t')"
proof -
  have code: "0 \<le> code \<and> code \<le> 65535"
    using frame_close_code_bounds [of f] by (auto simp: code_def split: option.splits)
  have "list_all scalar_value (frame_close_reason f)"
    by (auto simp: frame_close_reason_def utf8_decode_replace_def decode_replace_scalar)
  with code obtain echo where echo: "encode_close (rand (pr_draws (at_proto t))) code (frame_close_reason f) True = Inr echo"
    by (simp add: encode_close_def struct_pack_H_def str_encode_def)
  have "(case frame_close_code f of Some c \<Rightarrow> if c = 0 then CloseCode NO_STATUS else c | None \<Rightarrow> CloseCode NO_STATUS) = code"
    by (simp add: code_def split: option.split)
  with assms(1-6) echo show ?thesis
    by (auto simp: recv_def recv_close_frame_def draw_key_def close_transport_def remote_closed_def send_def close_def)
qed

theorem close_frame_ends_connection_witness:
  "fst (recv (\<lambda>_. [1, 2, 3, 4]) (with_proto (push_frame (mk_frame CLOSE [0x03, 0xE8] True False)) sample_transport))
     = Raise (ConnectionError ''Connection closed by remote'')"
proof -
  let ?t = "with_proto (push_frame (mk_frame CLOSE [0x03, 0xE8] True False)) sample_transport"
  obtain res t' where r: "recv (\<lambda>_. [1, 2, 3, 4]) ?t = (res, t')" by fastforce
  have "at_connected ?t" "at_attached ?t" "\<not> at_closing ?t"
      "pr_frames (at_proto ?t) = [mk_frame CLOSE [0x03, 0xE8] True False]"
    by (simp_all add: sample_transport_def new_protocol_def push_frame_def)
  from close_frame_ends_connection [OF this _ r, of stored_zlib "PBytes []" None 0 "[]"] r show ?thesis by simp
qed

text \<open>
  A frame that violates the protocol takes the good frames of the same read with it: \<^verbatim>\<open>feed\<close> raises and
  its caller closes the connection without the frames already parsed. Had the network cut the stream
  in front of the bad bytes, they would have been delivered first.
\<close>

theorem bad_frame_discards_its_read:
  assumes "pr_handshake_done p" and "pr_parser p = Some q"
    and "feed q good = (Inr (fs, n), q1)" and "list_all plain_data fs"
    and "feed q1 bad = (Inl e, q2)" and "is_ValueError e"
  shows "(\<exists>p1. data_received z rand (good @ bad) p = (None, p1) \<and> pr_frames p1 = pr_frames p \<and> pr_closed p1)
    \<and> (\<exists>p1 p2. data_received z rand good p = (None, p1) \<and> data_received z rand bad p1 = (None, p2)
          \<and> pr_frames p2 = pr_frames p @ fs \<and> pr_closed p2)"
proof
  obtain q3 where "feed q (good @ bad) = (Inl e, q3)"
    using feed_append [of q good bad] assms(3,5) by (auto simp: Let_def)
  then show "\<exists>p1. data_received z rand (good @ bad) p = (None, p1) \<and> pr_frames p1 = pr_frames p \<and> pr_closed p1"
    using assms(1,2,6) by (simp add: data_received_def)
next
  from handle_frames_plain [OF assms(4), of z rand "p\<lparr>pr_parser := Some q1\<rparr>"] obtain b where
    b: "data_received z rand good p = (None, p\<lparr>pr_parser := Some q1, pr_frames := pr_frames p @ fs, pr_frame_ready := b\<rparr>)"
    using assms(1-3) by (auto simp: data_received_def)
  then show "\<exists>p1 p2. data_received z rand good p = (None, p1) \<and> data_received z rand bad p1 = (None, p2)
          \<and> pr_frames p2 = pr_frames p @ fs \<and> pr_closed p2"
    using assms(1,5,6) by (simp add: data_received_def)
qed

theorem bad_frame_discards_its_read_witness:
  "\<exists>p1. data_received stored_zlib (\<lambda>_. []) [0x82, 0x01, 0x41, 0x83, 0x00]
       (new_protocol\<lparr>pr_handshake_done := True, pr_parser := Some (new_parser 100 100)\<rparr>) = (None, p1) \<and> pr_frames p1 = []"
proof -
  let ?p = "new_protocol\<lparr>pr_handshake_done := True, pr_parser := Some (new_parser 100 100)\<rparr>"
  have g: "feed (new_parser 100 100) [0x82, 0x01, 0x41] = (Inr ([mk_frame BINARY [0x41] True False], 3), new_parser 100 100)"
    by code_simp
  have b: "feed (new_parser 100 100) [0x83, 0x00]
      = (Inl (ValueError ''Invalid opcode''), (new_parser 100 100)\<lparr>fp_buffer := [0x83, 0x00]\<rparr>)"
    by code_simp
  from bad_frame_discards_its_read [OF _ _ g _ b, of ?p stored_zlib "\<lambda>_. []"] show ?thesis
    by (auto simp: new_protocol_def plain_data_def mk_frame_def opcode_is_control_def)
qed

end
