(* ===== verification/Jet_Transport_Config.thy ===== *)
theory Jet_Transport_Config
  imports Jet_Uri Jet_Handshake Jet_Deflate
begin

text \<open>
  The configuration shared by the transports (\<^verbatim>\<open>src/jetsocket/transport/base.py\<close>) and the two steps
  of the opening handshake that both transports write out in the same words: the request built
  from the URI and the configuration, and what is taken from an accepted response.

  Of a TLS context the model keeps the two attributes that decide whether the server is verified.
\<close>

subsection \<open>Configuration\<close>

datatype verify_mode = CERT_NONE | CERT_OPTIONAL | CERT_REQUIRED

record ssl_context =
  check_hostname :: bool
  verify_mode :: verify_mode

text \<open>\<^verbatim>\<open>ssl.create_default_context()\<close> verifies the certificate and the host name.\<close>

definition create_default_ssl_context :: "bool \<Rightarrow> ssl_context" where
  "create_default_ssl_context verify =
     (let ctx = \<lparr>check_hostname = True, verify_mode = CERT_REQUIRED\<rparr>
      in if \<not> verify then ctx\<lparr>check_hostname := False, verify_mode := CERT_NONE\<rparr> else ctx)"

record transport_config =
  tc_connect_timeout :: pyfloat
  tc_read_timeout :: "pyfloat option"
  tc_write_timeout :: "pyfloat option"
  tc_max_frame_size :: int
  tc_max_message_size :: int
  tc_ssl_context :: "ssl_context option"
  tc_extra_headers :: "(pystr \<times> pystr) list"
  tc_subprotocols :: "pystr list"
  tc_compression :: bool
  tc_compression_threshold :: int
  tc_origin :: "pystr option"

definition default_transport_config :: transport_config where
  "default_transport_config = \<lparr>tc_connect_timeout = 10, tc_read_timeout = None, tc_write_timeout = None,
     tc_max_frame_size = 16 * 1024 * 1024, tc_max_message_size = 64 * 1024 * 1024, tc_ssl_context = None,
     tc_extra_headers = [], tc_subprotocols = [], tc_compression = True, tc_compression_threshold = 128, tc_origin = None\<rparr>"

subsection \<open>The request of a transport\<close>

definition make_handshake :: "bytes \<Rightarrow> ws_uri_t \<Rightarrow> transport_config \<Rightarrow> handshake" where
  "make_handshake random16 u cfg =
     (let extensions = (if tc_compression cfg then [lit ''permessage-deflate''] else [])
      in new_handshake random16 (host_header u) (resource_name u)
           (if truthy (tc_origin cfg) then tc_origin cfg else Some (origin u))
           (if tc_subprotocols cfg = [] then None else Some (tc_subprotocols cfg))
           (if extensions = [] then None else Some extensions)
           (if tc_extra_headers cfg = [] then None else Some (tc_extra_headers cfg)))"

subsection \<open>What is taken from a response\<close>

text \<open>
  A refused response becomes a \<^verbatim>\<open>HandshakeError\<close> with the text of the \<^verbatim>\<open>ValueError\<close> and no status
  code; an exception from the compression parameters or from \<^verbatim>\<open>Deflater\<close> leaves as it is. The
  deflater of the transport stays what it was unless the server accepted the compression.
\<close>

definition error_text :: "exn \<Rightarrow> string" where
  "error_text e = (case e of ValueError m \<Rightarrow> m | _ \<Rightarrow> [])"

definition set_up_compression :: "('c, 'd) zlib \<Rightarrow> transport_config \<Rightarrow> handshake_result \<Rightarrow> ('c, 'd) deflater option
    \<Rightarrow> exn + ('c, 'd) deflater option" where
  "set_up_compression z cfg res old =
     (if \<not> tc_compression cfg then Inr old
      else let ext_header = get (hr_headers res) (lit ''sec-websocket-extensions'') []
           in if contains (lit ''permessage-deflate'') (lower ext_header) then
                bind_result (parse_deflate_params ext_header) (\<lambda>p.
                bind_result (new_deflater z (dp_client_no_context_takeover p) (dp_server_no_context_takeover p)
                               (dp_client_max_window_bits p) (dp_server_max_window_bits p)) (\<lambda>df. Inr (Some df)))
              else Inr old)"

definition check_response :: "handshake \<Rightarrow> bytes \<Rightarrow> exn + handshake_result" where
  "check_response h response =
     (case parse_response h response of
        Inl e \<Rightarrow> Inl (if is_ValueError e then HandshakeError (error_text e) None [] else e)
      | Inr res \<Rightarrow> Inr res)"

text \<open>Every exception from this step, by class.\<close>

lemma py_int_error: "py_int s = Inl e \<Longrightarrow> \<exists>m. e = ValueError m"
  by (auto simp: py_int_def Let_def split: if_splits prod.splits list.splits)

lemma deflate_tokens_error: "deflate_tokens ts p = Inl e \<Longrightarrow> \<exists>m. e = ValueError m"
proof (induction ts arbitrary: p)
  case (Cons t ts)
  then show ?case
    by (auto simp: bind_result_def deflate_token_def Let_def simp del: lit_simps dest: py_int_error
        split: sum.splits if_splits prod.splits bool.splits)
qed simp

lemma set_up_compression_error: "set_up_compression z cfg res old = Inl e \<Longrightarrow> \<exists>m. e = ValueError m"
  by (auto simp: set_up_compression_def bind_result_def parse_deflate_params_def new_deflater_def Let_def simp del: lit_simps
      dest: deflate_tokens_error split: sum.splits if_splits)

lemma check_response_error: "check_response h response = Inl e \<Longrightarrow> \<exists>m. e = HandshakeError m None []"
  by (auto simp: check_response_def split: sum.splits dest: parse_response_error)

text \<open>
  A server may answer the offer of compression with any window from 8 to 15 bits (RFC 7692). A
  window of 8 bits is refused by \<^verbatim>\<open>Deflater\<close>, and the connection fails with a \<^verbatim>\<open>ValueError\<close>.
\<close>

theorem window_8_refused:
  "set_up_compression z default_transport_config
     \<lparr>hr_status = 101, hr_headers = [(lit ''sec-websocket-extensions'', lit ''permessage-deflate; server_max_window_bits=8'')],
      hr_subprotocol = None, hr_extensions = []\<rparr> None
   = Inl (ValueError ''server_max_window_bits must be between 9 and 15'')"
proof -
  have split: "split_on [59] (lit ''permessage-deflate; server_max_window_bits=8'')
      = [lit ''permessage-deflate'', lit '' server_max_window_bits=8'']"
    by (simp add: split_on.simps)
  have first: "strip (lit ''permessage-deflate'') = lit ''permessage-deflate''"
    "lower (lit ''permessage-deflate'') = lit ''permessage-deflate''"
    by (simp_all add: strip_def is_space_def lower_def lower_char_def)
  have second: "strip (lit '' server_max_window_bits=8'') = lit ''server_max_window_bits=8''"
    "lower (lit ''server_max_window_bits=8'') = lit ''server_max_window_bits=8''"
    "partition_at 61 (lit ''server_max_window_bits=8'') = (lit ''server_max_window_bits'', True, lit ''8'')"
    "strip (lit ''server_max_window_bits'') = lit ''server_max_window_bits''" "strip (lit ''8'') = lit ''8''"
    by (simp_all add: strip_def is_space_def lower_def lower_char_def partition_at_def)
  have int: "py_int (lit ''8'') = Inr 8"
    by (simp add: py_int_def strip_def is_space_def is_digit_def digits_value_def Let_def)
  have "contains (lit ''permessage-deflate'') (lower (lit ''permessage-deflate; server_max_window_bits=8''))"
    by (simp add: contains_def lower_def lower_char_def)
  then show ?thesis
    by (simp add: set_up_compression_def default_transport_config_def get_def parse_deflate_params_def split
        deflate_token_def first second int lit_inject new_deflater_def Let_def del: lit_simps) simp
qed

end
