(* ===== verification/Jet_Connect.thy ===== *)
theory Jet_Connect
  imports Jet_Async_Transport Jet_Transport_Config
begin

text \<open>
  \<^verbatim>\<open>AsyncTransport.connect\<close> (\<^verbatim>\<open>src/jetsocket/transport/_async.py\<close>), from the URI to the connected
  transport. The coroutine is split where it suspends: after the URI has been parsed it waits for
  the name resolution, then for each connection attempt, then for the response to its handshake.
  What comes back from each wait is an argument: a \<^verbatim>\<open>dns_outcome\<close>, an \<^verbatim>\<open>attempt\<close> for every address,
  and the future of the protocol, which \<^verbatim>\<open>data_received\<close> and \<^verbatim>\<open>connection_lost\<close> of
  \<^verbatim>\<open>Jet_Async_Transport\<close> complete, or its timeout. The 16 bytes of the key are an argument.
\<close>

type_synonym address = "nat \<times> pystr"

record ('c, 'd) async_conn =
  ac_config :: transport_config
  ac_transport :: "('c, 'd) async_transport"
  ac_uri :: "ws_uri_t option"
  ac_tls :: "ssl_context option"
  ac_deflater :: "('c, 'd) deflater option"
  ac_subprotocol :: "pystr option"
  ac_extensions :: "pystr list"
  ac_handshake :: "handshake option"
  ac_cached_ssl_session :: "nat option"

definition new_async_transport :: "transport_config option \<Rightarrow> ('c, 'd) async_conn" where
  "new_async_transport config =
     (let cfg = (case config of Some c \<Rightarrow> c | None \<Rightarrow> default_transport_config)
      in \<lparr>ac_config = cfg,
          ac_transport = \<lparr>at_connected = False, at_closing = False, at_attached = False, at_proto = new_protocol,
            at_close_code = None, at_close_reason = [], at_read_timeout = tc_read_timeout cfg,
            at_compression_threshold = tc_compression_threshold cfg\<rparr>,
          ac_uri = None, ac_tls = None, ac_deflater = None, ac_subprotocol = None, ac_extensions = [],
          ac_handshake = None, ac_cached_ssl_session = None\<rparr>)"

subsection \<open>The URI and the TLS context\<close>

datatype uri_arg = UriString pystr | UriObject ws_uri_t

text \<open>
  For a secure URI the context of the configuration (the same object, so the configuration sees
  the change) is made to verify.
\<close>

definition secured :: "ssl_context \<Rightarrow> ssl_context" where
  "secured ctx = ctx\<lparr>check_hostname := True, verify_mode := CERT_REQUIRED\<rparr>"

definition connect_start :: "(pystr \<Rightarrow> bool) \<Rightarrow> uri_arg \<Rightarrow> ('c, 'd) async_conn \<Rightarrow> unit outcome \<times> ('c, 'd) async_conn" where
  "connect_start netloc_ok uri c =
     (if at_connected (ac_transport c) then (Raise (ConnectionError ''Transport is already connected''), c)
      else case (case uri of UriString s \<Rightarrow> parse_uri netloc_ok s | UriObject u \<Rightarrow> Inr u) of
        Inl e \<Rightarrow> (Raise e, c)
      | Inr u \<Rightarrow>
          (Waiting,
           if is_secure u then
             (case tc_ssl_context (ac_config c) of
                Some ctx \<Rightarrow> c\<lparr>ac_uri := Some u, ac_tls := Some (secured ctx),
                              ac_config := (ac_config c)\<lparr>tc_ssl_context := Some (secured ctx)\<rparr>\<rparr>
              | None \<Rightarrow> c\<lparr>ac_uri := Some u, ac_tls := Some (secured (create_default_ssl_context True))\<rparr>)
           else c\<lparr>ac_uri := Some u, ac_tls := None\<rparr>))"

subsection \<open>Name resolution and connection attempts\<close>

datatype dns_outcome = DnsInfos "address list" | DnsError | DnsTimedOut | DnsRaised exn

text \<open>The first occurrence of every address is kept.\<close>

primrec unique_addresses :: "address set \<Rightarrow> address list \<Rightarrow> address list" where
  "unique_addresses seen [] = []"
| "unique_addresses seen (a # as) =
     (if a \<in> seen then unique_addresses seen as else a # unique_addresses (insert a seen) as)"

definition resolve_dns :: "transport_config \<Rightarrow> dns_outcome \<Rightarrow> exn + address list" where
  "resolve_dns cfg r =
     (case r of
        DnsTimedOut \<Rightarrow> Inl (TimeoutError ''DNS resolution timed out'' (tc_connect_timeout cfg) ''dns'')
      | DnsRaised e \<Rightarrow> Inl e
      | DnsError \<Rightarrow> Inl (ConnectionError ''DNS resolution failed'')
      | DnsInfos infos \<Rightarrow>
          (let addresses = unique_addresses {} infos
           in if addresses = [] then Inl (ConnectionError ''No addresses found'') else Inr addresses))"

datatype attempt = Established | AttemptFailed | AttemptTimedOut | AttemptRaised exn

definition connect_to_address :: "transport_config \<Rightarrow> attempt \<Rightarrow> exn option" where
  "connect_to_address cfg a =
     (case a of
        Established \<Rightarrow> None
      | AttemptRaised e \<Rightarrow> Some e
      | AttemptFailed \<Rightarrow> Some (OSError ''connect'')
      | AttemptTimedOut \<Rightarrow> Some (TimeoutError ''Connection timed out'' (tc_connect_timeout cfg) ''connect''))"

text \<open>The loop over the addresses: an \<^verbatim>\<open>OSError\<close> goes on to the next one, anything else leaves.\<close>

primrec try_addresses :: "transport_config \<Rightarrow> (address \<Rightarrow> attempt) \<Rightarrow> address list \<Rightarrow> exn + address" where
  "try_addresses cfg attempts [] = Inl (ConnectionError ''Failed to connect'')"
| "try_addresses cfg attempts (a # as) =
     (case connect_to_address cfg (attempts a) of
        None \<Rightarrow> Inr a
      | Some (OSError _) \<Rightarrow> try_addresses cfg attempts as
      | Some e \<Rightarrow> Inl e)"

subsection \<open>The handshake\<close>

definition drop_connection :: "('c, 'd) async_conn \<Rightarrow> ('c, 'd) async_conn" where
  "drop_connection c = c\<lparr>ac_transport := close_transport (ac_transport c), ac_deflater := None\<rparr>"

text \<open>
  From the established connection to the wait for the response. An exception of \<^verbatim>\<open>build_request\<close>
  closes the connection again.
\<close>

definition perform_handshake :: "bytes \<Rightarrow> ('c, 'd) async_conn \<Rightarrow> unit outcome \<times> ('c, 'd) async_conn" where
  "perform_handshake random16 c =
     (case ac_uri c of
        None \<Rightarrow> (Raise (ConnectionError ''Transport not initialized''), drop_connection c)
      | Some u \<Rightarrow>
          (let h = make_handshake random16 u (ac_config c)
           in case build_request h of
                Inl e \<Rightarrow> (Raise e, drop_connection c)
              | Inr request \<Rightarrow>
                  (Waiting, c\<lparr>ac_handshake := Some h,
                    ac_transport := with_proto (\<lambda>p. (wire_write request p)\<lparr>pr_handshake_future := FuturePending\<rparr>)
                      (ac_transport c)\<rparr>)))"

definition connect_resolved :: "(address \<Rightarrow> attempt) \<Rightarrow> bytes \<Rightarrow> dns_outcome \<Rightarrow> ('c, 'd) async_conn
    \<Rightarrow> unit outcome \<times> ('c, 'd) async_conn" where
  "connect_resolved attempts random16 r c =
     (case bind_result (resolve_dns (ac_config c) r) (try_addresses (ac_config c) attempts) of
        Inl e \<Rightarrow> (Raise e, c)
      | Inr _ \<Rightarrow>
          perform_handshake random16
            (c\<lparr>ac_transport := (ac_transport c)\<lparr>at_attached := True, at_proto := new_protocol\<rparr>\<rparr>))"

text \<open>A callback of the event loop reaches the protocol of the transport.\<close>

definition proto_event :: "(('c, 'd) ws_protocol \<Rightarrow> ('c, 'd) ws_protocol) \<Rightarrow> ('c, 'd) async_conn \<Rightarrow> ('c, 'd) async_conn" where
  "proto_event g c = c\<lparr>ac_transport := with_proto g (ac_transport c)\<rparr>"

definition cache_ssl_session :: "nat option \<Rightarrow> ('c, 'd) async_conn \<Rightarrow> ('c, 'd) async_conn" where
  "cache_ssl_session session c = (case session of Some s \<Rightarrow> c\<lparr>ac_cached_ssl_session := Some s\<rparr> | None \<Rightarrow> c)"

definition clear_ssl_session_cache :: "('c, 'd) async_conn \<Rightarrow> ('c, 'd) async_conn" where
  "clear_ssl_session_cache c = c\<lparr>ac_cached_ssl_session := None\<rparr>"

text \<open>The wait is over: the response is examined and the transport switched to frames.\<close>

definition handshake_response :: "('c, 'd) zlib \<Rightarrow> (nat \<Rightarrow> bytes) \<Rightarrow> nat option \<Rightarrow> bytes \<Rightarrow> ('c, 'd) async_conn
    \<Rightarrow> unit outcome \<times> ('c, 'd) async_conn" where
  "handshake_response z rand session response c =
     (case ac_handshake c of
        None \<Rightarrow> (Waiting, c)
      | Some h \<Rightarrow>
          (case check_response h response of
             Inl e \<Rightarrow> (Raise e, drop_connection c)
           | Inr res \<Rightarrow>
          (let c0 = c\<lparr>ac_subprotocol := hr_subprotocol res, ac_extensions := hr_extensions res\<rparr>
           in case set_up_compression z (ac_config c0) res (ac_deflater c0) of
             Inl e \<Rightarrow> (Raise e, drop_connection c0)
           | Inr df \<Rightarrow>
               (let c1 = c0\<lparr>ac_deflater := df\<rparr>;
                    c2 = (if ac_tls c1 \<noteq> None then cache_ssl_session session c1 else c1)
                in case connect_finish z rand (tc_max_frame_size (ac_config c2)) (tc_max_message_size (ac_config c2)) df
                          (ac_transport c2) of
                     (Some e, t) \<Rightarrow> (Raise e, c2\<lparr>ac_transport := t\<rparr>)
                   | (None, t) \<Rightarrow> (Return (), c2\<lparr>ac_transport := t\<rparr>)))))"

definition handshake_resume :: "('c, 'd) zlib \<Rightarrow> (nat \<Rightarrow> bytes) \<Rightarrow> nat option \<Rightarrow> ('c, 'd) async_conn
    \<Rightarrow> unit outcome \<times> ('c, 'd) async_conn" where
  "handshake_resume z rand session c =
     (case pr_handshake_future (at_proto (ac_transport c)) of
        FutureResult response \<Rightarrow> handshake_response z rand session response c
      | FutureFailed e \<Rightarrow> (Raise e, drop_connection c)
      | _ \<Rightarrow> (Waiting, c))"

definition handshake_timeout :: "('c, 'd) async_conn \<Rightarrow> unit outcome \<times> ('c, 'd) async_conn" where
  "handshake_timeout c = (Raise (HandshakeError ''Handshake timed out'' None []), drop_connection c)"

subsection \<open>Addresses and certificates\<close>

lemma unique_addresses_set: "set (unique_addresses seen as) = set as - seen"
  by (induction as arbitrary: seen) auto

lemma unique_addresses_distinct: "distinct (unique_addresses seen as)"
  by (induction as arbitrary: seen) (auto simp: unique_addresses_set)

lemma try_addresses_reachable:
  assumes "list_all (\<lambda>b. attempts b = Established \<or> attempts b = AttemptFailed) as" "list_ex (\<lambda>b. attempts b = Established) as"
  shows "\<exists>a\<in>set as. try_addresses cfg attempts as = Inr a \<and> attempts a = Established"
  using assms by (induction as) (auto simp: connect_to_address_def)

lemma resolve_reachable:
  assumes "list_all (\<lambda>b. attempts b = Established \<or> attempts b = AttemptFailed) infos" "list_ex (\<lambda>b. attempts b = Established) infos"
  shows "\<exists>a. bind_result (resolve_dns cfg (DnsInfos infos)) (try_addresses cfg attempts) = Inr a"
proof -
  have set: "set (unique_addresses {} infos) = set infos" by (simp add: unique_addresses_set)
  then have "unique_addresses {} infos \<noteq> []" using assms(2) by (auto simp: list_ex_iff)
  moreover have "\<exists>a\<in>set (unique_addresses {} infos). try_addresses cfg attempts (unique_addresses {} infos) = Inr a \<and> attempts a = Established"
    using assms set by (intro try_addresses_reachable) (auto simp: list_all_iff list_ex_iff)
  ultimately show ?thesis by (auto simp: resolve_dns_def Let_def)
qed

text \<open>
  A timeout of one attempt is a \<^verbatim>\<open>TimeoutError\<close> of the library, which the loop does not catch: the
  remaining addresses, reachable ones included, are not tried.
\<close>

theorem attempt_timeout_ends_connect:
  "attempts a = AttemptTimedOut \<Longrightarrow>
   try_addresses cfg attempts (a # as) = Inl (TimeoutError ''Connection timed out'' (tc_connect_timeout cfg) ''connect'')"
  by (simp add: connect_to_address_def)

text \<open>
  A secure connection always verifies the server, whatever context the configuration holds, a
  context made by \<^verbatim>\<open>create_default_ssl_context(verify=False)\<close> included.
\<close>

lemma tls_always_verified:
  assumes "connect_start netloc_ok uri c = (Waiting, c1)" "ac_uri c1 = Some u" "is_secure u"
  shows "\<exists>ctx. ac_tls c1 = Some ctx \<and> check_hostname ctx \<and> verify_mode ctx = CERT_REQUIRED"
  using assms by (auto simp: connect_start_def secured_def split: if_splits sum.splits option.splits)

subsection \<open>Receiving the response\<close>

definition receive :: "('c, 'd) zlib \<Rightarrow> (nat \<Rightarrow> bytes) \<Rightarrow> bytes \<Rightarrow> ('c, 'd) ws_protocol \<Rightarrow> ('c, 'd) ws_protocol" where
  "receive z rand dat p = snd (data_received z rand dat p)"

text \<open>Once the response is complete, later bytes only extend the buffer.\<close>

lemma receive_after:
  assumes "\<not> pr_handshake_done p" "pr_handshake_future p = FutureResult r"
  shows "fold (receive z rand) chunks p = p\<lparr>pr_handshake_buffer := pr_handshake_buffer p @ concat chunks\<rparr>"
  using assms
proof (induction chunks arbitrary: p)
  case (Cons d ds)
  have "receive z rand d p = p\<lparr>pr_handshake_buffer := pr_handshake_buffer p @ d\<rparr>"
    using Cons.prems by (simp add: receive_def data_received_def Let_def)
  then show ?case using Cons.IH [of "p\<lparr>pr_handshake_buffer := pr_handshake_buffer p @ d\<rparr>"] Cons.prems by simp
qed simp

lemma receive_response:
  assumes "\<not> pr_handshake_done p" "pr_handshake_future p = FuturePending" "find_sub CRLF2 (pr_handshake_buffer p) = None"
    and "find_sub CRLF2 (pr_handshake_buffer p @ concat chunks) \<noteq> None"
  shows "\<exists>r s. pr_handshake_buffer p @ concat chunks = r @ s \<and> find_sub CRLF2 r \<noteq> None
    \<and> fold (receive z rand) chunks p
      = p\<lparr>pr_handshake_buffer := pr_handshake_buffer p @ concat chunks, pr_handshake_future := FutureResult r\<rparr>"
  using assms
proof (induction chunks arbitrary: p)
  case (Cons d ds)
  let ?b = "pr_handshake_buffer p @ d"
  show ?case
  proof (cases "find_sub CRLF2 ?b")
    case None
    let ?p = "p\<lparr>pr_handshake_buffer := ?b\<rparr>"
    have "receive z rand d p = ?p" using Cons.prems None by (simp add: receive_def data_received_def Let_def)
    then show ?thesis using Cons.IH [of ?p] Cons.prems None by simp
  next
    case (Some i)
    let ?p = "p\<lparr>pr_handshake_buffer := ?b, pr_handshake_future := FutureResult ?b\<rparr>"
    have "receive z rand d p = ?p" using Cons.prems Some by (simp add: receive_def data_received_def Let_def)
    then show ?thesis
      using receive_after [of ?p ?b z rand ds] Cons.prems Some by (intro exI [of _ ?b] exI [of _ "concat ds"]) simp
  qed
qed simp

lemma server_writes_find:
  assumes "extra_ok answer_names headers"
  shows "find_sub CRLF2 (server_writes key headers @ early) = Some (length (server_writes key headers) - 4)"
    and "4 \<le> length (server_writes key headers)"
proof -
  let ?ls = "reply_lines key headers"
  have "clean (accept_of (map of_nat key))" using accept_chars clean_b64 by blast
  then have "header_block ?ls"
    using extra_ok_block [OF assms] by (simp add: header_block_def reply_lines_def)
  moreover have "server_writes key headers = utf8_encode (join CRLF ?ls) @ CRLF2"
    using join_snoc2 [of ?ls CRLF] by (simp add: server_writes_def utf8_encode_append reply_lines_def del: join.simps)
       (simp add: CRLF_def CRLF2_def utf8_encode_def utf8_encode_char_def)
  ultimately show "find_sub CRLF2 (server_writes key headers @ early) = Some (length (server_writes key headers) - 4)"
    "4 \<le> length (server_writes key headers)"
    using header_block_read(1) [of ?ls "server_writes key headers @ early" early] by (simp_all add: server_writes_def CRLF2_def)
qed

text \<open>However the bytes are cut, the response handed over begins with the server's answer.\<close>

lemma response_prefix:
  assumes "extra_ok answer_names headers" "server_writes key headers @ early = r @ s" "find_sub CRLF2 r \<noteq> None"
  shows "\<exists>e. r = server_writes key headers @ e"
proof -
  obtain i where i: "find_sub CRLF2 r = Some i" using assms(3) by auto
  from find_sub_append_eq [OF i, of s] server_writes_find(1) [OF assms(1), of key early]
  have "i = length (server_writes key headers) - 4" using assms(2) by simp
  then have "length (server_writes key headers) \<le> length r"
    using find_sub_bound [OF i] server_writes_find(2) [OF assms(1), of key] by (simp add: CRLF2_def)
  then have "r = server_writes key headers @ drop (length (server_writes key headers)) r"
    using assms(2) by (metis append_eq_append_conv_if append_take_drop_id take_all_iff append_eq_conv_conj)
  then show ?thesis by blast
qed

lemma make_handshake_key: "hs_key (make_handshake random16 u cfg) = generate_key random16"
  by (simp add: make_handshake_def new_handshake_def Let_def)

lemma answer_examined:
  assumes "hs_key h = generate_key random16" "extra_ok (lit ''sec-websocket-extensions'' # answer_names) headers"
  shows "\<exists>res. check_response h (server_writes (hs_key h) headers @ early) = Inr res \<and> set_up_compression z cfg res None = Inr None
    \<and> hr_subprotocol res = map_of (header_lines (map header_line headers) []) (lit ''sec-websocket-protocol'')"
proof -
  let ?ext = "lit ''sec-websocket-extensions''"
  have key: "list_all b64_char (hs_key h)" by (simp add: assms(1) generate_key_def b64encode_chars)
  have "extra_ok answer_names headers" using assms(2) by (auto simp: extra_ok_def list_all_iff)
  from parse_answer [OF key this, of early]
  obtain res where res: "parse_response h (server_writes (hs_key h) headers @ early) = Inr res"
    "hr_subprotocol res = map_of (header_lines (map header_line headers) []) (lit ''sec-websocket-protocol'')"
    "\<And>k. k \<notin> set answer_names \<Longrightarrow> map_of (hr_headers res) k = map_of (header_lines (map header_line headers) []) k" by blast
  have "names_other ?ext (map header_line headers)" using extra_ok_other [OF assms(2), of ?ext] by simp
  then have "map_of (hr_headers res) ?ext = None"
    using res(3) [of ?ext] header_lines_other [of ?ext _ "[]"] by (simp add: answer_names_def lit_inject del: lit_simps)
  then have "set_up_compression z cfg res None = Inr None"
    by (simp add: set_up_compression_def get_def contains_def Let_def)
  then show ?thesis using res by (auto simp: check_response_def)
qed

definition frame_mode :: "transport_config \<Rightarrow> ('c, 'd) ws_protocol \<Rightarrow> ('c, 'd) ws_protocol" where
  "frame_mode cfg p = p\<lparr>pr_parser := Some (new_parser (tc_max_frame_size cfg) (tc_max_message_size cfg)),
     pr_deflater := None, pr_handshake_done := True\<rparr>"

lemma data_received_nothing: "data_received z rand [] (frame_mode cfg p) = (None, frame_mode cfg p)"
  by (simp add: data_received_def frame_mode_def feed_def new_parser_def feed_loop_None parse_frame_def)

lemma connect_finish_early:
  assumes "find_sub CRLF2 (pr_handshake_buffer (at_proto t)) = Some i" "drop (i + 4) (pr_handshake_buffer (at_proto t)) = early"
    and "\<not> at_connected t"
  shows "connect_finish z rand (tc_max_frame_size cfg) (tc_max_message_size cfg) None t =
    (case data_received z rand early (frame_mode cfg (at_proto t)) of
       (Some e, p) \<Rightarrow> (Some e, t\<lparr>at_proto := p, at_attached := True, at_connected := False\<rparr>)
     | (None, p) \<Rightarrow> (None, t\<lparr>at_proto := p, at_attached := True, at_connected := True\<rparr>))"
  using assms data_received_nothing [of z rand cfg "at_proto t"]
  by (auto simp: connect_finish_def Let_def frame_mode_def split: prod.splits option.splits)

text \<open>From the resolved addresses to the wait for the response.\<close>

lemma connect_resolved_waits:
  assumes reach: "list_all (\<lambda>b. attempts b = Established \<or> attempts b = AttemptFailed) infos" "list_ex (\<lambda>b. attempts b = Established) infos"
    and u: "ac_uri c = Some u" and wf: "handshake_wf (make_handshake random16 u (ac_config c))"
  shows "\<exists>req. connect_resolved attempts random16 (DnsInfos infos) c =
    (Waiting, c\<lparr>ac_handshake := Some (make_handshake random16 u (ac_config c)),
       ac_transport := (ac_transport c)\<lparr>at_attached := True,
         at_proto := (wire_write req new_protocol)\<lparr>pr_handshake_future := FuturePending\<rparr>\<rparr>\<rparr>)"
proof -
  let ?h = "make_handshake random16 u (ac_config c)"
  have "list_all b64_char (hs_key ?h)" by (simp add: make_handshake_key generate_key_def b64encode_chars)
  from build_request_ok [OF wf this] obtain req where "build_request ?h = Inr req" by blast
  moreover from resolve_reachable [OF reach, of "ac_config c"]
  obtain a where "bind_result (resolve_dns (ac_config c) (DnsInfos infos)) (try_addresses (ac_config c) attempts) = Inr a" by blast
  ultimately show ?thesis
    using u by (intro exI [of _ req]) (simp add: connect_resolved_def perform_handshake_def with_proto_def Let_def)
qed

text \<open>The response arrives in any number of pieces and the coroutine resumes.\<close>

lemma handshake_completes:
  fixes c :: "('c, 'd) async_conn"
  assumes h: "ac_handshake c = Some h" "hs_key h = generate_key random16" and df: "ac_deflater c = None"
    and pr: "\<not> pr_handshake_done (at_proto (ac_transport c))" "pr_handshake_future (at_proto (ac_transport c)) = FuturePending"
      "pr_handshake_buffer (at_proto (ac_transport c)) = []" "\<not> at_connected (ac_transport c)"
    and headers: "extra_ok (lit ''sec-websocket-extensions'' # answer_names) headers"
    and bytes: "concat chunks = server_writes (generate_key random16) headers @ early"
  obtains c3 p where
    "handshake_resume z rand session (proto_event (fold (receive z rand) chunks) c)
       = ((case fst (data_received z rand early (frame_mode (ac_config c) p)) of None \<Rightarrow> Return () | Some e \<Rightarrow> Raise e), c3)"
    "at_proto (ac_transport c3) = receive z rand early (frame_mode (ac_config c) p)"
    "at_connected (ac_transport c3) = (fst (data_received z rand early (frame_mode (ac_config c) p)) = None)"
    "at_attached (ac_transport c3)" "pr_frames p = pr_frames (at_proto (ac_transport c))"
    "ac_subprotocol c3 = map_of (header_lines (map header_line headers) []) (lit ''sec-websocket-protocol'')"
proof -
  let ?key = "generate_key random16"
  let ?p = "at_proto (ac_transport c)"
  have names: "extra_ok answer_names headers" using headers by (auto simp: extra_ok_def list_all_iff)
  note find = server_writes_find [OF names, of ?key]
  have none: "find_sub CRLF2 [] = None" by (simp add: CRLF2_def)
  from receive_response [of ?p chunks z rand] pr none find(1) [of early] bytes
  obtain r s where rs: "server_writes ?key headers @ early = r @ s" "find_sub CRLF2 r \<noteq> None"
    and fold: "fold (receive z rand) chunks ?p
      = ?p\<lparr>pr_handshake_buffer := server_writes ?key headers @ early, pr_handshake_future := FutureResult r\<rparr>"
    by auto
  let ?q = "?p\<lparr>pr_handshake_buffer := server_writes ?key headers @ early, pr_handshake_future := FutureResult r\<rparr>"
  from response_prefix [OF names rs] obtain e1 where r: "r = server_writes ?key headers @ e1" by blast
  from answer_examined [OF h(2) headers, where z = z and cfg = "ac_config c" and early = e1] obtain res
    where res: "check_response h r = Inr res" "set_up_compression z (ac_config c) res None = Inr None"
      "hr_subprotocol res = map_of (header_lines (map header_line headers) []) (lit ''sec-websocket-protocol'')"
    by (auto simp: r h(2))
  define c2 where "c2 = (let c1 = (proto_event (\<lambda>_. ?q) c)\<lparr>ac_subprotocol := hr_subprotocol res, ac_extensions := hr_extensions res,
      ac_deflater := None\<rparr> in if ac_tls c1 \<noteq> None then cache_ssl_session session c1 else c1)"
  have c2: "ac_config c2 = ac_config c" "ac_transport c2 = (ac_transport c)\<lparr>at_proto := ?q\<rparr>" "ac_subprotocol c2 = hr_subprotocol res"
    by (simp_all add: c2_def cache_ssl_session_def proto_event_def with_proto_def Let_def split: option.split)
  have ev: "proto_event (fold (receive z rand) chunks) c = proto_event (\<lambda>_. ?q) c"
    using fold by (simp add: proto_event_def with_proto_def)
  have resume: "handshake_resume z rand session (proto_event (fold (receive z rand) chunks) c)
      = (case connect_finish z rand (tc_max_frame_size (ac_config c2)) (tc_max_message_size (ac_config c2)) None (ac_transport c2) of
           (Some e, t) \<Rightarrow> (Raise e, c2\<lparr>ac_transport := t\<rparr>) | (None, t) \<Rightarrow> (Return (), c2\<lparr>ac_transport := t\<rparr>))"
    unfolding ev c2_def using h(1) res(1,2) df
    by (cases "ac_tls c") (simp_all add: handshake_resume_def handshake_response_def proto_event_def with_proto_def Let_def split: prod.split option.split)
  note fin = connect_finish_early [of "ac_transport c2" _ early z rand "ac_config c"]
  have fin: "connect_finish z rand (tc_max_frame_size (ac_config c)) (tc_max_message_size (ac_config c)) None (ac_transport c2) =
    (case data_received z rand early (frame_mode (ac_config c) ?q) of
       (Some e, p) \<Rightarrow> (Some e, (ac_transport c2)\<lparr>at_proto := p, at_attached := True, at_connected := False\<rparr>)
     | (None, p) \<Rightarrow> (None, (ac_transport c2)\<lparr>at_proto := p, at_attached := True, at_connected := True\<rparr>))"
    using fin [OF _ _ _] find pr(4) by (simp add: c2)
  obtain err p' where d: "data_received z rand early (frame_mode (ac_config c) ?q) = (err, p')" by fastforce
  show thesis
    by (rule that [of ?q "c2\<lparr>ac_transport := (ac_transport c2)\<lparr>at_proto := p', at_attached := True, at_connected := (err = None)\<rparr>\<rparr>"])
       (cases err; simp_all add: resume [unfolded c2(1) fin d] d receive_def c2 res(3) del: lit_simps)+
qed


definition local_uri :: ws_uri_t where
  "local_uri = \<lparr>wu_scheme = WS, wu_host = lit ''localhost'', wu_port = 80, wu_path = lit ''/ws'', wu_query = None,
     wu_fragment = None, wu_userinfo = None\<rparr>"

lemma local_uri_parsed: "parse_uri (\<lambda>_. False) (lit ''ws://localhost/ws'') = Inr local_uri"
  by (simp add: local_uri_def parsing_defs)

definition local_conn :: "(unit, unit) async_conn" where
  "local_conn = (new_async_transport None)\<lparr>ac_uri := Some local_uri\<rparr>"

definition local_attempts :: "address \<Rightarrow> attempt" where
  "local_attempts a = (if fst a = 10 then AttemptFailed else Established)"

lemma local_conn_start: "connect_start (\<lambda>_. False) (UriString (lit ''ws://localhost/ws'')) (new_async_transport None) = (Waiting, local_conn)"
  by (simp add: connect_start_def local_uri_parsed local_conn_def new_async_transport_def is_secure_def Let_def del: lit_simps)
     (simp add: local_uri_def WS_def WSS_def)

lemma local_conn_fields:
  "ac_uri local_conn = Some local_uri" "ac_deflater (new_async_transport None :: (unit, unit) async_conn) = None"
  "ac_config local_conn = default_transport_config" "handshake_wf (make_handshake random16 local_uri (ac_config local_conn))"
  "extra_ok (lit ''sec-websocket-extensions'' # answer_names) [(lit ''Sec-WebSocket-Protocol'', lit ''chat'')]"
  "list_all (\<lambda>b. local_attempts b = Established \<or> local_attempts b = AttemptFailed) [(10, lit ''::1''), (2, lit ''127.0.0.1'')]"
  "list_ex (\<lambda>b. local_attempts b = Established) [(10, lit ''::1''), (2, lit ''127.0.0.1'')]"
  by (simp_all add: local_conn_def new_async_transport_def local_attempts_def make_handshake_def new_handshake_def handshake_wf_def
      default_transport_config_def local_uri_def host_header_def resource_name_def origin_def is_secure_def truthy_def default_port_def
      WS_def WSS_def extra_ok_def answer_names_def strip_def is_space_def lower_def lower_char_def Let_def)


end
