(* ===== verification/Jet_Sync_Transport.thy ===== *)
theory Jet_Sync_Transport
  imports Jet_Connect
begin

text \<open>
  The blocking transport (\<^verbatim>\<open>src/jetsocket/transport/_sync.py\<close>).

  What the network does is part of the state: \<^verbatim>\<open>st_reads\<close> lists what the selector and the socket
  will report to the next reads, \<^verbatim>\<open>st_writes\<close> what they will report to the next writes (a socket
  that has nothing left to report takes everything). A read that finds \<^verbatim>\<open>st_reads\<close> empty blocks;
  the operation then returns \<^verbatim>\<open>Waiting\<close>. Masking keys are drawn as in the asyncio transport. The
  locks only serialise calls from several threads; here a call runs to its end. Whether a
  socket can be opened and its TLS handshake succeeds is an argument of \<^verbatim>\<open>sync_connect\<close>.
\<close>

text \<open>An arrival of no bytes is the end of the stream.\<close>

datatype read_event = Arrived bytes | ReadBlocked | ReadTimedOut | ReadFailed

datatype write_event = Wrote nat | WriteBlocked | WriteTimedOut | WriteFailed

record ('c, 'd) sync_transport =
  st_connected :: bool
  st_closing :: bool
  st_socket :: bool
  st_parser :: "frame_parser option"
  st_pending_frames :: "frame list"
  st_close_code :: "int option"
  st_close_reason :: pystr
  st_deflater :: "('c, 'd) deflater option"
  st_out :: bytes
  st_reads :: "read_event list"
  st_writes :: "write_event list"
  st_draws :: nat
  st_connect_timeout :: pyfloat
  st_read_timeout :: "pyfloat option"
  st_write_timeout :: "pyfloat option"
  st_compression_threshold :: int
  st_subprotocol :: "pystr option"
  st_extensions :: "pystr list"

definition socket_not_connected :: exn where
  "socket_not_connected = ConnectionError ''Socket is not connected''"

subsection \<open>The socket\<close>

text \<open>\<^verbatim>\<open>_send_all\<close>: the outcome, the bytes that went out, and what the socket has left to report.\<close>

fun send_loop :: "pyfloat option \<Rightarrow> bytes \<Rightarrow> write_event list \<Rightarrow> exn option \<times> bytes \<times> write_event list" where
  "send_loop wt [] ws = (None, [], ws)"
| "send_loop wt (b # bs) [] = (None, b # bs, [])"
| "send_loop wt (b # bs) (Wrote n # ws) =
     (if n = 0 then (Some (ConnectionError ''Connection closed''), [], ws)
      else let (e, sent, ws') = send_loop wt (drop n (b # bs)) ws in (e, take n (b # bs) @ sent, ws'))"
| "send_loop wt (b # bs) (WriteBlocked # ws) = send_loop wt (b # bs) ws"
| "send_loop wt (b # bs) (WriteTimedOut # ws) =
     (Some (TimeoutError ''Write operation timed out'' (case wt of Some s \<Rightarrow> s | None \<Rightarrow> 0) ''send''), [], ws)"
| "send_loop wt (b # bs) (WriteFailed # ws) = (Some (ConnectionError ''Send failed''), [], ws)"

definition sync_send_all :: "bytes \<Rightarrow> ('c, 'd) sync_transport \<Rightarrow> exn option \<times> ('c, 'd) sync_transport" where
  "sync_send_all dat t =
     (if \<not> st_socket t then (Some socket_not_connected, t)
      else let (e, sent, ws) = send_loop (st_write_timeout t) dat (st_writes t)
           in (e, t\<lparr>st_out := st_out t @ sent, st_writes := ws\<rparr>))"

text \<open>\<^verbatim>\<open>_recv_with_timeout\<close> (of at most \<^verbatim>\<open>size\<close> bytes; what does not fit stays to be read).\<close>

definition recv_with_timeout :: "nat \<Rightarrow> pyfloat option \<Rightarrow> ('c, 'd) sync_transport
    \<Rightarrow> bytes outcome \<times> ('c, 'd) sync_transport" where
  "recv_with_timeout limit timeout t =
     (if \<not> st_socket t then (Raise socket_not_connected, t)
      else case st_reads t of
             [] \<Rightarrow> (Waiting, t)
           | ReadTimedOut # rs \<Rightarrow>
               (Raise (TimeoutError ''Read operation timed out'' (case timeout of Some s \<Rightarrow> s | None \<Rightarrow> 0) ''recv''), t\<lparr>st_reads := rs\<rparr>)
           | Arrived bs # rs \<Rightarrow>
               (Return (take limit bs), t\<lparr>st_reads := (if length bs \<le> limit then rs else Arrived (drop limit bs) # rs)\<rparr>)
           | ReadBlocked # rs \<Rightarrow> (Return [], t\<lparr>st_reads := rs\<rparr>)
           | ReadFailed # rs \<Rightarrow> (Raise (ConnectionError ''Receive failed''), t\<lparr>st_reads := rs\<rparr>))"

definition close_socket :: "('c, 'd) sync_transport \<Rightarrow> ('c, 'd) sync_transport" where
  "close_socket t = t\<lparr>st_socket := False, st_parser := None, st_deflater := None\<rparr>"

definition sync_draw_key :: "(nat \<Rightarrow> bytes) \<Rightarrow> ('c, 'd) sync_transport \<Rightarrow> bytes \<times> ('c, 'd) sync_transport" where
  "sync_draw_key rand t = (rand (st_draws t), t\<lparr>st_draws := st_draws t + 1\<rparr>)"

subsection \<open>Sending\<close>

definition sync_compress_if :: "('c, 'd) zlib \<Rightarrow> bool \<Rightarrow> bytes \<Rightarrow> bool \<Rightarrow> ('c, 'd) sync_transport
    \<Rightarrow> bytes \<times> bool \<times> ('c, 'd) sync_transport" where
  "sync_compress_if z eligible dat rsv1 t =
     (case st_deflater t of
        None \<Rightarrow> (dat, rsv1, t)
      | Some df \<Rightarrow>
          if eligible \<and> st_compression_threshold t \<le> int (length dat) then
            (let (dat', df') = deflate_compress z dat df in (dat', True, t\<lparr>st_deflater := Some df'\<rparr>))
          else (dat, rsv1, t))"

definition sync_encode_and_send :: "(nat \<Rightarrow> bytes) \<Rightarrow> opcode \<Rightarrow> bytes \<Rightarrow> bool \<Rightarrow> bool \<Rightarrow> ('c, 'd) sync_transport
    \<Rightarrow> exn option \<times> ('c, 'd) sync_transport" where
  "sync_encode_and_send rand opc dat fin rsv1 t =
     (let (key, t1) = sync_draw_key rand t
      in sync_send_all (encode_frame key (opcode_value opc) dat True fin rsv1) t1)"

definition sync_send :: "('c, 'd) zlib \<Rightarrow> (nat \<Rightarrow> bytes) \<Rightarrow> payload \<Rightarrow> bool option \<Rightarrow> ('c, 'd) sync_transport
    \<Rightarrow> exn option \<times> ('c, 'd) sync_transport" where
  "sync_send z rand data binary t =
     (if \<not> st_connected t \<or> st_parser t = None then (Some not_connected, t)
      else let is_binary = (case binary of Some b \<Rightarrow> b | None \<Rightarrow> (case data of PBytes _ \<Rightarrow> True | PStr _ \<Rightarrow> False));
               opc = (if is_binary then BINARY else TEXT)
           in case (case data of PBytes bs \<Rightarrow> Inr bs | PStr s \<Rightarrow> str_encode s) of
                Inl e \<Rightarrow> (Some e, t)
              | Inr dat \<Rightarrow>
                  let (dat', rsv1, t1) = sync_compress_if z True dat False t
                  in sync_encode_and_send rand opc dat' True rsv1 t1)"

definition sync_send_frame :: "('c, 'd) zlib \<Rightarrow> (nat \<Rightarrow> bytes) \<Rightarrow> frame \<Rightarrow> ('c, 'd) sync_transport
    \<Rightarrow> exn option \<times> ('c, 'd) sync_transport" where
  "sync_send_frame z rand f t =
     (if \<not> st_connected t \<or> st_parser t = None then (Some not_connected, t)
      else let (dat, rsv1, t1) = sync_compress_if z (\<not> opcode_is_control (f_opcode f)) (f_payload f) (f_rsv1 f) t
           in sync_encode_and_send rand (f_opcode f) dat (f_fin f) rsv1 t1)"

definition sync_ping :: "(nat \<Rightarrow> bytes) \<Rightarrow> bytes \<Rightarrow> ('c, 'd) sync_transport \<Rightarrow> exn option \<times> ('c, 'd) sync_transport" where
  "sync_ping rand payload t =
     (if length payload > 125 then (Some (ValueError ''Ping payload must be 125 bytes or less''), t)
      else if \<not> st_connected t \<or> st_parser t = None then (Some not_connected, t)
      else sync_encode_and_send rand PING payload True False t)"

subsection \<open>Receiving\<close>

text \<open>The echo and the pongs are sent on a best-effort basis: an exception of the send is dropped.\<close>

definition handle_close_frame :: "(nat \<Rightarrow> bytes) \<Rightarrow> frame \<Rightarrow> ('c, 'd) sync_transport
    \<Rightarrow> exn option \<times> ('c, 'd) sync_transport" where
  "handle_close_frame rand f t =
     (let code = (case frame_close_code f of Some c \<Rightarrow> if c = 0 then CloseCode NO_STATUS else c
                  | None \<Rightarrow> CloseCode NO_STATUS);
          t1 = t\<lparr>st_close_code := Some code, st_close_reason := frame_close_reason f\<rparr>;
          fin = (\<lambda>u. (None, close_socket (u\<lparr>st_connected := False\<rparr>)))
      in if \<not> st_closing t1 then
           (let t2 = t1\<lparr>st_closing := True\<rparr>
            in if st_parser t2 \<noteq> None then
                 (let (key, t3) = sync_draw_key rand t2
                  in case encode_close key code (st_close_reason t3) True of
                       Inl e \<Rightarrow> (Some e, t2)
                     | Inr close_frame \<Rightarrow> fin (snd (sync_send_all close_frame t3)))
               else fin t2)
         else fin t1)"

definition handle_ping_frame :: "(nat \<Rightarrow> bytes) \<Rightarrow> frame \<Rightarrow> ('c, 'd) sync_transport \<Rightarrow> ('c, 'd) sync_transport" where
  "handle_ping_frame rand f t =
     (if st_parser t = None then t
      else snd (sync_encode_and_send rand PONG (f_payload f) True False t))"

text \<open>The loop over the frames of one chunk: the data frames it collects.\<close>

fun sync_handle_frames :: "('c, 'd) zlib \<Rightarrow> (nat \<Rightarrow> bytes) \<Rightarrow> frame list \<Rightarrow> ('c, 'd) sync_transport
    \<Rightarrow> (exn + frame list) \<times> ('c, 'd) sync_transport" where
  "sync_handle_frames z rand [] t = (Inr [], t)"
| "sync_handle_frames z rand (f # fs) t =
     (if f_opcode f = CLOSE then
        (case handle_close_frame rand f t of
           (Some e, t1) \<Rightarrow> (Inl e, t1)
         | (None, t1) \<Rightarrow> sync_handle_frames z rand fs t1)
      else if f_opcode f = PING then sync_handle_frames z rand fs (handle_ping_frame rand f t)
      else if f_opcode f = PONG then sync_handle_frames z rand fs t
      else if f_rsv1 f \<and> \<not> Option.is_none (st_deflater t) then
        (case deflate_decompress z (f_payload f) (the (st_deflater t)) of
           Inl e \<Rightarrow> (Inl e, t)
         | Inr (decompressed, df) \<Rightarrow>
             (case sync_handle_frames z rand fs (t\<lparr>st_deflater := Some df\<rparr>) of
                (Inl e, t1) \<Rightarrow> (Inl e, t1)
              | (Inr ds, t1) \<Rightarrow> (Inr (mk_frame (f_opcode f) decompressed (f_fin f) False # ds), t1)))
      else (case sync_handle_frames z rand fs t of
              (Inl e, t1) \<Rightarrow> (Inl e, t1)
            | (Inr ds, t1) \<Rightarrow> (Inr (f # ds), t1)))"

text \<open>What is still to be read; each turn of the loops below consumes some of it.\<close>

definition unread :: "('c, 'd) sync_transport \<Rightarrow> nat" where
  "unread t = (\<Sum>r \<leftarrow> st_reads t. case r of Arrived bs \<Rightarrow> Suc (length bs) | _ \<Rightarrow> 1)"

lemma send_frame_reads [simp]:
  "st_reads (snd (sync_send_all dat t)) = st_reads t" "st_reads (snd (sync_draw_key rand t)) = st_reads t"
  "st_reads (snd (sync_encode_and_send rand opc dat fin rsv1 t)) = st_reads t"
  by (simp_all add: sync_send_all_def sync_draw_key_def sync_encode_and_send_def split: prod.split)

lemma handle_frames_reads [simp]: "st_reads (snd (sync_handle_frames z rand fs t)) = st_reads t"
proof (induction z rand fs t rule: sync_handle_frames.induct)
  case (2 z rand f fs t)
  have "st_reads (snd (handle_close_frame rand f t)) = st_reads t"
    by (simp add: handle_close_frame_def close_socket_def sync_draw_key_def Let_def split: sum.split)
  moreover have "st_reads (handle_ping_frame rand f t) = st_reads t"
    by (simp add: handle_ping_frame_def)
  ultimately show ?case using 2 by (auto split: prod.splits sum.splits option.splits)
qed simp

lemma recv_with_timeout_unread:
  assumes "recv_with_timeout limit timeout t = (Return c, t1)" and "0 < limit"
  shows "unread t1 < unread t"
  using assms by (auto simp: recv_with_timeout_def unread_def split: if_splits list.splits read_event.splits)

function recv_frames :: "('c, 'd) zlib \<Rightarrow> (nat \<Rightarrow> bytes) \<Rightarrow> pyfloat option \<Rightarrow> ('c, 'd) sync_transport
    \<Rightarrow> frame outcome \<times> ('c, 'd) sync_transport" where
  "recv_frames z rand timeout t =
     (case recv_with_timeout 65536 timeout t of
        (Raise e, t1) \<Rightarrow> (Raise e, t1)
      | (Waiting, t1) \<Rightarrow> (Waiting, t1)
      | (Return chunk, t1) \<Rightarrow>
          if chunk = [] then (Raise remote_closed, t1\<lparr>st_connected := False\<rparr>)
          else (case st_parser t1 of
                  None \<Rightarrow> (Raise (OtherException ''AttributeError''), t1)
                | Some parser \<Rightarrow>
                    (case feed parser chunk of
                       (Inl e, parser') \<Rightarrow>
                         (Raise (if is_ValueError e then ProtocolError ''Invalid frame'' None else e), t1\<lparr>st_parser := Some parser'\<rparr>)
                     | (Inr (frames, _), parser') \<Rightarrow>
                         (case sync_handle_frames z rand frames (t1\<lparr>st_parser := Some parser'\<rparr>) of
                            (Inl e, t2) \<Rightarrow> (Raise e, t2)
                          | (Inr (d # ds), t2) \<Rightarrow> (Return d, t2\<lparr>st_pending_frames := st_pending_frames t2 @ ds\<rparr>)
                          | (Inr [], t2) \<Rightarrow> recv_frames z rand timeout t2))))"
  by pat_completeness auto
termination
proof (relation "measure (\<lambda>(z, rand, timeout, t). unread t)", simp, goal_cases)
  case (1 z rand timeout t r t1 chunk parser r' parser' p frames n r'' t2)
  then have "unread t1 < unread t" using recv_with_timeout_unread [of 65536 timeout t chunk t1] by simp
  moreover have "t2 = snd (sync_handle_frames z rand frames (t1\<lparr>st_parser := Some parser'\<rparr>))"
    using 1 by (metis snd_conv)
  then have "unread t2 = unread t1" by (simp add: unread_def)
  ultimately show ?case by simp
qed

definition sync_recv :: "('c, 'd) zlib \<Rightarrow> (nat \<Rightarrow> bytes) \<Rightarrow> pyfloat option \<Rightarrow> ('c, 'd) sync_transport
    \<Rightarrow> frame outcome \<times> ('c, 'd) sync_transport" where
  "sync_recv z rand timeout t =
     (if \<not> st_connected t \<or> st_parser t = None then (Raise not_connected, t)
      else let effective = (case timeout of Some s \<Rightarrow> Some s | None \<Rightarrow> st_read_timeout t)
           in case st_pending_frames t of
                f # fs \<Rightarrow> (Return f, t\<lparr>st_pending_frames := fs\<rparr>)
              | [] \<Rightarrow> recv_frames z rand effective t)"

subsection \<open>Closing and opening\<close>

text \<open>\<^verbatim>\<open>_wait_for_close\<close> returns at the close frame, at the end of the stream or on any exception.\<close>

function sync_wait_for_close :: "pyfloat \<Rightarrow> ('c, 'd) sync_transport \<Rightarrow> unit outcome \<times> ('c, 'd) sync_transport" where
  "sync_wait_for_close timeout t =
     (case st_parser t of
        None \<Rightarrow> (Return (), t)
      | Some parser \<Rightarrow>
          if \<not> st_connected t then (Return (), t)
          else case recv_with_timeout 4096 (Some timeout) t of
                 (Raise _, t1) \<Rightarrow> (Return (), t1)
               | (Waiting, t1) \<Rightarrow> (Waiting, t1)
               | (Return chunk, t1) \<Rightarrow>
                   if chunk = [] then (Return (), t1)
                   else (case feed parser chunk of
                           (Inl _, parser') \<Rightarrow> (Return (), t1\<lparr>st_parser := Some parser'\<rparr>)
                         | (Inr (frames, _), parser') \<Rightarrow>
                             if list_ex (\<lambda>f. f_opcode f = CLOSE) frames then (Return (), t1\<lparr>st_parser := Some parser'\<rparr>)
                             else sync_wait_for_close timeout (t1\<lparr>st_parser := Some parser'\<rparr>)))"
  by pat_completeness auto
termination
proof (relation "measure (\<lambda>(timeout, t). unread t)", simp, goal_cases)
  case (1 timeout t parser r t1 chunk r' parser' p frames n)
  then show ?case using recv_with_timeout_unread [of 4096 "Some timeout" t chunk t1] by (simp add: unread_def)
qed

definition sync_close :: "(nat \<Rightarrow> bytes) \<Rightarrow> int \<Rightarrow> pystr \<Rightarrow> ('c, 'd) sync_transport \<Rightarrow> unit outcome \<times> ('c, 'd) sync_transport" where
  "sync_close rand code reason t =
     (if \<not> st_connected t \<or> st_closing t then (Return (), t)
      else let t1 = t\<lparr>st_closing := True, st_close_code := Some code, st_close_reason := reason\<rparr>;
               fin = (\<lambda>u. (Return (), close_socket (u\<lparr>st_connected := False\<rparr>)))
           in if st_parser t1 = None then fin t1
              else let (key, t2) = sync_draw_key rand t1
                   in case encode_close key code reason True of
                        Inl _ \<Rightarrow> fin t1
                      | Inr close_frame \<Rightarrow>
                          (case sync_send_all close_frame t2 of
                             (Some _, t3) \<Rightarrow> fin t3
                           | (None, t3) \<Rightarrow>
                               (case sync_wait_for_close 5 t3 of
                                  (Waiting, t4) \<Rightarrow> (Waiting, t4)
                                | (_, t4) \<Rightarrow> fin t4)))"

text \<open>
  The loop of \<^verbatim>\<open>_perform_handshake\<close> that reads the response up to the empty line; what was read
  beyond it is part of the result.
\<close>

function read_response :: "bytes \<Rightarrow> ('c, 'd) sync_transport \<Rightarrow> bytes outcome \<times> ('c, 'd) sync_transport" where
  "read_response response_data t =
     (if find_sub CRLF2 response_data \<noteq> None then (Return response_data, t)
      else case recv_with_timeout 4096 (Some (st_connect_timeout t)) t of
             (Raise e, t1) \<Rightarrow> (Raise e, t1)
           | (Waiting, t1) \<Rightarrow> (Waiting, t1)
           | (Return chunk, t1) \<Rightarrow>
               if chunk = [] then (Raise (HandshakeError ''Connection closed during handshake'' None []), t1)
               else read_response (response_data @ chunk) t1)"
  by pat_completeness auto
termination
proof (relation "measure (\<lambda>(dat, t). unread t)", simp, goal_cases)
  case (1 dat t r t1 chunk)
  then show ?case using recv_with_timeout_unread [of 4096 "Some (st_connect_timeout t)" t chunk t1] by simp
qed

text \<open>
  \<^verbatim>\<open>_perform_handshake\<close>: the request is sent, the response is read and examined. What was read
  beyond the response is dropped.
\<close>

definition sync_perform_handshake :: "('c, 'd) zlib \<Rightarrow> transport_config \<Rightarrow> bytes \<Rightarrow> ws_uri_t \<Rightarrow> ('c, 'd) sync_transport
    \<Rightarrow> unit outcome \<times> ('c, 'd) sync_transport" where
  "sync_perform_handshake z cfg random16 u t =
     (let h = make_handshake random16 u cfg
      in case build_request h of
           Inl e \<Rightarrow> (Raise e, t)
         | Inr request \<Rightarrow>
             (case sync_send_all request t of
                (Some e, t1) \<Rightarrow> (Raise e, t1)
              | (None, t1) \<Rightarrow>
                  (case read_response [] t1 of
                     (Raise e, t2) \<Rightarrow> (Raise e, t2)
                   | (Waiting, t2) \<Rightarrow> (Waiting, t2)
                   | (Return response, t2) \<Rightarrow>
                       (case check_response h response of
                          Inl e \<Rightarrow> (Raise e, t2)
                        | Inr res \<Rightarrow>
                       (let t3 = t2\<lparr>st_subprotocol := hr_subprotocol res, st_extensions := hr_extensions res\<rparr>
                        in case set_up_compression z cfg res (st_deflater t3) of
                             Inl e \<Rightarrow> (Raise e, t3)
                           | Inr df \<Rightarrow> (Return (), t3\<lparr>st_deflater := df\<rparr>))))))"

text \<open>From the connected socket on: on any exception the socket is closed; the parser starts empty.\<close>

definition sync_connect_finish :: "('c, 'd) zlib \<Rightarrow> transport_config \<Rightarrow> bytes \<Rightarrow> ws_uri_t
    \<Rightarrow> ('c, 'd) sync_transport \<Rightarrow> unit outcome \<times> ('c, 'd) sync_transport" where
  "sync_connect_finish z cfg random16 u t =
     (case sync_perform_handshake z cfg random16 u t of
        (Raise e, t1) \<Rightarrow> (Raise e, close_socket t1)
      | (Waiting, t1) \<Rightarrow> (Waiting, t1)
      | (Return _, t1) \<Rightarrow>
          (Return (), t1\<lparr>st_parser := Some (new_parser (tc_max_frame_size cfg) (tc_max_message_size cfg)), st_connected := True\<rparr>))"

datatype socket_outcome = SocketOpened | SocketTimedOut | SocketFailed

datatype tls_outcome = TlsDone | TlsSSLError | TlsOSError

text \<open>
  \<^verbatim>\<open>connect\<close>. An \<^verbatim>\<open>OSError\<close> of the TLS handshake that is not an \<^verbatim>\<open>SSLError\<close> leaves with the socket open.
\<close>

definition sync_connect :: "('c, 'd) zlib \<Rightarrow> (pystr \<Rightarrow> bool) \<Rightarrow> transport_config \<Rightarrow> socket_outcome \<Rightarrow> tls_outcome \<Rightarrow> bytes \<Rightarrow> uri_arg
    \<Rightarrow> ('c, 'd) sync_transport \<Rightarrow> unit outcome \<times> ('c, 'd) sync_transport" where
  "sync_connect z netloc_ok cfg sock tls random16 uri t =
     (if st_connected t then (Raise (ConnectionError ''Transport is already connected''), t)
      else case (case uri of UriString s \<Rightarrow> parse_uri netloc_ok s | UriObject u \<Rightarrow> Inr u) of
        Inl e \<Rightarrow> (Raise e, t)
      | Inr u \<Rightarrow>
          (case sock of
             SocketTimedOut \<Rightarrow> (Raise (TimeoutError ''Connection timed out'' (tc_connect_timeout cfg) ''connect''), t)
           | SocketFailed \<Rightarrow> (Raise (ConnectionError ''Failed to connect''), t)
           | SocketOpened \<Rightarrow>
               (let t1 = t\<lparr>st_socket := True\<rparr>
                in if is_secure u \<and> tls = TlsSSLError then (Raise (ConnectionError ''SSL handshake failed''), close_socket t1)
                   else if is_secure u \<and> tls = TlsOSError then (Raise (OSError ''TLS''), t1)
                   else sync_connect_finish z cfg random16 u t1)))"

declare recv_frames.simps [simp del] sync_wait_for_close.simps [simp del] read_response.simps [simp del]

subsection \<open>Delivery\<close>

text \<open>A socket that makes progress: it accepts some bytes or asks to be tried again.\<close>

fun progresses :: "write_event \<Rightarrow> bool" where
  "progresses (Wrote n) = (0 < n)"
| "progresses WriteBlocked = True"
| "progresses _ = False"

lemma send_loop_complete:
  "list_all progresses ws \<Longrightarrow> \<exists>ws'. send_loop wt dat ws = (None, dat, ws') \<and> list_all progresses ws'"
proof (induction wt dat ws rule: send_loop.induct)
  case (3 wt b bs n ws)
  then obtain ws' where "send_loop wt (drop n (b # bs)) ws = (None, drop n (b # bs), ws')" "list_all progresses ws'" by auto
  with 3 show ?case by simp
qed auto

definition sync_ready :: "('c, 'd) sync_transport \<Rightarrow> bool" where
  "sync_ready t \<longleftrightarrow> st_connected t \<and> st_socket t \<and> st_parser t \<noteq> None \<and> st_deflater t = None \<and> list_all progresses (st_writes t)"

lemma sync_send_plain:
  assumes "sync_ready t"
  shows "\<exists>t'. sync_send z rand (PBytes dat) (Some b) t = (None, t') \<and> sync_ready t' \<and> st_draws t' = st_draws t + 1
    \<and> st_out t' = st_out t @ encode_of (rand (st_draws t)) True (message_frame (b, dat))"
proof -
  obtain ws' where "send_loop (st_write_timeout t) (encode_of (rand (st_draws t)) True (message_frame (b, dat))) (st_writes t)
      = (None, encode_of (rand (st_draws t)) True (message_frame (b, dat)), ws')" "list_all progresses ws'"
    using send_loop_complete [of "st_writes t"] assms unfolding sync_ready_def by blast
  with assms show ?thesis
    by (simp add: sync_ready_def sync_send_def sync_compress_if_def sync_encode_and_send_def sync_draw_key_def
        sync_send_all_def encode_of_def message_frame_def mk_frame_def Let_def)
qed

primrec sync_send_many :: "('c, 'd) zlib \<Rightarrow> (nat \<Rightarrow> bytes) \<Rightarrow> (bool \<times> bytes) list \<Rightarrow> ('c, 'd) sync_transport
    \<Rightarrow> ('c, 'd) sync_transport" where
  "sync_send_many z rand [] t = t"
| "sync_send_many z rand (m # ms) t = sync_send_many z rand ms (snd (sync_send z rand (PBytes (snd m)) (Some (fst m)) t))"

lemma sync_send_many_fold:
  "sync_send_many z rand ms t = fold (\<lambda>m t. snd (sync_send z rand (PBytes (snd m)) (Some (fst m)) t)) ms t"
  by (induction ms arbitrary: t) simp_all

interpretation sync_sender: message_sender "\<lambda>m t. snd (sync_send z rand (PBytes (snd m)) (Some (fst m)) t)"
    st_out st_draws sync_ready rand for z rand
proof
  fix a :: "('a, 'b) sync_transport" and m :: "bool \<times> bytes"
  assume "sync_ready a"
  from sync_send_plain [OF this, of z rand "snd m" "fst m"]
  show "sync_ready (snd (sync_send z rand (PBytes (snd m)) (Some (fst m)) a))"
    "st_draws (snd (sync_send z rand (PBytes (snd m)) (Some (fst m)) a)) = st_draws a + 1"
    "st_out (snd (sync_send z rand (PBytes (snd m)) (Some (fst m)) a))
       = st_out a @ encode_of (rand (st_draws a)) True (message_frame m)"
    by auto
qed

lemma sync_handle_frames_plain: "list_all plain_data fs \<Longrightarrow> sync_handle_frames z rand fs t = (Inr fs, t)"
  by (induction fs arbitrary: t) (auto dest!: plain_data_opcode)

text \<open>Reading chunks until one completes a frame.\<close>

definition sync_reading :: "frame_parser \<Rightarrow> bytes list \<Rightarrow> ('c, 'd) sync_transport \<Rightarrow> bool" where
  "sync_reading q cs t \<longleftrightarrow> st_connected t \<and> st_socket t \<and> st_parser t = Some q \<and> st_reads t = map Arrived cs
     \<and> list_all (\<lambda>c. c \<noteq> [] \<and> length c \<le> 65536) cs"

lemma recv_frames_plain:
  assumes "sync_reading q cs t" "feed_chunks q cs = (Inr (fs, n), q')" "list_all plain_data fs" "fs \<noteq> []"
  shows "\<exists>t' q1 cs1 fs1 n1 ds. recv_frames z rand timeout t = (Return (hd fs), t') \<and> sync_reading q1 cs1 t'
     \<and> feed_chunks q1 cs1 = (Inr (fs1, n1), q') \<and> fs = hd fs # ds @ fs1 \<and> st_pending_frames t' = st_pending_frames t @ ds"
  using assms
proof (induction cs arbitrary: t q fs n)
  case (Cons c cs)
  from Cons.prems(2) obtain fs0 n0 q0 fs1 n1 where
    c: "feed q c = (Inr (fs0, n0), q0)" and cs: "feed_chunks q0 cs = (Inr (fs1, n1), q')" and fs: "fs = fs0 @ fs1"
    by (auto simp: join_feed_def bind_result_Inr_conv split: prod.splits sum.splits if_splits)
  let ?t1 = "t\<lparr>st_reads := map Arrived cs, st_parser := Some q0\<rparr>"
  have r: "recv_with_timeout 65536 timeout t = (Return c, t\<lparr>st_reads := map Arrived cs\<rparr>)" and ne: "c \<noteq> []"
    and p: "st_parser t = Some q" and rd: "sync_reading q0 cs ?t1"
    using Cons.prems(1) by (auto simp: sync_reading_def recv_with_timeout_def)
  have h: "sync_handle_frames z rand fs0 ?t1 = (Inr fs0, ?t1)"
    using Cons.prems(3) fs by (simp add: sync_handle_frames_plain)
  show ?case
  proof (cases fs0)
    case Nil
    then have "recv_frames z rand timeout t = recv_frames z rand timeout ?t1"
      using r ne p c h by (subst recv_frames.simps) simp
    with Cons.IH [OF rd cs] Nil fs Cons.prems(3,4) show ?thesis by simp
  next
    case (Cons d ds)
    then have "recv_frames z rand timeout t = (Return d, ?t1\<lparr>st_pending_frames := st_pending_frames t @ ds\<rparr>)"
      using r ne p c h by (subst recv_frames.simps) simp
    moreover have "sync_reading q0 cs (?t1\<lparr>st_pending_frames := st_pending_frames t @ ds\<rparr>)"
      using rd by (simp add: sync_reading_def)
    ultimately show ?thesis using cs fs Cons by auto
  qed
qed simp

fun sync_recv_n :: "nat \<Rightarrow> ('c, 'd) zlib \<Rightarrow> (nat \<Rightarrow> bytes) \<Rightarrow> ('c, 'd) sync_transport \<Rightarrow> frame list" where
  "sync_recv_n 0 z rand t = []"
| "sync_recv_n (Suc n) z rand t =
     (case sync_recv z rand None t of (Return f, t') \<Rightarrow> f # sync_recv_n n z rand t' | _ \<Rightarrow> [])"

lemma sync_recv_n_plain:
  assumes "sync_reading q cs t" "feed_chunks q cs = (Inr (fs, n), q')" "list_all plain_data fs"
  shows "sync_recv_n (length (st_pending_frames t @ fs)) z rand t = st_pending_frames t @ fs"
  using assms
proof (induction "length (st_pending_frames t @ fs)" arbitrary: t q cs fs n)
  case (Suc k)
  show ?case
  proof (cases "st_pending_frames t")
    case (Cons f ps)
    let ?t1 = "t\<lparr>st_pending_frames := ps\<rparr>"
    have "sync_recv z rand None t = (Return f, ?t1)"
      using Suc.prems(1) Cons by (simp add: sync_recv_def sync_reading_def)
    moreover have "sync_reading q cs ?t1" using Suc.prems(1) by (simp add: sync_reading_def)
    ultimately show ?thesis using Suc.hyps(1) [of ?t1 fs q cs n] Suc.hyps(2) Suc.prems(2,3) Cons by simp
  next
    case Nil
    then have "fs \<noteq> []" using Suc.hyps(2) by auto
    from recv_frames_plain [OF Suc.prems this, of z rand "st_read_timeout t"] obtain f t' q1 cs1 fs1 n1 ds where
      r: "recv_frames z rand (st_read_timeout t) t = (Return f, t')" and t': "sync_reading q1 cs1 t'"
      "feed_chunks q1 cs1 = (Inr (fs1, n1), q')" and fs: "fs = f # ds @ fs1" and ps: "st_pending_frames t' = ds"
      using Nil by auto
    have "sync_recv z rand None t = (Return f, t')"
      using Suc.prems(1) Nil r by (simp add: sync_recv_def sync_reading_def)
    then show ?thesis
      using Suc.hyps(1) [of t' fs1 q1 cs1 n1] Suc.hyps(2) Suc.prems(3) t' Nil ps fs by simp
  qed
qed simp

definition sync_takes :: "('c, 'd) zlib \<Rightarrow> (nat \<Rightarrow> bytes) \<Rightarrow> nat \<Rightarrow> bytes list \<Rightarrow> ('c, 'd) sync_transport \<Rightarrow> frame list option" where
  "sync_takes z rand n chunks b = Some (sync_recv_n n z rand b)"

definition sync_fresh :: "int \<Rightarrow> int \<Rightarrow> bytes list \<Rightarrow> ('c, 'd) sync_transport \<Rightarrow> bool" where
  "sync_fresh mf mm chunks b \<longleftrightarrow> sync_reading (new_parser mf mm) chunks b \<and> st_pending_frames b = []"

interpretation sync_receiver: message_receiver "sync_takes z rand" sync_fresh for z rand
  by unfold_locales (use sync_recv_n_plain in \<open>fastforce simp: sync_takes_def sync_fresh_def\<close>)

interpretation sync_pair: message_pair "\<lambda>m t. snd (sync_send z rand (PBytes (snd m)) (Some (fst m)) t)"
    st_out st_draws sync_ready rand "sync_takes z' rand'" sync_fresh for z rand z' rand'
  by unfold_locales

interpretation sync_to_async: message_pair "\<lambda>m t. snd (sync_send z rand (PBytes (snd m)) (Some (fst m)) t)"
    st_out st_draws sync_ready rand "async_takes z' rand'" async_fresh for z rand z' rand'
  by unfold_locales

interpretation async_to_sync: message_pair "\<lambda>m t. snd (snd (send z rand (PBytes (snd m)) (Some (fst m)) t))"
    "\<lambda>t. pr_out (at_proto t)" "\<lambda>t. pr_draws (at_proto t)" ready_to_send rand "sync_takes z' rand'" sync_fresh for z rand z' rand'
  by unfold_locales


text \<open>
  The two transports understand each other: what a blocking endpoint sends arrives at an asyncio
  endpoint, and the other way round.
\<close>

theorem transports_interoperate:
  assumes "\<forall>n. length (rand n) = 4" and "list_all (message_fits mf) ms"
  shows "sync_ready a \<Longrightarrow> st_out a = [] \<Longrightarrow> async_fresh mf mm chunks b
      \<Longrightarrow> concat chunks = st_out (sync_send_many z rand ms a)
      \<Longrightarrow> async_takes z' rand' (length ms) chunks b = Some (map message_frame ms)"
    and "ready_to_send c \<Longrightarrow> pr_out (at_proto c) = [] \<Longrightarrow> sync_fresh mf mm chunks d
      \<Longrightarrow> concat chunks = pr_out (at_proto (send_all z rand ms c))
      \<Longrightarrow> sync_takes z' rand' (length ms) chunks d = Some (map message_frame ms)"
  by (rule sync_to_async.delivered [OF _ _ assms(1) _ assms(2)]; simp add: sync_send_many_fold)
     (rule async_to_sync.delivered [OF _ _ assms(1) _ assms(2)]; simp add: send_all_fold)

definition sample_sync :: "(unit, unit) sync_transport" where
  "sample_sync = \<lparr>st_connected = True, st_closing = False, st_socket = True, st_parser = Some (new_parser 100 100),
     st_pending_frames = [], st_close_code = None, st_close_reason = [], st_deflater = None, st_out = [], st_reads = [],
     st_writes = [], st_draws = 0, st_connect_timeout = 10, st_read_timeout = None, st_write_timeout = None,
     st_compression_threshold = 128, st_subprotocol = None, st_extensions = []\<rparr>"

lemma sample_sync_simps [simp]:
  "st_connected sample_sync" "st_socket sample_sync" "st_parser sample_sync = Some (new_parser 100 100)"
  "st_pending_frames sample_sync = []" "st_deflater sample_sync = None" "st_out sample_sync = []"
  "st_writes sample_sync = []" "st_draws sample_sync = 0"
  by (simp_all add: sample_sync_def)

definition sample_sync_out :: bytes where
  "sample_sync_out = st_out (sync_send_many stored_zlib (\<lambda>n. [of_nat n, 7, 8, 9]) [(False, [104, 105])]
     (sample_sync\<lparr>st_writes := [Wrote 3, WriteBlocked, Wrote 2]\<rparr>))"

lemma sample_sync_out_eq:
  "sample_sync_out = encode_of [0, 7, 8, 9] True (message_frame (False, [104, 105]))"
  using sync_sender.fold_sends [of "sample_sync\<lparr>st_writes := [Wrote 3, WriteBlocked, Wrote 2]\<rparr>" stored_zlib
      "\<lambda>n. [of_nat n, 7, 8, 9]" "[(False, [104, 105])]"]
  by (simp add: sample_sync_out_def sync_send_many_fold sync_ready_def sample_sync_def wire_of_Cons
      del: sync_send_many.simps fold.simps fold_simps)


lemma handle_close_frame_disconnects:
  "fst (handle_close_frame rand cl t) = None \<and> \<not> st_connected (snd (handle_close_frame rand cl t))
   \<and> st_pending_frames (snd (handle_close_frame rand cl t)) = st_pending_frames t"
proof -
  have send: "st_pending_frames (snd (sync_send_all dat u)) = st_pending_frames u" for dat and u :: "('c, 'd) sync_transport"
    by (simp add: sync_send_all_def split: prod.split)
  obtain echo where "encode_close (rand (st_draws t))
      (case frame_close_code cl of Some c \<Rightarrow> if c = 0 then CloseCode NO_STATUS else c | None \<Rightarrow> CloseCode NO_STATUS)
      (frame_close_reason cl) True = Inr echo"
    using close_echo_encodes [of "rand (st_draws t)" cl] by blast
  then show ?thesis
    by (cases "st_closing t"; cases "st_parser t")
       (simp_all add: handle_close_frame_def close_socket_def sync_draw_key_def send Let_def)
qed

text \<open>
  Frames that arrive together with a close frame are lost: \<^verbatim>\<open>recv\<close> returns the first data frame
  of the chunk and queues the others, but the close frame has already disconnected the transport,
  so no later call of \<^verbatim>\<open>recv\<close> ever returns the queued ones.
\<close>

theorem sync_frames_lost_at_close:
  assumes "sync_reading q [chunk] t" and "st_pending_frames t = []"
    and "feed q chunk = (Inr (d # ds @ [cl], n), q')" and "list_all plain_data (d # ds)" and "f_opcode cl = CLOSE"
  shows "\<exists>t'. sync_recv z rand timeout t = (Return d, t') \<and> st_pending_frames t' = ds
     \<and> (\<forall>k. sync_recv_n k z rand t' = []) \<and> sync_recv z rand timeout t' = (Raise not_connected, t')"
proof -
  let ?t1 = "t\<lparr>st_reads := [], st_parser := Some q'\<rparr>"
  obtain u where u: "handle_close_frame rand cl ?t1 = (None, u)" "\<not> st_connected u" "st_pending_frames u = st_pending_frames t"
    using handle_close_frame_disconnects [of rand cl ?t1] by (cases "handle_close_frame rand cl ?t1") auto
  have h: "list_all plain_data ds \<Longrightarrow> sync_handle_frames z rand (ds @ [cl]) ?t1 = (Inr ds, u)" for ds
    using u(1) assms(5) by (induction ds) (auto dest!: plain_data_opcode)
  from h [of "d # ds"] assms(4) have h: "sync_handle_frames z rand (d # ds @ [cl]) ?t1 = (Inr (d # ds), u)" by simp
  let ?t' = "u\<lparr>st_pending_frames := st_pending_frames u @ ds\<rparr>"
  have r: "recv_with_timeout 65536 eff t = (Return chunk, t\<lparr>st_reads := []\<rparr>)" "chunk \<noteq> []" "st_parser t = Some q" for eff
    using assms(1) by (auto simp: sync_reading_def recv_with_timeout_def)
  have "recv_frames z rand eff t = (Return d, ?t')" for eff
    using r assms(3) h by (subst recv_frames.simps) simp
  then have "sync_recv z rand timeout t = (Return d, ?t')"
    using assms(1,2) by (simp add: sync_recv_def sync_reading_def)
  moreover have dead: "sync_recv z rand to ?t' = (Raise not_connected, ?t')" for to
    using u(2) by (simp add: sync_recv_def)
  moreover have "sync_recv_n k z rand ?t' = []" for k
    using dead by (cases k) simp_all
  ultimately show ?thesis using u(3) assms(2) by auto
qed

definition three_frames :: "frame list" where
  "three_frames = [mk_frame TEXT [65] True False, mk_frame TEXT [66] True False, mk_frame CLOSE [] True False]"

definition three_bytes :: bytes where
  "three_bytes = concat (map2 (\<lambda>k f. encode_of k False f) [[0, 0, 0, 0], [0, 0, 0, 0], [0, 0, 0, 0]] three_frames)"

theorem sync_frames_lost_at_close_witness:
  "\<exists>t'. sync_recv stored_zlib (\<lambda>_. [1, 2, 3, 4]) None (sample_sync\<lparr>st_reads := [Arrived three_bytes]\<rparr>)
      = (Return (mk_frame TEXT [65] True False), t') \<and> st_pending_frames t' = [mk_frame TEXT [66] True False]
     \<and> sync_recv stored_zlib (\<lambda>_. [1, 2, 3, 4]) None t' = (Raise not_connected, t')"
proof -
  let ?np = "new_parser 100 100"
  have "feed_loop (?np\<lparr>fp_buffer := three_bytes @ []\<rparr>) = (Inr (three_frames, length three_bytes), ?np\<lparr>fp_buffer := []\<rparr>)"
    unfolding three_bytes_def
    by (rule feed_loop_encoded)
       (simp_all add: three_frames_def sendable_def mk_frame_def new_parser_def opcode_is_control_def waiting_def parse_frame_def)
  then have feed: "feed ?np three_bytes = (Inr (mk_frame TEXT [65] True False # [mk_frame TEXT [66] True False] @ [mk_frame CLOSE [] True False],
      length three_bytes), ?np)"
    by (simp add: feed_def new_parser_def three_frames_def)
  have "three_bytes \<noteq> [] \<and> length three_bytes \<le> 65536"
    by (simp add: three_bytes_def three_frames_def encode_of_def encode_frame_def encode_header_eq len_ext_def mk_frame_def)
  then have "sync_reading ?np [three_bytes] (sample_sync\<lparr>st_reads := [Arrived three_bytes]\<rparr>)"
    by (simp add: sync_reading_def sample_sync_def)
  from sync_frames_lost_at_close [OF this _ feed, of stored_zlib "\<lambda>_. [1, 2, 3, 4]" None] show ?thesis
    by (auto simp: sample_sync_def mk_frame_def plain_data_def opcode_is_control_def)
qed

text \<open>
  Frames that the server sends directly after its handshake response are lost when they arrive in
  the same read: the transport that \<^verbatim>\<open>connect\<close> leaves does not depend on them. (The asyncio transport
  hands them to its parser.)
\<close>

lemma read_response_once:
  assumes "st_reads u = Arrived r # rs" "st_socket u" "length r \<le> 4096" "find_sub CRLF2 r \<noteq> None"
  shows "read_response [] u = (Return r, u\<lparr>st_reads := rs\<rparr>)"
proof -
  have none: "find_sub CRLF2 [] = None" by (simp add: CRLF2_def)
  then have "r \<noteq> []" using assms(4) by auto
  then show ?thesis
    using assms none by (subst read_response.simps, subst read_response.simps) (simp add: recv_with_timeout_def)
qed

text \<open>A connection over a socket that accepts data, to a server that answers in one piece.\<close>

lemma sync_connect_answered:
  assumes sock: "list_all progresses (st_writes t)" "st_deflater t = None"
    and wf: "handshake_wf (make_handshake random16 u cfg)" and headers: "extra_ok (lit ''sec-websocket-extensions'' # answer_names) headers"
    and resp: "st_reads t = Arrived (server_writes (generate_key random16) headers @ early) # rs"
    and len: "length (server_writes (generate_key random16) headers @ early) \<le> 4096"
    and plain: "\<not> st_connected t" "\<not> is_secure u"
  shows "\<exists>request ws (res :: handshake_result). sync_connect z netloc_ok cfg SocketOpened tls random16 (UriObject u) t
    = (Return (), t\<lparr>st_socket := True, st_out := st_out t @ request, st_writes := ws, st_reads := rs,
        st_subprotocol := hr_subprotocol res, st_extensions := hr_extensions res, st_deflater := None,
        st_parser := Some (new_parser (tc_max_frame_size cfg) (tc_max_message_size cfg)), st_connected := True\<rparr>)"
proof -
  let ?h = "make_handshake random16 u cfg"
  have names: "extra_ok answer_names headers" using headers by (auto simp: extra_ok_def list_all_iff)
  have key: "list_all b64_char (hs_key ?h)" by (simp add: make_handshake_key generate_key_def b64encode_chars)
  obtain request where request: "build_request ?h = Inr request" using build_request_ok [OF wf key] by blast
  obtain ws where ws: "send_loop (st_write_timeout t) request (st_writes t) = (None, request, ws)"
    using send_loop_complete [OF sock(1)] by blast
  let ?t1 = "t\<lparr>st_socket := True, st_out := st_out t @ request, st_writes := ws\<rparr>"
  have read: "read_response [] ?t1 = (Return (server_writes (generate_key random16) headers @ early), ?t1\<lparr>st_reads := rs\<rparr>)"
    by (rule read_response_once) (use resp len server_writes_find(1) [OF names] in simp_all)
  obtain res where "check_response ?h (server_writes (generate_key random16) headers @ early) = Inr res"
    "set_up_compression z cfg res None = Inr None"
    using answer_examined [OF make_handshake_key [of random16 u cfg] headers, where z = z and cfg = cfg and early = early] by (auto simp: make_handshake_key)
  then show ?thesis
    using request ws read plain sock(2)
    by (intro exI [of _ request] exI [of _ ws] exI [of _ res])
       (simp add: sync_connect_def sync_connect_finish_def sync_perform_handshake_def sync_send_all_def Let_def)
qed

theorem sync_connect_drops_early_frames:
  assumes "list_all progresses (st_writes t)" and "st_deflater t = None" and "\<not> st_connected t" and "\<not> is_secure u"
    and "handshake_wf (make_handshake random16 u cfg)" and "extra_ok (lit ''sec-websocket-extensions'' # answer_names) headers"
    and "st_reads t = Arrived (server_writes (generate_key random16) headers @ early) # rs"
    and "length (server_writes (generate_key random16) headers @ early) \<le> 4096"
  shows "\<exists>t'. sync_connect z netloc_ok cfg SocketOpened tls random16 (UriObject u) t = (Return (), t')
    \<and> st_connected t' \<and> st_reads t' = rs \<and> st_pending_frames t' = st_pending_frames t
    \<and> st_parser t' = Some (new_parser (tc_max_frame_size cfg) (tc_max_message_size cfg))"
proof -
  note sync_connect_answered [OF assms(1,2,5,6,7,8,3,4), of z netloc_ok tls]
  then show ?thesis by auto
qed

text \<open>
  A transport that is connected again after it was closed can no longer be closed: \<^verbatim>\<open>connect\<close> does not
  reset \<^verbatim>\<open>_closing\<close>, so \<^verbatim>\<open>close\<close> returns at once, sends nothing and leaves the socket open; and frames
  left over from the previous connection are still pending.
\<close>

theorem reconnected_transport_ignores_close:
  assumes "list_all progresses (st_writes t)" and "st_deflater t = None" and "\<not> st_connected t" and "\<not> is_secure u"
    and "handshake_wf (make_handshake random16 u cfg)" and "extra_ok (lit ''sec-websocket-extensions'' # answer_names) headers"
    and "st_reads t = Arrived (server_writes (generate_key random16) headers @ early) # rs"
    and "length (server_writes (generate_key random16) headers @ early) \<le> 4096"
    and "st_closing t"
  shows "\<exists>t'. sync_connect z netloc_ok cfg SocketOpened tls random16 (UriObject u) t = (Return (), t')
    \<and> st_connected t' \<and> st_socket t' \<and> st_pending_frames t' = st_pending_frames t
    \<and> sync_close rand code reason t' = (Return (), t')"
proof -
  note sync_connect_answered [OF assms(1,2,5,6,7,8,3,4), of z netloc_ok tls]
  then show ?thesis using assms(9) by (auto simp: sync_close_def)
qed

end
