(* ===== verification/Jet_Wrappers.thy ===== *)
theory Jet_Wrappers
  imports Jet_Manager
begin

text \<open>
  The wrappers around the manager: the presets (\<^verbatim>\<open>src/jetsocket/presets.py\<close>) and the typed client
  (\<^verbatim>\<open>src/jetsocket/typed.py\<close>).

  A preset is a dictionary of keyword arguments, updated with the caller's overrides and passed to
  the manager's constructor. \<^verbatim>\<open>ws_kwargs\<close> holds those that the manager's model has (whether to
  compress and the message limit only go to the transport's configuration); \<^verbatim>\<open>dict.update\<close> is a
  function on it. The configuration objects are built, and checked, before the overrides apply.
\<close>

record 'm ws_kwargs =
  kw_reconnect :: bool
  kw_backoff :: "backoff_config option"
  kw_heartbeat :: "'m heartbeat_arg"
  kw_buffer :: buffer_arg
  kw_max_connection_age :: "pyfloat option"
  kw_max_message_size :: int
  kw_compress :: bool

text \<open>The defaults of the manager's keyword arguments.\<close>

definition default_kwargs :: "'m ws_kwargs" where
  "default_kwargs = \<lparr>kw_reconnect = True, kw_backoff = None, kw_heartbeat = HbNone, kw_buffer = BufNone,
     kw_max_connection_age = None, kw_max_message_size = 64 * 1024 * 1024, kw_compress = True\<rparr>"

definition make_websocket :: "string \<Rightarrow> ('m, 's) replay_config option \<Rightarrow> ('m \<Rightarrow> exn + bytes) \<Rightarrow> (bytes \<Rightarrow> exn + 'm)
    \<Rightarrow> 'm ws_kwargs \<Rightarrow> exn + ('m, 's) ws" where
  "make_websocket uri replay serializer deserializer k =
     websocket_new uri (kw_reconnect k) (kw_backoff k) (kw_max_connection_age k) (kw_heartbeat k) (kw_buffer k)
       replay serializer deserializer"

definition heartbeat_of :: "pyfloat \<Rightarrow> pyfloat \<Rightarrow> 'm heartbeat_config" where
  "heartbeat_of interval timeout = default_heartbeat_config\<lparr>hc_interval := interval, hc_timeout := timeout\<rparr>"

definition backoff_of :: "pyfloat \<Rightarrow> pyfloat \<Rightarrow> int \<Rightarrow> pyfloat \<Rightarrow> backoff_config" where
  "backoff_of base cap max_attempts reset_after =
     \<lparr>bc_base = base, bc_multiplier = 2, bc_cap = cap, bc_jitter = True, bc_max_attempts = max_attempts,
      bc_reset_after = reset_after\<rparr>"

subsection \<open>The presets\<close>

definition trading :: "('m ws_kwargs \<Rightarrow> 'm ws_kwargs) \<Rightarrow> exn + 'm ws_kwargs" where
  "trading overrides =
     bind_result (backoff_config_check (backoff_of (1 / 2) 30 0 60)) (\<lambda>backoff.
     bind_result (heartbeat_config_check (heartbeat_of 20 10)) (\<lambda>heartbeat.
     bind_result (buffer_config_check \<lparr>bc_capacity = 10000, bc_overflow_policy = ''drop_oldest'',
                    bc_enable_dedup = True, bc_dedup_window = 1000\<rparr>) (\<lambda>buffer.
       Inr (overrides (default_kwargs\<lparr>kw_reconnect := True, kw_backoff := Some backoff, kw_heartbeat := HbConfig heartbeat,
         kw_buffer := BufConfig buffer, kw_max_connection_age := Some 85800, kw_compress := True\<rparr>)))))"

definition llm_stream :: "('m ws_kwargs \<Rightarrow> 'm ws_kwargs) \<Rightarrow> exn + 'm ws_kwargs" where
  "llm_stream overrides =
     bind_result (backoff_config_check (backoff_of 1 10 5 30)) (\<lambda>backoff.
     bind_result (heartbeat_config_check (heartbeat_of 30 15)) (\<lambda>heartbeat.
     bind_result (buffer_config_check (default_buffer_config\<lparr>bc_capacity := 500, bc_overflow_policy := ''drop_oldest''\<rparr>)) (\<lambda>buffer.
       Inr (overrides (default_kwargs\<lparr>kw_reconnect := True, kw_backoff := Some backoff, kw_heartbeat := HbConfig heartbeat,
         kw_buffer := BufConfig buffer, kw_max_message_size := 128 * 1024 * 1024, kw_compress := False\<rparr>)))))"

definition dashboard :: "('m ws_kwargs \<Rightarrow> 'm ws_kwargs) \<Rightarrow> exn + 'm ws_kwargs" where
  "dashboard overrides =
     bind_result (backoff_config_check (backoff_of 2 60 0 120)) (\<lambda>backoff.
     bind_result (heartbeat_config_check (heartbeat_of 30 20)) (\<lambda>heartbeat.
     bind_result (buffer_config_check (default_buffer_config\<lparr>bc_capacity := 100, bc_overflow_policy := ''drop_oldest''\<rparr>)) (\<lambda>buffer.
       Inr (overrides (default_kwargs\<lparr>kw_reconnect := True, kw_backoff := Some backoff, kw_heartbeat := HbConfig heartbeat,
         kw_buffer := BufConfig buffer\<rparr>)))))"

definition minimal :: "('m ws_kwargs \<Rightarrow> 'm ws_kwargs) \<Rightarrow> exn + 'm ws_kwargs" where
  "minimal overrides =
     bind_result (backoff_config_check (backoff_of 1 30 10 60)) (\<lambda>backoff.
       Inr (overrides (default_kwargs\<lparr>kw_reconnect := True, kw_backoff := Some backoff, kw_heartbeat := HbNone,
         kw_buffer := BufNone\<rparr>)))"

lemmas preset_defs = trading_def llm_stream_def dashboard_def minimal_def backoff_of_def heartbeat_of_def
  backoff_config_check_def heartbeat_config_check_def buffer_config_check_def default_heartbeat_config_def
  default_buffer_config_def default_kwargs_def

text \<open>
  Every preset, used without overrides, builds a manager: its own configuration values pass their
  checks, and the manager starts idle with reconnection enabled.
\<close>

theorem presets_build_managers:
  assumes "preset \<in> {trading, llm_stream, dashboard, minimal}"
  shows "\<exists>k w. preset id = Inr k \<and> make_websocket uri replay ser des k = Inr w
     \<and> ws_state w = IDLE \<and> ws_reconnect_enabled w \<and> \<not> ws_running w"
  using assms
  by (auto simp: preset_defs make_websocket_def websocket_new_def normalize_heartbeat_def normalize_buffer_def
      message_buffer_new_def ring_new_def Let_def)

text \<open>
  The shorthand \<^verbatim>\<open>heartbeat=x\<close> keeps the default timeout of 10 seconds, so every interval up to 10
  seconds is refused, although it is positive.
\<close>

theorem short_heartbeat_refused:
  assumes "0 < x" and "x \<le> 10" and "kw_heartbeat k = HbInterval x"
  shows "make_websocket uri replay ser des k = Inl (ValueError ''timeout must be less than interval'')"
  using assms
  by (simp add: make_websocket_def websocket_new_def normalize_heartbeat_def heartbeat_config_check_def
      default_heartbeat_config_def)

subsection \<open>Typed messages\<close>

text \<open>
  \<^verbatim>\<open>TypedWebSocket\<close> passes a validating deserializer to the manager and keeps two attributes of its
  own; pydantic is a parameter: \<^verbatim>\<open>validate\<close> is \<^verbatim>\<open>model_validate_json\<close>, \<^verbatim>\<open>dump\<close> the serialization
  of a model, \<^verbatim>\<open>dumps\<close> that of any other value.
\<close>

datatype ('p, 'a) outgoing = Model 'p | Raw 'a

definition typed_serializer :: "('p \<Rightarrow> bytes) \<Rightarrow> ('a \<Rightarrow> exn + bytes) \<Rightarrow> ('p, 'a) outgoing \<Rightarrow> exn + bytes" where
  "typed_serializer dump dumps msg = (case msg of Model p \<Rightarrow> Inr (dump p) | Raw a \<Rightarrow> dumps a)"

text \<open>
  \<^verbatim>\<open>message_type\<close> of the manager's own constructor: \<^verbatim>\<open>_setup_typed_serialization\<close> needs pydantic and is
  only called when neither a serializer nor a deserializer is given.
\<close>

definition setup_typed_serialization :: "bool \<Rightarrow> (bytes \<Rightarrow> exn + 'm) \<Rightarrow> ('p \<Rightarrow> bytes) \<Rightarrow> ('a \<Rightarrow> exn + bytes)
    \<Rightarrow> exn + ((('p, 'a) outgoing \<Rightarrow> exn + bytes) \<times> (bytes \<Rightarrow> exn + 'm))" where
  "setup_typed_serialization have_pydantic validate dump dumps =
     (if \<not> have_pydantic then Inl (OtherException ''ImportError'')
      else Inr (typed_serializer dump dumps, validate))"

definition choose_serialization :: "(exn + ('ser \<times> 'des)) option \<Rightarrow> 'ser option \<Rightarrow> 'des option \<Rightarrow> 'ser \<Rightarrow> 'des
    \<Rightarrow> exn + ('ser \<times> 'des)" where
  "choose_serialization typed serializer deserializer default_ser default_des =
     (case typed of
        Some setup \<Rightarrow>
          if serializer = None \<and> deserializer = None then setup
          else Inr (case serializer of Some s \<Rightarrow> s | None \<Rightarrow> default_ser, case deserializer of Some d \<Rightarrow> d | None \<Rightarrow> default_des)
      | None \<Rightarrow> Inr (case serializer of Some s \<Rightarrow> s | None \<Rightarrow> default_ser, case deserializer of Some d \<Rightarrow> d | None \<Rightarrow> default_des))"

text \<open>
  A custom serializer switches the validation of incoming messages off: with \<^verbatim>\<open>message_type\<close> and a
  serializer the manager decodes with the default deserializer.
\<close>

theorem message_type_ignored_with_serializer:
  "choose_serialization (Some setup) (Some s) None default_ser default_des = Inr (s, default_des)"
  by (simp add: choose_serialization_def)

record ('m, 's) typed_websocket =
  tw_ws :: "('m, 's) ws"
  tw_strict :: bool
  tw_validation_errors :: nat

definition typed_websocket_new :: "string \<Rightarrow> (bytes \<Rightarrow> exn + 'm) \<Rightarrow> ('m \<Rightarrow> exn + bytes) \<Rightarrow> bool
    \<Rightarrow> ('m, 's) replay_config option \<Rightarrow> 'm ws_kwargs \<Rightarrow> exn + ('m, 's) typed_websocket" where
  "typed_websocket_new uri validate serializer strict replay k =
     bind_result (make_websocket uri replay serializer validate k) (\<lambda>w.
       Inr \<lparr>tw_ws = w, tw_strict = strict, tw_validation_errors = 0\<rparr>)"

text \<open>\<^verbatim>\<open>create_typed_deserializer\<close>: the deserializer and its counter. Only a \<^verbatim>\<open>ValidationError\<close> is caught.\<close>

definition typed_deserializer :: "(bytes \<Rightarrow> exn + 'm) \<Rightarrow> (exn \<Rightarrow> bool) \<Rightarrow> bool \<Rightarrow> bytes \<Rightarrow> nat
    \<Rightarrow> (exn + 'm option) \<times> nat" where
  "typed_deserializer validate is_validation_error strict dat errors =
     (case validate dat of
        Inr m \<Rightarrow> (Inr (Some m), errors)
      | Inl e \<Rightarrow>
          if is_validation_error e then (if strict then Inl e else Inr None, errors + 1)
          else (Inl e, errors))"

text \<open>The counter is the number of messages that failed the validation.\<close>

primrec typed_deserialize_all :: "(bytes \<Rightarrow> exn + 'm) \<Rightarrow> (exn \<Rightarrow> bool) \<Rightarrow> bool \<Rightarrow> bytes list \<Rightarrow> nat
    \<Rightarrow> (exn + 'm option) list \<times> nat" where
  "typed_deserialize_all v ve strict [] errors = ([], errors)"
| "typed_deserialize_all v ve strict (d # ds) errors =
     (let (r, n) = typed_deserializer v ve strict d errors; (rs, k) = typed_deserialize_all v ve strict ds n in (r # rs, k))"

definition invalid_message :: "(bytes \<Rightarrow> exn + 'm) \<Rightarrow> (exn \<Rightarrow> bool) \<Rightarrow> bytes \<Rightarrow> bool" where
  "invalid_message v ve d \<longleftrightarrow> (case v d of Inl e \<Rightarrow> ve e | Inr _ \<Rightarrow> False)"

theorem typed_errors_counted:
  "snd (typed_deserialize_all v ve strict ds n) = n + length (filter (invalid_message v ve) ds)
   \<and> fst (typed_deserialize_all v ve False ds n)
     = map (\<lambda>d. if invalid_message v ve d then Inr None else map_sum id Some (v d)) ds"
proof (induction ds arbitrary: n)
  case (Cons d ds)
  show ?case
    by (cases "v d")
       (use Cons in \<open>simp_all add: typed_deserializer_def invalid_message_def Let_def case_prod_unfold\<close>)
qed simp

text \<open>
  \<^verbatim>\<open>strict\<close> has no effect on the client: the managers built with it and without it are the same, so
  in either mode an invalid message is an error of the message loop and the counter stays at zero.
\<close>

theorem strict_mode_ignored:
  "bind_result (typed_websocket_new uri v ser strict replay k) (\<lambda>t. Inr (tw_ws t, tw_validation_errors t))
   = bind_result (make_websocket uri replay ser v k) (\<lambda>w. Inr (w, 0))"
  by (cases "make_websocket uri replay ser v k") (simp_all add: typed_websocket_new_def)

end
