(* ===== verification/Jet_Stack.thy ===== *)
theory Jet_Stack
  imports Jet_Lifecycle Jet_Async_Transport Jet_Transport_Config Jet_Wrappers Jet_Sync_Client
begin

text \<open>
  The layers put together: a manager that sends over its asyncio transport, and a manager that
  receives over another one and forwards to a blocking client. Each layer hands the next exactly
  what the code passes: \<^verbatim>\<open>send\<close> the serialized bytes, the message loop the frames that \<^verbatim>\<open>recv\<close> returns,
  the emitter the events, \<^verbatim>\<open>_on_message\<close> the data of message events.
\<close>

subsection \<open>Configuration handed down\<close>

text \<open>The transport configuration that the manager's constructor builds from its own arguments.\<close>

definition manager_transport_config :: "pyfloat \<Rightarrow> int \<Rightarrow> ssl_context option \<Rightarrow> (pystr \<times> pystr) list option \<Rightarrow> pystr list option
    \<Rightarrow> bool \<Rightarrow> int \<Rightarrow> transport_config" where
  "manager_transport_config connect_timeout max_message_size ssl extra_headers subprotocols compress threshold =
     default_transport_config\<lparr>tc_connect_timeout := connect_timeout, tc_max_message_size := max_message_size,
       tc_ssl_context := ssl, tc_extra_headers := (case extra_headers of Some h \<Rightarrow> h | None \<Rightarrow> []),
       tc_subprotocols := (case subprotocols of Some p \<Rightarrow> p | None \<Rightarrow> []), tc_compression := compress,
       tc_compression_threshold := threshold\<rparr>"

text \<open>
  The message limit of the manager bounds nothing: whatever the limit, the parser made from this
  configuration accepts and returns a message of sixteen mebibytes.
\<close>

theorem message_limit_not_enforced:
  fixes cfg :: transport_config
  assumes "cfg = manager_transport_config t limit ssl h p c n" and "length payload = 16 * 1024 * 1024"
    and "length key = 4" and "concat chunks = encode_of key True (message_frame (True, payload))"
  shows "feed_chunks (new_parser (tc_max_frame_size cfg) (tc_max_message_size cfg)) chunks
    = (Inr ([message_frame (True, payload)], length (concat chunks)), new_parser (tc_max_frame_size cfg) (tc_max_message_size cfg))"
proof -
  have "concat chunks = wire_of (\<lambda>_. key) 0 [(True, payload)]" using assms(4) by (simp add: wire_of_Cons)
  moreover have "list_all (message_fits (tc_max_frame_size cfg)) [(True, payload)]"
    using assms(1,2) by (simp add: message_fits_def manager_transport_config_def default_transport_config_def)
  ultimately show ?thesis
    using feed_chunks_wire [of "\<lambda>_. key" "tc_max_frame_size cfg" "[(True, payload)]" chunks 0 "tc_max_message_size cfg"] assms(3)
    by simp
qed

text \<open>
  The blocking client keeps its keyword arguments and makes its manager from them in the loop thread.
\<close>

definition sync_client_manager :: "string \<Rightarrow> ('m, 's) replay_config option \<Rightarrow> ('m \<Rightarrow> exn + bytes) \<Rightarrow> (bytes \<Rightarrow> exn + 'm)
    \<Rightarrow> 'm ws_kwargs \<Rightarrow> exn + ('m, 's) ws" where
  "sync_client_manager uri replay serializer deserializer kwargs = make_websocket uri replay serializer deserializer kwargs"

theorem sync_client_manager_error:
  "sync_client_manager uri replay ser des k = Inl e
    \<Longrightarrow> sc_manager (run_event_loop (bind_result (sync_client_manager uri replay ser des k) (\<lambda>_. Inr ())) c) = sc_manager c
      \<and> \<not> sc_thread (run_event_loop (bind_result (sync_client_manager uri replay ser des k) (\<lambda>_. Inr ())) c)"
  by (simp add: run_event_loop_def)

subsection \<open>Sending through manager and transport\<close>

text \<open>\<^verbatim>\<open>WebSocket.send\<close> with the transport it calls; the message leaves as text, whatever its bytes.\<close>

definition outcome_result :: "unit outcome \<Rightarrow> exn + unit" where
  "outcome_result r = (case r of Raise e \<Rightarrow> Inl e | _ \<Rightarrow> Inr ())"

definition manager_send :: "('c, 'd) zlib \<Rightarrow> (nat \<Rightarrow> bytes) \<Rightarrow> pyfloat \<Rightarrow> 'm \<Rightarrow> ('m, 's) ws \<times> ('c, 'd) async_transport
    \<Rightarrow> (exn + unit) \<times> ('m, 's) ws \<times> ('c, 'd) async_transport" where
  "manager_send z rand utc d wt =
     (case wt of (w, t) \<Rightarrow>
        if can_send (ws_state w) \<and> ws_transport w \<noteq> None then
          (case ws_serializer w d of
             Inl e \<Rightarrow> (Inl e, w, t)
           | Inr serialized \<Rightarrow>
               (case send z rand (PBytes serialized) (Some False) t of
                  (_, r, t') \<Rightarrow> (case ws_send utc (outcome_result r) d w of (res, w') \<Rightarrow> (res, w', t'))))
        else (Inl (cannot_send w), w, t))"

primrec manager_sends :: "('c, 'd) zlib \<Rightarrow> (nat \<Rightarrow> bytes) \<Rightarrow> pyfloat \<Rightarrow> 'm list \<Rightarrow> ('m, 's) ws \<times> ('c, 'd) async_transport
    \<Rightarrow> ('m, 's) ws \<times> ('c, 'd) async_transport" where
  "manager_sends z rand utc [] wt = wt"
| "manager_sends z rand utc (d # ds) wt = manager_sends z rand utc ds (snd (manager_send z rand utc d wt))"

text \<open>What leaves the manager: the data the serializer accepts, each as one text message.\<close>

definition serializable :: "('m \<Rightarrow> exn + bytes) \<Rightarrow> 'm list \<Rightarrow> 'm list" where
  "serializable serializer ds = filter (\<lambda>d. \<not> isl (serializer d)) ds"

definition text_message :: "('m \<Rightarrow> exn + bytes) \<Rightarrow> 'm \<Rightarrow> bool \<times> bytes" where
  "text_message serializer d = (False, projr (serializer d))"

lemma ws_send_frame:
  assumes "ws_send utc tx d w = (res, w')"
  shows "ws_state w' = ws_state w" "ws_transport w' = ws_transport w" "ws_serializer w' = ws_serializer w"
  using assms by (auto simp: ws_send_def transmit_def split: if_splits sum.splits)

lemma manager_sends_all:
  assumes "ready_to_send t" "ws_state w = CONNECTED" "ws_transport w \<noteq> None"
  shows "snd (manager_sends z rand utc ds (w, t))
    = send_all z rand (map (text_message (ws_serializer w)) (serializable (ws_serializer w) ds)) t"
  using assms
proof (induction ds arbitrary: w t)
  case (Cons d ds)
  obtain w' t' where s: "snd (manager_send z rand utc d (w, t)) = (w', t')" by fastforce
  have w': "ws_state w' = CONNECTED" "ws_transport w' \<noteq> None" "ws_serializer w' = ws_serializer w"
    using s Cons.prems ws_send_frame [of utc _ d w]
    by (auto simp: manager_send_def can_send_def split: prod.splits sum.splits)
  show ?case
  proof (cases "ws_serializer w d")
    case (Inl e)
    then have "t' = t" using s Cons.prems by (simp add: manager_send_def can_send_def split: if_splits)
    with Cons.IH [OF Cons.prems(1) w'(1,2)] s w'(3) Inl show ?thesis by (simp add: serializable_def)
  next
    case (Inr dat)
    then have t': "t' = snd (snd (send z rand (PBytes dat) (Some False) t))"
      using s Cons.prems by (auto simp: manager_send_def can_send_def split: prod.splits)
    have "ready_to_send t'" using send_plain [OF Cons.prems(1), of z rand dat False] by (auto simp: t')
    from Cons.IH [OF this w'(1,2)] s w'(3) Inr t' show ?thesis by (simp add: text_message_def serializable_def)
  qed
qed (simp add: serializable_def)

subsection \<open>Receiving through transport, manager and client\<close>

text \<open>\<^verbatim>\<open>SyncWebSocket._on_message\<close>, called with every event of the manager it is registered for.\<close>

definition on_event :: "('m, 's) event_data \<Rightarrow> ('m, 'h) sync_client \<Rightarrow> ('m, 'h) sync_client" where
  "on_event ev c = (case ev of MessageEvent d _ \<Rightarrow> on_message d c | _ \<Rightarrow> c)"

definition event_messages :: "('m, 's) event_data list \<Rightarrow> 'm list" where
  "event_messages evs = List.map_filter (\<lambda>ev. case ev of MessageEvent d _ \<Rightarrow> Some d | _ \<Rightarrow> None) evs"

lemma event_messages_simps [simp]:
  "event_messages [] = []"
  "event_messages (ev # evs) = (case ev of MessageEvent d _ \<Rightarrow> [d] | _ \<Rightarrow> []) @ event_messages evs"
  "event_messages (evs @ evs') = event_messages evs @ event_messages evs'"
  by (auto simp: event_messages_def List.map_filter_def split: event_data.split)

lemma fold_on_event: "fold on_event evs c = fold on_message (event_messages evs) c"
  by (induction evs arbitrary: c) (auto simp: on_event_def split: event_data.split)

lemma handle_frame_events:
  assumes "f_opcode f \<noteq> PONG" and "no_app_pong w"
  shows "\<exists>evs. ws_events (handle_frame now utc f w) = ws_events w @ evs \<and> event_messages evs = decoded (ws_deserializer w) [f]"
  using assms
  by (auto simp: handle_frame_def Let_def decoded_def List.map_filter_simps no_app_pong_def message_error_def
      deliver_message_def on_application_message_def track_received_message_def emit_def upd_stats_def
      split: sum.split option.split)

lemma handle_frames_events:
  assumes "list_all plain_data fs" and "no_app_pong w"
  shows "\<exists>evs. ws_events (fold (handle_frame now utc) fs w) = ws_events w @ evs
     \<and> event_messages evs = decoded (ws_deserializer w) fs"
  using assms
proof (induction fs arbitrary: w)
  case (Cons f fs)
  have f: "f_opcode f \<noteq> PONG" using Cons.prems(1) plain_data_opcode by auto
  note step = handle_frame_data [OF f Cons.prems(2), of now utc]
  obtain evs where evs: "ws_events (handle_frame now utc f w) = ws_events w @ evs" "event_messages evs = decoded (ws_deserializer w) [f]"
    using handle_frame_events [OF f Cons.prems(2)] by blast
  obtain evs' where "ws_events (fold (handle_frame now utc) (f # fs) w) = ws_events (handle_frame now utc f w) @ evs'"
      "event_messages evs' = decoded (ws_deserializer w) fs"
    using Cons.IH [of "handle_frame now utc f w"] Cons.prems(1) step by auto
  with evs show ?case by (intro exI [of _ "evs @ evs'"]) (simp add: decoded_Cons [of _ f fs])
qed (simp add: decoded_def List.map_filter_simps)

text \<open>
  \<^verbatim>\<open>n\<close> iterations of \<^verbatim>\<open>_message_loop\<close> over the transport, as far as frames are there to be received.
\<close>

fun loop_iterations :: "nat \<Rightarrow> pyfloat \<Rightarrow> pyfloat \<Rightarrow> (nat \<Rightarrow> bytes) \<Rightarrow> ('m, 's) ws \<times> ('c, 'd) async_transport
    \<Rightarrow> ('m, 's) ws \<times> ('c, 'd) async_transport" where
  "loop_iterations 0 now utc rand wt = wt"
| "loop_iterations (Suc n) now utc rand (w, t) =
     (if loop_guard w then
        (case recv rand t of
           (Return f, t') \<Rightarrow> loop_iterations n now utc rand (handle_frame now utc f w, t')
         | _ \<Rightarrow> (w, t))
      else (w, t))"

lemma handle_frame_guard: "loop_guard (handle_frame now utc f w) = loop_guard w"
  by (auto simp: loop_guard_def handle_frame_def handle_pong_def message_error_def deliver_message_def Let_def
      split: sum.split option.split prod.split bool.split)

lemma loop_iterations_fold:
  "loop_guard w \<Longrightarrow> fst (loop_iterations n now utc rand (w, t)) = fold (handle_frame now utc) (recv_n n rand t) w"
  by (induction n arbitrary: w t) (auto simp: handle_frame_guard split: prod.split outcome.split)

lemma decoded_messages:
  assumes "\<forall>d \<in> set ds. deserializer (projr (serializer d)) = Inr d"
  shows "decoded deserializer (map message_frame (map (text_message serializer) ds)) = ds"
  using assms
  by (induction ds) (simp_all add: decoded_def List.map_filter_simps message_frame_def text_message_def mk_frame_def)

lemma serializable_mem: "d \<in> set (serializable serializer ds) \<Longrightarrow> d \<in> set ds \<and> (\<exists>dat. serializer d = Inr dat)"
  by (cases "serializer d") (auto simp: serializable_def)

text \<open>Through sender, network and parser: the frames that the receiving transport returns, and what they decode to.\<close>

lemma stack_frames:
  fixes a :: "('c, 'd) async_transport" and b :: "('e, 'f) async_transport" and wa wb :: "('m, 's) ws"
  assumes sender: "ready_to_send a" "pr_out (at_proto a) = []" "\<forall>i. length (rand i) = 4"
      "ws_state wa = CONNECTED" "ws_transport wa \<noteq> None"
    and receiver: "async_fresh mf mm chunks b"
    and codec: "\<And>d dat. d \<in> set ds \<Longrightarrow> ws_serializer wa d = Inr dat \<Longrightarrow> message_fits mf (False, dat) \<and> ws_deserializer wb dat = Inr d"
    and network: "concat chunks = pr_out (at_proto (snd (manager_sends z rand utc ds (wa, a))))"
  defines "msgs \<equiv> serializable (ws_serializer wa) ds"
  obtains p fs where "receive_all z' rand' chunks (at_proto b) = (None, p)" "recv_n (length msgs) rand' (b\<lparr>at_proto := p\<rparr>) = fs"
    "list_all plain_data fs" "decoded (ws_deserializer wb) fs = msgs"
proof -
  let ?ms = "map (text_message (ws_serializer wa)) msgs"
  note ser = serializable_mem [of _ "ws_serializer wa" ds, folded msgs_def]
  have fits: "list_all (message_fits mf) ?ms"
    using ser codec by (fastforce simp: list_all_iff text_message_def)
  have "concat chunks = pr_out (at_proto (fold (\<lambda>m t. snd (snd (send z rand (PBytes (snd m)) (Some (fst m)) t))) ?ms a))"
    using network manager_sends_all [OF sender(1,4,5), of z rand utc ds] by (simp add: msgs_def send_all_fold)
  from async_pair.delivered [OF sender(1-3) receiver fits this, of z' rand']
  obtain p where p: "receive_all z' rand' chunks (at_proto b) = (None, p)"
    and frames: "recv_n (length msgs) rand' (b\<lparr>at_proto := p\<rparr>) = map message_frame ?ms"
    by (auto simp: async_takes_def split: prod.splits option.splits)
  have "\<forall>d \<in> set msgs. ws_deserializer wb (projr (ws_serializer wa d)) = Inr d" using ser codec by fastforce
  from that [OF p frames message_frames_plain decoded_messages [OF this]] show ?thesis .
qed



end
