(* ===== verification/Jet_Multiplex.thy ===== *)
theory Jet_Multiplex
  imports Jet_Exceptions Jet_State Jet_Stats
begin

text \<open>
  Multiplexing of logical subscriptions over one connection (\<^verbatim>\<open>src/jetsocket/multiplex.py\<close>).

  A \<^verbatim>\<open>Subscription\<close> stays in the hands of its reader after the multiplexer has forgotten it, so
  subscriptions live in a store \<^verbatim>\<open>mx_objs\<close> indexed by number; the dictionary holds numbers. Of the
  manager the multiplexer uses the state and hands it messages to send; operations return the
  message to be sent, and take the outcome of the call where they depend on it. The functions of
  the configuration are parameters; \<^verbatim>\<open>channel_extractor\<close> may raise. A message is not \<^verbatim>\<open>None\<close>, which the
  queues use as the sentinel.
\<close>

record ('m, 'd) mux_config =
  mg_channel_extractor :: "'m \<Rightarrow> exn + string option"
  mg_subscribe_message :: "(string \<Rightarrow> 'd) option"
  mg_unsubscribe_message :: "(string \<Rightarrow> 'd) option"
  mg_queue_size :: int

definition mux_config_check :: "('m, 'd) mux_config \<Rightarrow> exn + ('m, 'd) mux_config" where
  "mux_config_check c =
     (if mg_queue_size c < 0 then Inl (ValueError ''queue_size must be non-negative'') else Inr c)"

subsection \<open>\<^verbatim>\<open>asyncio.Queue\<close>\<close>

text \<open>\<^verbatim>\<open>put_nowait\<close> on a queue with a \<^verbatim>\<open>maxsize\<close> (0: unbounded); no result is \<^verbatim>\<open>QueueFull\<close>.\<close>

definition put_nowait :: "nat \<Rightarrow> 'a \<Rightarrow> 'a list \<Rightarrow> 'a list option" where
  "put_nowait maxsize x q = (if 0 < maxsize \<and> maxsize \<le> length q then None else Some (q @ [x]))"

text \<open>\<^verbatim>\<open>put_nowait\<close> under \<^verbatim>\<open>contextlib.suppress(asyncio.QueueFull)\<close>.\<close>

definition put_or_skip :: "nat \<Rightarrow> 'a \<Rightarrow> 'a list \<Rightarrow> 'a list" where
  "put_or_skip maxsize x q = (case put_nowait maxsize x q of Some q' \<Rightarrow> q' | None \<Rightarrow> q)"

subsection \<open>Subscriptions\<close>

text \<open>A queue entry \<^verbatim>\<open>None\<close> is the sentinel that tells the reader that the subscription is closed.\<close>

record 'm sub =
  sb_channel :: string
  sb_queue :: "'m option list"
  sb_maxsize :: nat
  sb_active :: bool
  sb_messages_received :: nat

definition new_sub :: "string \<Rightarrow> nat \<Rightarrow> 'm sub" where
  "new_sub channel maxsize =
     \<lparr>sb_channel = channel, sb_queue = [], sb_maxsize = maxsize, sb_active = True, sb_messages_received = 0\<rparr>"

definition sub_closed_error :: exn where
  "sub_closed_error = InvalidStateError ''Subscription is closed'' ''closed'' [''active'']"

text \<open>\<^verbatim>\<open>recv\<close>: no outcome means that the call waits for the queue.\<close>

definition sub_recv :: "'m sub \<Rightarrow> (exn + 'm) option \<times> 'm sub" where
  "sub_recv s =
     (if \<not> sb_active s then (Some (Inl sub_closed_error), s)
      else case sb_queue s of
             [] \<Rightarrow> (None, s)
           | Some m # q \<Rightarrow> (Some (Inr m), s\<lparr>sb_queue := q\<rparr>)
           | None # q \<Rightarrow> (Some (Inl sub_closed_error), s\<lparr>sb_queue := q, sb_active := False\<rparr>))"

text \<open>A waiting \<^verbatim>\<open>recv\<close> goes on when the queue has an entry, without looking at the flag again.\<close>

definition sub_recv_wake :: "'m sub \<Rightarrow> (exn + 'm) option \<times> 'm sub" where
  "sub_recv_wake s =
     (case sb_queue s of
        [] \<Rightarrow> (None, s)
      | Some m # q \<Rightarrow> (Some (Inr m), s\<lparr>sb_queue := q\<rparr>)
      | None # q \<Rightarrow> (Some (Inl sub_closed_error), s\<lparr>sb_queue := q, sb_active := False\<rparr>))"

definition sub_recv_timeout :: "pyfloat option \<Rightarrow> exn" where
  "sub_recv_timeout timeout =
     TimeoutError ''No message received'' (case timeout of Some t \<Rightarrow> t | None \<Rightarrow> 0) ''recv''"

text \<open>\<^verbatim>\<open>__anext__\<close>: the left value is \<^verbatim>\<open>StopAsyncIteration\<close>.\<close>

definition sub_anext :: "'m sub \<Rightarrow> (unit + 'm) option \<times> 'm sub" where
  "sub_anext s =
     (if \<not> sb_active s then (Some (Inl ()), s)
      else case sb_queue s of
             [] \<Rightarrow> (None, s)
           | Some m # q \<Rightarrow> (Some (Inr m), s\<lparr>sb_queue := q\<rparr>)
           | None # q \<Rightarrow> (Some (Inl ()), s\<lparr>sb_queue := q, sb_active := False\<rparr>))"

record sub_stats =
  ss_channel :: string
  ss_messages_received :: nat
  ss_queue_size :: nat
  ss_is_active :: bool

definition sub_get_stats :: "'m sub \<Rightarrow> sub_stats" where
  "sub_get_stats s = \<lparr>ss_channel = sb_channel s, ss_messages_received = sb_messages_received s,
     ss_queue_size = length (sb_queue s), ss_is_active = sb_active s\<rparr>"

text \<open>What \<^verbatim>\<open>unsubscribe\<close> and \<^verbatim>\<open>close\<close> of the multiplexer do to a subscription.\<close>

definition signal_closed :: "'m sub \<Rightarrow> 'm sub" where
  "signal_closed s = s\<lparr>sb_active := False, sb_queue := put_or_skip (sb_maxsize s) None (sb_queue s)\<rparr>"

subsection \<open>The multiplexer\<close>

record ('m, 'd) mux =
  mx_config :: "('m, 'd) mux_config"
  mx_manager :: "conn_state option"
  mx_subscriptions :: "(string \<times> nat) list"
  mx_objs :: "nat \<Rightarrow> 'm sub"
  mx_total_subscriptions :: nat
  mx_total_messages_routed :: nat
  mx_unroutable_messages :: nat
  mx_router :: bool
  mx_closed :: bool

text \<open>
  The constructor chooses between the three ways to configure the routing; \<^verbatim>\<open>get\<close> is
  \<^verbatim>\<open>msg.get(key) if isinstance(msg, dict) else None\<close>.
\<close>

definition mux_choose_config ::
  "(string \<Rightarrow> 'm \<Rightarrow> string option) \<Rightarrow> ('m, 'd) mux_config option \<Rightarrow> string option
   \<Rightarrow> ('m \<Rightarrow> exn + string option) option \<Rightarrow> (string \<Rightarrow> 'd) option \<Rightarrow> (string \<Rightarrow> 'd) option \<Rightarrow> int
   \<Rightarrow> exn + ('m, 'd) mux_config" where
  "mux_choose_config get config channel_key channel_extractor subscribe_msg unsubscribe_msg queue_size =
     (let mk = (\<lambda>f. mux_config_check \<lparr>mg_channel_extractor = f, mg_subscribe_message = subscribe_msg,
                     mg_unsubscribe_message = unsubscribe_msg, mg_queue_size = queue_size\<rparr>)
      in case config of
           Some c \<Rightarrow> Inr c
         | None \<Rightarrow> (case channel_extractor of
             Some f \<Rightarrow> mk f
           | None \<Rightarrow> (case channel_key of
               Some k \<Rightarrow> mk (\<lambda>msg. Inr (get k msg))
             | None \<Rightarrow> Inl (ValueError ''Either config, channel_key, or channel_extractor is required''))))"

definition multiplex_new :: "('m, 'd) mux_config \<Rightarrow> ('m, 'd) mux" where
  "multiplex_new c =
     \<lparr>mx_config = c, mx_manager = None, mx_subscriptions = [], mx_objs = (\<lambda>_. new_sub [] 0),
      mx_total_subscriptions = 0, mx_total_messages_routed = 0, mx_unroutable_messages = 0,
      mx_router = False, mx_closed = False\<rparr>"

definition mux_is_connected :: "('m, 'd) mux \<Rightarrow> bool" where
  "mux_is_connected m \<longleftrightarrow> mx_manager m = Some CONNECTED"

definition mux_state :: "('m, 'd) mux \<Rightarrow> conn_state" where
  "mux_state m = (case mx_manager m of None \<Rightarrow> IDLE | Some s \<Rightarrow> s)"

text \<open>\<^verbatim>\<open>connect\<close> up to the wait for the manager, and from there, with the manager's state and outcome.\<close>

definition mux_connect_begin :: "('m, 'd) mux \<Rightarrow> exn + ('m, 'd) mux" where
  "mux_connect_begin m =
     (if mx_closed m then Inl (InvalidStateError ''Connection has been closed'' ''closed'' [''idle''])
      else if mx_manager m \<noteq> None then Inl (InvalidStateError ''Already connected'' ''connected'' [''idle''])
      else Inr (m\<lparr>mx_manager := Some IDLE\<rparr>))"

definition mux_connect_end :: "exn + unit \<Rightarrow> ('m, 'd) mux \<Rightarrow> (exn + unit) \<times> ('m, 'd) mux" where
  "mux_connect_end outcome m =
     (case outcome of Inl e \<Rightarrow> (Inl e, m) | Inr _ \<Rightarrow> (Inr (), m\<lparr>mx_router := True\<rparr>))"

text \<open>\<^verbatim>\<open>close\<close> up to the wait for the router, and from there. The flag says whether it goes on.\<close>

definition signal_all :: "('m, 'd) mux \<Rightarrow> ('m, 'd) mux" where
  "signal_all m =
     m\<lparr>mx_objs := fold (\<lambda>i objs. objs(i := signal_closed (objs i))) (map snd (mx_subscriptions m)) (mx_objs m)\<rparr>"

definition mux_close_begin :: "('m, 'd) mux \<Rightarrow> bool \<times> ('m, 'd) mux" where
  "mux_close_begin m =
     (if mx_closed m then (False, m) else (True, (signal_all (m\<lparr>mx_closed := True\<rparr>))\<lparr>mx_router := False\<rparr>))"

definition mux_close_end :: "('m, 'd) mux \<Rightarrow> ('m, 'd) mux" where
  "mux_close_end m = m\<lparr>mx_manager := None, mx_subscriptions := []\<rparr>"

text \<open>\<^verbatim>\<open>subscribe\<close>: the number of the subscription and the message that is sent before it is returned.\<close>

definition subscribe :: "string \<Rightarrow> ('m, 'd) mux \<Rightarrow> exn + (nat \<times> 'd option) \<times> ('m, 'd) mux" where
  "subscribe channel m =
     (if mx_manager m = None \<or> \<not> mux_is_connected m then
        Inl (InvalidStateError ''Not connected'' ''disconnected'' [''connected''])
      else case map_of (mx_subscriptions m) channel of
        Some i \<Rightarrow> Inr ((i, None), m)
      | None \<Rightarrow>
          (let maxsize = (if mg_queue_size (mx_config m) > 0 then nat (mg_queue_size (mx_config m)) else 0);
               i = mx_total_subscriptions m
           in Inr ((i, map_option (\<lambda>f. f channel) (mg_subscribe_message (mx_config m))),
                   m\<lparr>mx_objs := (mx_objs m)(i := new_sub channel maxsize),
                     mx_subscriptions := dict_set channel i (mx_subscriptions m),
                     mx_total_subscriptions := i + 1\<rparr>)))"

definition subscribe_end :: "exn + unit \<Rightarrow> nat \<Rightarrow> exn + nat" where
  "subscribe_end sent i = (case sent of Inl e \<Rightarrow> Inl e | Inr _ \<Rightarrow> Inr i)"

text \<open>\<^verbatim>\<open>unsubscribe\<close>: whether the channel was subscribed, and the message sent (a failure is suppressed).\<close>

definition unsubscribe :: "string \<Rightarrow> ('m, 'd) mux \<Rightarrow> (bool \<times> 'd option) \<times> ('m, 'd) mux" where
  "unsubscribe channel m =
     (case map_of (mx_subscriptions m) channel of
        None \<Rightarrow> ((False, None), m)
      | Some i \<Rightarrow>
          ((True, if mux_is_connected m then map_option (\<lambda>f. f channel) (mg_unsubscribe_message (mx_config m)) else None),
           m\<lparr>mx_subscriptions := filter (\<lambda>e. fst e \<noteq> channel) (mx_subscriptions m),
             mx_objs := (mx_objs m)(i := signal_closed (mx_objs m i))\<rparr>))"

text \<open>\<^verbatim>\<open>Subscription.close\<close> of the subscription number \<^verbatim>\<open>i\<close>.\<close>

definition sub_close :: "nat \<Rightarrow> ('m, 'd) mux \<Rightarrow> 'd option \<times> ('m, 'd) mux" where
  "sub_close i m =
     (if \<not> sb_active (mx_objs m i) then (None, m)
      else let m1 = m\<lparr>mx_objs := (mx_objs m)(i := (mx_objs m i)\<lparr>sb_active := False\<rparr>)\<rparr>;
               (r, m2) = unsubscribe (sb_channel (mx_objs m i)) m1
           in (snd r, m2))"

definition get_subscription :: "string \<Rightarrow> ('m, 'd) mux \<Rightarrow> nat option" where
  "get_subscription channel m = map_of (mx_subscriptions m) channel"

definition list_subscriptions :: "('m, 'd) mux \<Rightarrow> string list" where
  "list_subscriptions m = map fst (filter (\<lambda>(ch, i). sb_active (mx_objs m i)) (mx_subscriptions m))"

record mux_stats =
  ms_total_subscriptions :: nat
  ms_active_subscriptions :: nat
  ms_total_messages_routed :: nat
  ms_unroutable_messages :: nat
  ms_connection_stats :: connection_stats

definition idle_connection_stats :: connection_stats where
  "idle_connection_stats = \<lparr>cs_state = IDLE, cs_uptime_seconds = 0, cs_messages_sent = 0, cs_messages_received = 0,
     cs_bytes_sent = 0, cs_bytes_received = 0, cs_reconnect_count = 0, cs_last_reconnect_at = None,
     cs_latency_ms = None, cs_latency_avg_ms = None, cs_last_message_at = None,
     cs_connection_age_seconds = 0, cs_errors = 0\<rparr>"

text \<open>\<^verbatim>\<open>mstats\<close> is what the manager's own \<^verbatim>\<open>stats\<close> answers.\<close>

definition mux_get_stats :: "connection_stats \<Rightarrow> ('m, 'd) mux \<Rightarrow> mux_stats" where
  "mux_get_stats mstats m =
     \<lparr>ms_total_subscriptions = mx_total_subscriptions m,
      ms_active_subscriptions = length (filter (\<lambda>(ch, i). sb_active (mx_objs m i)) (mx_subscriptions m)),
      ms_total_messages_routed = mx_total_messages_routed m,
      ms_unroutable_messages = mx_unroutable_messages m,
      ms_connection_stats = (case mx_manager m of Some _ \<Rightarrow> mstats | None \<Rightarrow> idle_connection_stats)\<rparr>"

text \<open>What the statistics say without a manager is what a fresh counter would say.\<close>

lemma idle_stats_snapshot: "idle_connection_stats = snapshot now new_stats"
  by (simp add: idle_connection_stats_def snapshot_def new_stats_def stats_get_state_def)

subsection \<open>The router\<close>

text \<open>
  The message goes to the end of the subscription's queue; a full queue loses its oldest entry
  first. An exception of the second \<^verbatim>\<open>put_nowait\<close> is not caught.
\<close>

definition enqueue :: "'m \<Rightarrow> 'm sub \<Rightarrow> exn + 'm sub" where
  "enqueue x s =
     (case put_nowait (sb_maxsize s) (Some x) (sb_queue s) of
        Some q \<Rightarrow> Inr (s\<lparr>sb_queue := q, sb_messages_received := sb_messages_received s + 1\<rparr>)
      | None \<Rightarrow>
          (case put_nowait (sb_maxsize s) (Some x) (drop 1 (sb_queue s)) of
             Some q \<Rightarrow> Inr (s\<lparr>sb_queue := q, sb_messages_received := sb_messages_received s + 1\<rparr>)
           | None \<Rightarrow> Inl (OtherException ''QueueFull'')))"

text \<open>One message. An exception of \<^verbatim>\<open>channel_extractor\<close> ends the router task.\<close>

definition route_message :: "'m \<Rightarrow> ('m, 'd) mux \<Rightarrow> exn + ('m, 'd) mux" where
  "route_message x m =
     (case mg_channel_extractor (mx_config m) x of
        Inl e \<Rightarrow> Inl e
      | Inr None \<Rightarrow> Inr (m\<lparr>mx_unroutable_messages := mx_unroutable_messages m + 1\<rparr>)
      | Inr (Some channel) \<Rightarrow>
          (case map_of (mx_subscriptions m) channel of
             None \<Rightarrow> Inr (m\<lparr>mx_unroutable_messages := mx_unroutable_messages m + 1\<rparr>)
           | Some i \<Rightarrow>
               if \<not> sb_active (mx_objs m i) then Inr (m\<lparr>mx_unroutable_messages := mx_unroutable_messages m + 1\<rparr>)
               else bind_result (enqueue x (mx_objs m i)) (\<lambda>s.
                      Inr (m\<lparr>mx_objs := (mx_objs m)(i := s),
                             mx_total_messages_routed := mx_total_messages_routed m + 1\<rparr>))))"

text \<open>The messages of the connection one after the other.\<close>

fun route_messages :: "'m list \<Rightarrow> ('m, 'd) mux \<Rightarrow> exn + ('m, 'd) mux" where
  "route_messages [] m = Inr m"
| "route_messages (x # xs) m = bind_result (route_message x m) (route_messages xs)"

subsection \<open>Interleavings\<close>

text \<open>
  Every operation of the multiplexer and its subscriptions, in any order. The router runs between
  \<^verbatim>\<open>connect\<close> and \<^verbatim>\<open>close\<close>, unless it ends by itself; the manager changes its state at any time.
\<close>

inductive mux_step :: "('m, 'd) mux \<Rightarrow> ('m, 'd) mux \<Rightarrow> bool" where
  connect_begins: "mux_connect_begin m = Inr m' \<Longrightarrow> mux_step m m'"
| connect_ends: "mux_step m (snd (mux_connect_end outcome m))"
| manager: "mx_manager m \<noteq> None \<Longrightarrow> mux_step m (m\<lparr>mx_manager := Some s\<rparr>)"
| subscribes: "subscribe channel m = Inr (r, m') \<Longrightarrow> mux_step m m'"
| unsubscribes: "mux_step m (snd (unsubscribe channel m))"
| sub_closes: "i < mx_total_subscriptions m \<Longrightarrow> mux_step m (snd (sub_close i m))"
| receives: "i < mx_total_subscriptions m \<Longrightarrow> mux_step m (m\<lparr>mx_objs := (mx_objs m)(i := snd (sub_recv (mx_objs m i)))\<rparr>)"
| wakes: "i < mx_total_subscriptions m \<Longrightarrow> mux_step m (m\<lparr>mx_objs := (mx_objs m)(i := snd (sub_recv_wake (mx_objs m i)))\<rparr>)"
| iterates: "i < mx_total_subscriptions m \<Longrightarrow> mux_step m (m\<lparr>mx_objs := (mx_objs m)(i := snd (sub_anext (mx_objs m i)))\<rparr>)"
| routes: "mx_router m \<Longrightarrow> route_message x m = Inr m' \<Longrightarrow> mux_step m m'"
| router_ends: "mux_step m (m\<lparr>mx_router := False\<rparr>)"
| closing: "mux_step m (snd (mux_close_begin m))"
| closes: "mx_closed m \<Longrightarrow> mux_step m (mux_close_end m)"

inductive mux_reachable :: "('m, 'd) mux_config \<Rightarrow> ('m, 'd) mux \<Rightarrow> bool" for c where
  start: "mux_config_check c = Inr c \<Longrightarrow> mux_reachable c (multiplex_new c)"
| next_step: "mux_reachable c m \<Longrightarrow> mux_step m m' \<Longrightarrow> mux_reachable c m'"

subsection \<open>Well-formedness\<close>

definition queue_wf :: "'m sub \<Rightarrow> bool" where
  "queue_wf s \<longleftrightarrow> sb_maxsize s = 0 \<or> length (sb_queue s) \<le> sb_maxsize s"

text \<open>Every registered subscription is one that was created for its channel; every routed message is
  counted by exactly one subscription.\<close>

definition subs_wf :: "('m, 'd) mux \<Rightarrow> bool" where
  "subs_wf m \<longleftrightarrow> distinct (map fst (mx_subscriptions m))
     \<and> (\<forall>(ch, i) \<in> set (mx_subscriptions m). i < mx_total_subscriptions m \<and> sb_channel (mx_objs m i) = ch)"

definition mux_wf :: "('m, 'd) mux \<Rightarrow> bool" where
  "mux_wf m \<longleftrightarrow> subs_wf m \<and> (\<forall>i. queue_wf (mx_objs m i))
     \<and> (\<Sum>i < mx_total_subscriptions m. sb_messages_received (mx_objs m i)) = mx_total_messages_routed m
     \<and> (\<forall>i < mx_total_subscriptions m. sb_maxsize (mx_objs m i) = nat (mg_queue_size (mx_config m)))"

lemma subs_wf_lookup:
  assumes "subs_wf m" "map_of (mx_subscriptions m) ch = Some i"
  shows "i < mx_total_subscriptions m" "sb_channel (mx_objs m i) = ch"
  using assms map_of_SomeD [OF assms(2)] by (auto simp: subs_wf_def)

text \<open>Updates that keep the channel, the bound and the count of every subscription.\<close>

definition same_meta :: "'m sub \<Rightarrow> 'm sub \<Rightarrow> bool" where
  "same_meta s s' \<longleftrightarrow> sb_channel s' = sb_channel s \<and> sb_maxsize s' = sb_maxsize s
     \<and> sb_messages_received s' = sb_messages_received s \<and> (queue_wf s \<longrightarrow> queue_wf s')"

lemma same_meta_refl [simp]: "same_meta s s"
  by (simp add: same_meta_def)

lemma same_meta_trans: "same_meta s t \<Longrightarrow> same_meta t u \<Longrightarrow> same_meta s u"
  by (simp add: same_meta_def)

lemma same_meta_ops [simp]:
  "same_meta s (signal_closed s)" "same_meta s (snd (sub_recv s))" "same_meta s (snd (sub_recv_wake s))"
  "same_meta s (snd (sub_anext s))" "same_meta s (s\<lparr>sb_active := b\<rparr>)"
  by (auto simp: same_meta_def queue_wf_def signal_closed_def put_or_skip_def put_nowait_def sub_recv_def
      sub_recv_wake_def sub_anext_def split: list.split option.split)

lemma mux_wf_objs:
  assumes "mux_wf m" "\<And>i. same_meta (mx_objs m i) (objs' i)"
  shows "mux_wf (m\<lparr>mx_objs := objs'\<rparr>)"
  using assms by (simp add: mux_wf_def subs_wf_def same_meta_def)

lemma mux_wf_upd: "mux_wf m \<Longrightarrow> same_meta (mx_objs m i) s \<Longrightarrow> mux_wf (m\<lparr>mx_objs := (mx_objs m)(i := s)\<rparr>)"
  by (rule mux_wf_objs) simp_all

lemma mux_wf_irrelevant [simp]:
  "mux_wf (m\<lparr>mx_manager := x\<rparr>) = mux_wf m" "mux_wf (m\<lparr>mx_router := b\<rparr>) = mux_wf m"
  "mux_wf (m\<lparr>mx_closed := b\<rparr>) = mux_wf m" "mux_wf (m\<lparr>mx_unroutable_messages := n\<rparr>) = mux_wf m"
  by (simp_all add: mux_wf_def subs_wf_def)

lemma mux_wf_forget: "mux_wf m \<Longrightarrow> mux_wf (m\<lparr>mx_subscriptions := filter P (mx_subscriptions m)\<rparr>)"
  by (auto simp: mux_wf_def subs_wf_def distinct_map_filter)

lemma unsubscribe_wf: "mux_wf m \<Longrightarrow> mux_wf (snd (unsubscribe channel m))"
proof -
  assume "mux_wf m"
  then have "mux_wf (m\<lparr>mx_subscriptions := filter (\<lambda>e. fst e \<noteq> channel) (mx_subscriptions m),
      mx_objs := (mx_objs m)(i := signal_closed (mx_objs m i))\<rparr>)" for i
    using mux_wf_upd [OF mux_wf_forget [of m "\<lambda>e. fst e \<noteq> channel"], of i "signal_closed (mx_objs m i)"] by simp
  with \<open>mux_wf m\<close> show ?thesis by (simp add: unsubscribe_def split: option.split)
qed

lemma sub_close_wf: "mux_wf m \<Longrightarrow> mux_wf (snd (sub_close i m))"
proof -
  assume "mux_wf m"
  then have "mux_wf (snd (unsubscribe (sb_channel (mx_objs m i)) (m\<lparr>mx_objs := (mx_objs m)(i := (mx_objs m i)\<lparr>sb_active := False\<rparr>)\<rparr>)))"
    by (intro unsubscribe_wf mux_wf_upd) simp_all
  with \<open>mux_wf m\<close> show ?thesis by (simp add: sub_close_def case_prod_unfold Let_def)
qed

lemma subscribe_wf:
  assumes wf: "mux_wf m" and s: "subscribe channel m = Inr (r, m')"
  shows "mux_wf m'"
proof (cases "map_of (mx_subscriptions m) channel")
  case None
  let ?n = "mx_total_subscriptions m"
  have m': "m' = m\<lparr>mx_objs := (mx_objs m)(?n := new_sub channel (nat (mg_queue_size (mx_config m)))),
      mx_subscriptions := dict_set channel ?n (mx_subscriptions m), mx_total_subscriptions := ?n + 1\<rparr>"
    using s None by (auto simp: subscribe_def Let_def split: if_splits)
  have new: "channel \<notin> fst ` set (mx_subscriptions m)" using None by (simp add: map_of_eq_None_iff)
  have "set (dict_set channel ?n (mx_subscriptions m)) = insert (channel, ?n) (set (mx_subscriptions m))"
    using new by (simp add: dict_set_absent)
  with wf show ?thesis
    by (auto simp: m' mux_wf_def subs_wf_def dict_set_distinct new_sub_def queue_wf_def less_Suc_eq)
next
  case (Some i)
  then show ?thesis using assms by (auto simp: subscribe_def split: if_splits)
qed

lemma signal_all_meta: "same_meta (mx_objs m i) (mx_objs (signal_all m) i)"
proof -
  have "same_meta (objs i) (fold (\<lambda>i objs. objs(i := signal_closed (objs i))) is objs i)" for "is" and objs :: "nat \<Rightarrow> 'a sub"
  proof (induction "is" arbitrary: objs)
    case (Cons j "is")
    have "same_meta (objs i) ((objs(j := signal_closed (objs j))) i)" by simp
    from same_meta_trans [OF this Cons.IH [of "objs(j := signal_closed (objs j))"]] show ?case by simp
  qed simp
  then show ?thesis by (simp add: signal_all_def)
qed

lemma signal_all_wf: "mux_wf m \<Longrightarrow> mux_wf (signal_all m)"
proof -
  assume "mux_wf m"
  then have "mux_wf (m\<lparr>mx_objs := mx_objs (signal_all m)\<rparr>)" by (rule mux_wf_objs) (rule signal_all_meta)
  then show ?thesis by (simp add: signal_all_def)
qed

text \<open>The last \<^verbatim>\<open>n\<close> entries; all of them when the queue is unbounded.\<close>

definition newest :: "nat \<Rightarrow> 'a list \<Rightarrow> 'a list" where
  "newest n xs = (if n = 0 then xs else drop (length xs - n) xs)"

lemma newest_append [simp]: "newest n (newest n xs @ ys) = newest n (xs @ ys)"
  by (cases "n \<le> length xs") (auto simp: newest_def drop_append add.commute)

lemma newest_short: "n = 0 \<or> length xs \<le> n \<Longrightarrow> newest n xs = xs"
  by (auto simp: newest_def)

lemma enqueue_newest:
  assumes "queue_wf s"
  shows "enqueue x s = Inr (s\<lparr>sb_queue := newest (sb_maxsize s) (sb_queue s @ [Some x]),
     sb_messages_received := sb_messages_received s + 1\<rparr>)"
proof (cases "0 < sb_maxsize s \<and> sb_maxsize s \<le> length (sb_queue s)")
  case True
  then have "length (sb_queue s) = sb_maxsize s" using assms by (simp add: queue_wf_def)
  with True show ?thesis by (cases "sb_queue s") (auto simp: enqueue_def put_nowait_def newest_def)
next
  case False
  then show ?thesis by (auto simp: enqueue_def put_nowait_def newest_def)
qed

lemma route_message_wf:
  assumes wf: "mux_wf m" and r: "route_message x m = Inr m'"
  shows "mux_wf m'"
proof (cases "mx_unroutable_messages m' = mx_unroutable_messages m + 1 \<and> m' = m\<lparr>mx_unroutable_messages := mx_unroutable_messages m + 1\<rparr>")
  case True
  then show ?thesis using wf by (metis mux_wf_irrelevant(4))
next
  case False
  then obtain ch i where i: "map_of (mx_subscriptions m) ch = Some i"
    and m': "m' = m\<lparr>mx_objs := (mx_objs m)(i := (mx_objs m i)\<lparr>sb_queue := newest (sb_maxsize (mx_objs m i)) (sb_queue (mx_objs m i) @ [Some x]),
      sb_messages_received := sb_messages_received (mx_objs m i) + 1\<rparr>), mx_total_messages_routed := mx_total_messages_routed m + 1\<rparr>"
    using r wf by (auto simp: route_message_def enqueue_newest mux_wf_def split: sum.splits option.splits if_splits)
  have "i < mx_total_subscriptions m" using subs_wf_lookup(1) [OF _ i] wf by (simp add: mux_wf_def)
  moreover have "queue_wf ((mx_objs m i)\<lparr>sb_queue := newest (sb_maxsize (mx_objs m i)) q, sb_messages_received := k\<rparr>)" for q k
    by (auto simp: queue_wf_def newest_def)
  moreover have "(\<Sum>j < n. sb_messages_received (((mx_objs m)(i := (mx_objs m i)\<lparr>sb_queue := q, sb_messages_received := sb_messages_received (mx_objs m i) + 1\<rparr>)) j))
      = Suc (\<Sum>j < n. sb_messages_received (mx_objs m j))" if "i < n" for n q
    using that by (simp add: sum.remove [of "{..<n}" i])
  ultimately show ?thesis
    using wf by (auto simp: m' mux_wf_def subs_wf_def)
qed

lemma mux_step_wf: "mux_step m m' \<Longrightarrow> mux_wf m \<Longrightarrow> mux_wf m'"
proof (induction rule: mux_step.induct)
  case (closes m)
  then show ?case using mux_wf_forget [of "m\<lparr>mx_manager := None\<rparr>" "\<lambda>_. False"] by (simp add: mux_close_end_def)
qed (auto simp: mux_connect_begin_def mux_connect_end_def unsubscribe_wf sub_close_wf mux_close_begin_def
      split: if_splits sum.split intro: subscribe_wf route_message_wf mux_wf_upd signal_all_wf)

interpretation mux_sys: preserved mux_step mux_wf
  by unfold_locales (rule mux_step_wf)

lemma mux_wf_new: "mux_wf (multiplex_new c)"
  by (simp add: mux_wf_def subs_wf_def multiplex_new_def queue_wf_def new_sub_def)

lemma mux_reachable_wf: "mux_reachable c m \<Longrightarrow> mux_wf m"
  by (induction rule: mux_reachable.induct) (auto simp: mux_wf_new mux_step_wf)

subsection \<open>Properties\<close>

text \<open>One message, for an extractor that does not raise: the subscription that takes it, if any.\<close>

definition target :: "('m \<Rightarrow> string option) \<Rightarrow> 'm \<Rightarrow> ('m, 'd) mux \<Rightarrow> nat option" where
  "target key x m = (case Option.bind (key x) (map_of (mx_subscriptions m)) of
     Some i \<Rightarrow> if sb_active (mx_objs m i) then Some i else None | None \<Rightarrow> None)"

definition accept :: "'m list \<Rightarrow> 'm sub \<Rightarrow> 'm sub" where
  "accept xs s = s\<lparr>sb_queue := newest (sb_maxsize s) (sb_queue s @ map Some xs),
     sb_messages_received := sb_messages_received s + length xs\<rparr>"

lemma accept_Nil [simp]: "queue_wf s \<Longrightarrow> accept [] s = s"
  by (auto simp: accept_def queue_wf_def newest_short)

lemma accept_accept [simp]: "accept ys (accept xs s) = accept (xs @ ys) s"
  using newest_append [of "sb_maxsize s" "sb_queue s @ map Some xs" "map Some ys"] by (simp add: accept_def)

lemma route_message_target:
  assumes "mux_wf m" "mg_channel_extractor (mx_config m) x = Inr (key x)"
  shows "route_message x m = Inr (case target key x m of
     None \<Rightarrow> m\<lparr>mx_unroutable_messages := mx_unroutable_messages m + 1\<rparr>
   | Some i \<Rightarrow> m\<lparr>mx_objs := (mx_objs m)(i := accept [x] (mx_objs m i)), mx_total_messages_routed := mx_total_messages_routed m + 1\<rparr>)"
  using assms by (auto simp: route_message_def target_def enqueue_newest mux_wf_def accept_def split: option.split)

lemma route_message_frame:
  assumes "route_message x m = Inr m'"
  shows "mx_config m' = mx_config m" "mx_subscriptions m' = mx_subscriptions m" "mx_router m' = mx_router m"
  using assms by (auto simp: route_message_def bind_result_Inr_conv split: sum.splits option.splits if_splits)

lemma accept_frame [simp]: "sb_active (accept xs s) = sb_active s"
  by (simp add: accept_def)

text \<open>The whole stream: each subscription takes the messages whose target it is.\<close>

lemma route_messages_split:
  assumes "mux_wf m" "\<And>x. mg_channel_extractor (mx_config m) x = Inr (key x)"
  shows "\<exists>m'. route_messages xs m = Inr m'
     \<and> mx_total_messages_routed m' + mx_unroutable_messages m' = mx_total_messages_routed m + mx_unroutable_messages m + length xs
     \<and> (\<forall>i. mx_objs m' i = accept (filter (\<lambda>x. target key x m = Some i) xs) (mx_objs m i))"
  using assms
proof (induction xs arbitrary: m)
  case Nil
  then show ?case by (simp add: mux_wf_def)
next
  case (Cons x xs)
  obtain m1 where m1: "route_message x m = Inr m1"
    and eq: "m1 = (case target key x m of
        None \<Rightarrow> m\<lparr>mx_unroutable_messages := mx_unroutable_messages m + 1\<rparr>
      | Some i \<Rightarrow> m\<lparr>mx_objs := (mx_objs m)(i := accept [x] (mx_objs m i)), mx_total_messages_routed := mx_total_messages_routed m + 1\<rparr>)"
    using route_message_target [of m x key] Cons.prems by blast
  have wf1: "mux_wf m1" using route_message_wf [OF Cons.prems(1) m1] .
  have same: "target key y m1 = target key y m" for y
    by (auto simp: eq target_def split: option.split bind_splits)
  have counts: "mx_total_messages_routed m1 + mx_unroutable_messages m1 = Suc (mx_total_messages_routed m + mx_unroutable_messages m)"
    by (simp add: eq split: option.split)
  have objs: "mx_objs m1 i = accept (if target key x m = Some i then [x] else []) (mx_objs m i)" for i
    using Cons.prems(1) by (auto simp: eq mux_wf_def split: option.split)
  from Cons.IH [OF wf1] Cons.prems(2) route_message_frame(1) [OF m1] obtain m' where
    "route_messages xs m1 = Inr m'"
    "mx_total_messages_routed m' + mx_unroutable_messages m' = mx_total_messages_routed m1 + mx_unroutable_messages m1 + length xs"
    "\<forall>i. mx_objs m' i = accept (filter (\<lambda>x. target key x m1 = Some i) xs) (mx_objs m1 i)" by auto
  then show ?case using m1 counts by (simp add: same objs)
qed

text \<open>The messages that an active subscription takes are those of its channel; its bound is that of the configuration.\<close>

lemma subscription_queue:
  assumes "mux_wf m" and "map_of (mx_subscriptions m) ch = Some i" and "sb_active (mx_objs m i)"
  shows "filter (\<lambda>x. target key x m = Some i) xs = filter (\<lambda>x. key x = Some ch) xs"
proof -
  have "(target key x m = Some i) = (key x = Some ch)" for x
    using assms subs_wf_lookup [OF _ assms(2)] subs_wf_lookup(2) [of m _ i]
    by (auto simp: target_def mux_wf_def split: option.split bind_splits if_splits)
  then show ?thesis by simp
qed

lemma subs_maxsize:
  "mux_wf m \<Longrightarrow> map_of (mx_subscriptions m) ch = Some i \<Longrightarrow> sb_maxsize (mx_objs m i) = nat (mg_queue_size (mx_config m))"
  using subs_wf_lookup [of m ch i] by (auto simp: mux_wf_def)

text \<open>
  C23. The router delivers: for an extractor that does not raise, every message of the stream is
  counted once, as routed or as unroutable; the queue of an active subscription ends with exactly
  the messages of its channel, in the order of the stream, of which a bounded queue keeps the newest
  \<^verbatim>\<open>queue_size\<close> entries; no other subscription changes. In every reachable state no queue is longer
  than its bound and the counts of the subscriptions add up to the number of routed messages.
\<close>

theorem router_delivers:
  assumes "mux_reachable c m" and "\<forall>x. mg_channel_extractor (mx_config m) x = Inr (key x)"
  shows "\<exists>m'. route_messages xs m = Inr m'
     \<and> mx_total_messages_routed m' + mx_unroutable_messages m' = mx_total_messages_routed m + mx_unroutable_messages m + length xs
     \<and> (\<forall>ch i. map_of (mx_subscriptions m) ch = Some i \<and> sb_active (mx_objs m i) \<longrightarrow>
          sb_queue (mx_objs m' i) = newest (nat (mg_queue_size (mx_config m)))
            (sb_queue (mx_objs m i) @ map Some (filter (\<lambda>x. key x = Some ch) xs)))
     \<and> (\<forall>i. (\<forall>ch. map_of (mx_subscriptions m) ch \<noteq> Some i) \<or> \<not> sb_active (mx_objs m i) \<longrightarrow> mx_objs m' i = mx_objs m i)
     \<and> (\<Sum>i < mx_total_subscriptions m. sb_messages_received (mx_objs m i)) = mx_total_messages_routed m
     \<and> (\<forall>i. 0 < sb_maxsize (mx_objs m i) \<longrightarrow> length (sb_queue (mx_objs m i)) \<le> sb_maxsize (mx_objs m i))"
proof -
  have wf: "mux_wf m" using assms(1) by (rule mux_reachable_wf)
  obtain m' where m': "route_messages xs m = Inr m'"
    "mx_total_messages_routed m' + mx_unroutable_messages m' = mx_total_messages_routed m + mx_unroutable_messages m + length xs"
    and objs: "\<And>i. mx_objs m' i = accept (filter (\<lambda>x. target key x m = Some i) xs) (mx_objs m i)"
    using route_messages_split [OF wf, of key xs] assms(2) by blast
  have "sb_queue (mx_objs m' i) = newest (nat (mg_queue_size (mx_config m)))
      (sb_queue (mx_objs m i) @ map Some (filter (\<lambda>x. key x = Some ch) xs))"
    if i: "map_of (mx_subscriptions m) ch = Some i" "sb_active (mx_objs m i)" for ch i
    by (simp add: objs accept_def subscription_queue [OF wf i] subs_maxsize [OF wf i(1)])
  moreover have "mx_objs m' i = mx_objs m i"
    if "(\<forall>ch. map_of (mx_subscriptions m) ch \<noteq> Some i) \<or> \<not> sb_active (mx_objs m i)" for i
  proof -
    have "target key x m \<noteq> Some i" for x
      using that by (auto simp: target_def split: option.split bind_splits)
    then show ?thesis using wf by (simp add: objs mux_wf_def)
  qed
  moreover have "0 < sb_maxsize (mx_objs m i) \<longrightarrow> length (sb_queue (mx_objs m i)) \<le> sb_maxsize (mx_objs m i)" for i
    using wf by (auto simp: mux_wf_def queue_wf_def dest: spec [of _ i])
  ultimately show ?thesis using m' wf by (auto simp: mux_wf_def)
qed

text \<open>A connected multiplexer with queues of one message; messages are pairs of a channel and a number.\<close>

definition demo_mux_config :: "(string \<times> nat, string) mux_config" where
  "demo_mux_config = \<lparr>mg_channel_extractor = (\<lambda>x. Inr (Some (fst x))), mg_subscribe_message = Some (\<lambda>ch. ch),
     mg_unsubscribe_message = None, mg_queue_size = 1\<rparr>"

definition demo_connected :: "(string \<times> nat, string) mux" where
  "demo_connected = (multiplex_new demo_mux_config)\<lparr>mx_manager := Some CONNECTED, mx_router := True\<rparr>"

definition demo_mux :: "(string \<times> nat, string) mux" where
  "demo_mux = demo_connected\<lparr>mx_objs := (mx_objs demo_connected)(0 := new_sub ''a'' 1),
     mx_subscriptions := [(''a'', 0)], mx_total_subscriptions := 1\<rparr>"

lemma demo_subscribe: "subscribe ''a'' demo_connected = Inr ((0, Some ''a''), demo_mux)"
  by (simp add: subscribe_def mux_is_connected_def demo_connected_def demo_mux_def multiplex_new_def demo_mux_config_def Let_def)

lemma demo_mux_reachable: "mux_reachable demo_mux_config demo_mux"
proof -
  let ?m0 = "multiplex_new demo_mux_config"
  have "mux_reachable demo_mux_config ?m0"
    by (rule mux_reachable.start) (simp add: mux_config_check_def demo_mux_config_def)
  moreover have "mux_step ?m0 (?m0\<lparr>mx_manager := Some IDLE\<rparr>)"
    by (rule mux_step.connect_begins) (simp add: mux_connect_begin_def multiplex_new_def)
  ultimately have "mux_reachable demo_mux_config (?m0\<lparr>mx_manager := Some IDLE\<rparr>)" by (rule mux_reachable.next_step)
  moreover have "mux_step (?m0\<lparr>mx_manager := Some IDLE\<rparr>) (?m0\<lparr>mx_manager := Some CONNECTED\<rparr>)"
    using mux_step.manager [of "?m0\<lparr>mx_manager := Some IDLE\<rparr>" CONNECTED] by simp
  ultimately have "mux_reachable demo_mux_config (?m0\<lparr>mx_manager := Some CONNECTED\<rparr>)" by (rule mux_reachable.next_step)
  moreover have "mux_step (?m0\<lparr>mx_manager := Some CONNECTED\<rparr>) demo_connected"
    using mux_step.connect_ends [of "?m0\<lparr>mx_manager := Some CONNECTED\<rparr>" "Inr ()"]
    by (simp add: mux_connect_end_def demo_connected_def)
  ultimately have "mux_reachable demo_mux_config demo_connected" by (rule mux_reachable.next_step)
  then show ?thesis using mux_step.subscribes [OF demo_subscribe] by (rule mux_reachable.next_step)
qed

theorem router_delivers_witness:
  "\<exists>m'. route_messages [(''a'', 1), (''b'', 2), (''a'', 3)] demo_mux = Inr m' \<and> sb_queue (mx_objs m' 0) = [Some (''a'', 3)]"
proof -
  have "\<forall>x. mg_channel_extractor (mx_config demo_mux) x = Inr (Some (fst x))"
    by (simp add: demo_mux_def demo_connected_def multiplex_new_def demo_mux_config_def)
  from router_delivers [OF demo_mux_reachable this, of "[(''a'', 1), (''b'', 2), (''a'', 3)]"] obtain m' where
    r: "route_messages [(''a'', 1), (''b'', 2), (''a'', 3)] demo_mux = Inr m'"
    and q: "\<forall>ch i. map_of (mx_subscriptions demo_mux) ch = Some i \<and> sb_active (mx_objs demo_mux i) \<longrightarrow>
          sb_queue (mx_objs m' i) = newest (nat (mg_queue_size (mx_config demo_mux)))
            (sb_queue (mx_objs demo_mux i) @ map Some (filter (\<lambda>x. Some (fst x) = Some ch) [(''a'', 1), (''b'', 2), (''a'', 3)]))"
    by blast
  from q [rule_format, of "''a''" 0] have "sb_queue (mx_objs m' 0) = [Some (''a'', 3)]"
    by (simp add: demo_mux_def demo_connected_def multiplex_new_def demo_mux_config_def new_sub_def newest_def)
  with r show ?thesis by blast
qed

text \<open>
  A subscription whose subscribe message could not be sent stays registered: the call raises,
  and from then on \<^verbatim>\<open>subscribe\<close> returns that subscription at once and sends nothing, so the server
  never hears of the channel.
\<close>

theorem failed_subscribe_sticks:
  assumes "subscribe channel m = Inr ((i, Some msg), m')"
  shows "subscribe_end (Inl e) i = Inl e \<and> subscribe channel m' = Inr ((i, None), m')
     \<and> channel \<in> set (list_subscriptions m')"
proof -
  have new: "map_of (mx_subscriptions m) channel = None"
    using assms by (auto simp: subscribe_def split: if_splits option.splits)
  then have "channel \<notin> fst ` set (mx_subscriptions m)" by (simp add: map_of_eq_None_iff)
  with new assms have conn: "mux_is_connected m" and i: "mx_subscriptions m' = mx_subscriptions m @ [(channel, i)]"
    "sb_active (mx_objs m' i)" "mx_manager m' = mx_manager m"
    by (auto simp: subscribe_def Let_def new_sub_def dict_set_absent split: if_splits)
  with new have "subscribe channel m' = Inr ((i, None), m')"
    by (simp add: subscribe_def mux_is_connected_def map_add_def)
  with i show ?thesis by (simp add: subscribe_end_def list_subscriptions_def)
qed

theorem failed_subscribe_sticks_witness:
  "subscribe ''a'' demo_mux = Inr ((0, None), demo_mux) \<and> ''a'' \<in> set (list_subscriptions demo_mux)"
  using failed_subscribe_sticks [OF demo_subscribe] by simp

text \<open>
  Steps after the router has ended, as long as the subscription \<^verbatim>\<open>i\<close> has not been closed from this
  side.
\<close>

definition silent_step :: "nat \<Rightarrow> ('m, 'd) mux \<Rightarrow> ('m, 'd) mux \<Rightarrow> bool" where
  "silent_step i m m' \<longleftrightarrow> mux_step m m' \<and> \<not> mx_router m' \<and> sb_active (mx_objs m' i)"

definition starved :: "nat \<Rightarrow> ('m, 'd) mux \<Rightarrow> bool" where
  "starved i m \<longleftrightarrow> \<not> mx_router m \<and> i < mx_total_subscriptions m \<and> sb_active (mx_objs m i) \<and> sb_queue (mx_objs m i) = []"

lemma signal_all_inactive:
  "sb_active (mx_objs (signal_all m) i) \<Longrightarrow> mx_objs (signal_all m) i = mx_objs m i"
proof -
  have gone: "\<not> sb_active (objs i) \<Longrightarrow> \<not> sb_active (fold (\<lambda>i objs. objs(i := signal_closed (objs i))) js objs i)"
    for js and objs :: "nat \<Rightarrow> 'a sub"
    by (induction js arbitrary: objs) (auto simp: signal_closed_def)
  have "sb_active (fold (\<lambda>i objs. objs(i := signal_closed (objs i))) js objs i)
      \<Longrightarrow> fold (\<lambda>i objs. objs(i := signal_closed (objs i))) js objs i = objs i"
    for js and objs :: "nat \<Rightarrow> 'a sub"
  proof (induction js arbitrary: objs)
    case (Cons j js)
    show ?case
    proof (cases "j = i")
      case True
      have "\<not> sb_active (fold (\<lambda>i objs. objs(i := signal_closed (objs i))) js (objs(i := signal_closed (objs i))) i)"
        by (rule gone) (simp add: signal_closed_def)
      then show ?thesis using Cons.prems True by (simp del: fun_upd_apply)
    next
      case False
      have "(objs(j := signal_closed (objs j))) i = objs i" using False by simp
      with Cons.IH [of "objs(j := signal_closed (objs j))"] Cons.prems show ?thesis by (simp del: fun_upd_apply)
    qed
  qed simp
  then show "sb_active (mx_objs (signal_all m) i) \<Longrightarrow> mx_objs (signal_all m) i = mx_objs m i"
    by (simp add: signal_all_def)
qed

lemma starved_step:
  assumes "silent_step i m m'" "starved i m"
  shows "starved i m'"
proof -
  have step: "mux_step m m'" and off: "\<not> mx_router m'" and act: "sb_active (mx_objs m' i)"
    using assms(1) by (simp_all add: silent_step_def)
  have s: "\<not> mx_router m" "i < mx_total_subscriptions m" "sb_active (mx_objs m i)" "sb_queue (mx_objs m i) = []"
    using assms(2) by (simp_all add: starved_def)
  from step s act have "sb_queue (mx_objs m' i) = [] \<and> i < mx_total_subscriptions m'"
  proof (induction rule: mux_step.induct)
    case (subscribes channel m r m')
    then show ?case by (auto simp: subscribe_def Let_def split: if_splits option.splits)
  next
    case (unsubscribes m channel)
    then show ?case by (auto simp: unsubscribe_def signal_closed_def split: option.splits if_splits)
  next
    case (sub_closes j m)
    then show ?case
      by (auto simp: sub_close_def unsubscribe_def signal_closed_def Let_def split: option.splits if_splits)
  next
    case (closing m)
    then show ?case using signal_all_inactive [of "m\<lparr>mx_closed := True\<rparr>" i]
      by (auto simp: mux_close_begin_def signal_all_def split: if_splits)
  qed (auto simp: mux_connect_begin_def mux_connect_end_def sub_recv_def sub_recv_wake_def sub_anext_def
        mux_close_end_def split: if_splits sum.splits)
  then show ?thesis using off act by (simp add: starved_def)
qed

interpretation starved_sys: preserved "silent_step i" "starved i" for i
  by unfold_locales (rule starved_step)

text \<open>
  When the router has ended (it was cancelled, or the extractor raised), a reader waits for ever: nothing signals the end to the subscriptions, so as long as nobody closes
  the subscription or the multiplexer locally, an empty active subscription stays empty and active
  and \<^verbatim>\<open>recv\<close> and the iteration over it do not return.
\<close>

theorem readers_starve_after_router_end:
  assumes "\<not> mx_router m" and "i < mx_total_subscriptions m" and "sb_active (mx_objs m i)"
    and "sb_queue (mx_objs m i) = []" and "(silent_step i)\<^sup>*\<^sup>* m m'"
  shows "fst (sub_recv (mx_objs m' i)) = None \<and> fst (sub_recv_wake (mx_objs m' i)) = None
     \<and> fst (sub_anext (mx_objs m' i)) = None"
proof -
  have "starved i m'" using starved_sys.always [OF assms(5)] assms(1-4) by (simp add: starved_def)
  then show ?thesis by (simp add: starved_def sub_recv_def sub_recv_wake_def sub_anext_def)
qed

theorem readers_starve_after_router_end_witness:
  "fst (sub_recv (mx_objs (demo_mux\<lparr>mx_router := False, mx_manager := Some FAILED\<rparr>) 0)) = None"
proof -
  let ?m = "demo_mux\<lparr>mx_router := False\<rparr>"
  have m: "\<not> mx_router ?m" "0 < mx_total_subscriptions ?m" "sb_active (mx_objs ?m 0)" "sb_queue (mx_objs ?m 0) = []"
    by (simp_all add: demo_mux_def new_sub_def)
  have "silent_step 0 ?m (demo_mux\<lparr>mx_router := False, mx_manager := Some FAILED\<rparr>)"
    using mux_step.manager [of ?m FAILED]
    by (auto simp: silent_step_def demo_mux_def demo_connected_def new_sub_def multiplex_new_def)
  from readers_starve_after_router_end [OF m r_into_rtranclp [of "silent_step 0", OF this]] show ?thesis by simp
qed

end
