(* ===== verification/Jet_Mux_Stack.thy ===== *)
theory Jet_Mux_Stack
  imports Jet_Stack Jet_Multiplex
begin

text \<open>
  The multiplexer on top of its manager: the router takes messages from the manager's receive queue
  (\<^verbatim>\<open>async for message in self._manager\<close>) and puts them into the queues of the subscriptions, whose
  readers take them out.
\<close>

text \<open>\<^verbatim>\<open>n\<close> iterations of \<^verbatim>\<open>_message_router\<close>, as far as messages are there to be taken.\<close>

fun router_run :: "nat \<Rightarrow> ('m, 's) ws \<times> ('m, 'd) mux \<Rightarrow> ('m, 's) ws \<times> ('m, 'd) mux" where
  "router_run 0 wx = wx"
| "router_run (Suc n) (w, x) =
     (case anext w of
        (Some (Inr m), w') \<Rightarrow> (case route_message m x of Inr x' \<Rightarrow> router_run n (w', x') | Inl _ \<Rightarrow> (w', x))
      | _ \<Rightarrow> (w, x))"

primrec sub_recv_n :: "nat \<Rightarrow> 'm sub \<Rightarrow> (exn + 'm) option list" where
  "sub_recv_n 0 s = []"
| "sub_recv_n (Suc n) s = fst (sub_recv s) # sub_recv_n n (snd (sub_recv s))"

lemma router_run_messages:
  assumes "ws_message_queue w = ms @ q" and "route_messages ms x = Inr x'"
  shows "router_run (length ms) (w, x) = (w\<lparr>ws_message_queue := q\<rparr>, x')"
  using assms
proof (induction ms arbitrary: w x)
  case (Cons m ms)
  from Cons.prems(2) obtain x1 where x1: "route_message m x = Inr x1" "route_messages ms x1 = Inr x'"
    by (auto simp: bind_result_Inr_conv)
  with Cons.IH [of "w\<lparr>ws_message_queue := ms @ q\<rparr>" x1] Cons.prems(1) show ?case by (simp add: anext_def)
qed simp

lemma sub_recv_n_queued:
  "sb_active s \<Longrightarrow> sb_queue s = map Some ms @ q
    \<Longrightarrow> sub_recv_n (length ms) s = map (Some \<circ> Inr) ms"
proof (induction ms arbitrary: s)
  case (Cons m ms)
  from Cons.IH [of "s\<lparr>sb_queue := map Some ms @ q\<rparr>"] Cons.prems show ?case by (simp add: sub_recv_def)
qed simp

lemma newest_map: "newest n (map f xs) = map f (newest n xs)"
  by (simp add: newest_def drop_map)


text \<open>A multiplexer that tells odd numbers from even ones, with a subscription to the odd ones.\<close>

definition parity :: "nat \<Rightarrow> string option" where
  "parity n = Some (if odd n then ''odd'' else ''even'')"

definition parity_config :: "(nat, string) mux_config" where
  "parity_config = \<lparr>mg_channel_extractor = (\<lambda>n. Inr (parity n)), mg_subscribe_message = Some (\<lambda>ch. ch),
     mg_unsubscribe_message = None, mg_queue_size = 0\<rparr>"

definition parity_connected :: "(nat, string) mux" where
  "parity_connected = (multiplex_new parity_config)\<lparr>mx_manager := Some CONNECTED, mx_router := True\<rparr>"

definition parity_mux :: "(nat, string) mux" where
  "parity_mux = parity_connected\<lparr>mx_objs := (mx_objs parity_connected)(0 := new_sub ''odd'' 0),
     mx_subscriptions := [(''odd'', 0)], mx_total_subscriptions := 1\<rparr>"

lemma parity_mux_reachable: "mux_reachable parity_config parity_mux"
proof -
  let ?m0 = "multiplex_new parity_config"
  have "mux_reachable parity_config ?m0"
    by (rule mux_reachable.start) (simp add: mux_config_check_def parity_config_def)
  moreover have "mux_step ?m0 (?m0\<lparr>mx_manager := Some IDLE\<rparr>)"
    by (rule mux_step.connect_begins) (simp add: mux_connect_begin_def multiplex_new_def)
  moreover have "mux_step (?m0\<lparr>mx_manager := Some IDLE\<rparr>) (?m0\<lparr>mx_manager := Some CONNECTED\<rparr>)"
    using mux_step.manager [of "?m0\<lparr>mx_manager := Some IDLE\<rparr>" CONNECTED] by simp
  moreover have "mux_step (?m0\<lparr>mx_manager := Some CONNECTED\<rparr>) parity_connected"
    using mux_step.connect_ends [of "?m0\<lparr>mx_manager := Some CONNECTED\<rparr>" "Inr ()"]
    by (simp add: mux_connect_end_def parity_connected_def)
  moreover have "subscribe ''odd'' parity_connected = Inr ((0, Some ''odd''), parity_mux)"
    by (simp add: subscribe_def mux_is_connected_def parity_connected_def parity_mux_def multiplex_new_def parity_config_def Let_def)
  from mux_step.subscribes [OF this] have "mux_step parity_connected parity_mux" .
  ultimately show ?thesis by (blast intro: mux_reachable.next_step)
qed


end
