(* ===== verification/Jet_Replay.thy ===== *)
theory Jet_Replay
  imports Jet_Lifecycle
begin

text \<open>
  Buffer and replay over the whole life of a manager: the message loop of one connection tracks what
  it receives, the connection is lost, reconnection attempts fail and one succeeds, and
  \<^verbatim>\<open>_replay_on_reconnect\<close> runs before the new message loop starts. The model composes the segments
  of \<^verbatim>\<open>Jet_Manager\<close>; the abstract specification says what goes out on which connection.
\<close>

subsection \<open>What a buffer keeps\<close>

text \<open>Of the items offered to an empty buffer, those it holds afterwards.\<close>

definition kept :: "string \<Rightarrow> nat \<Rightarrow> 'c list \<Rightarrow> 'c list" where
  "kept policy cap xs = (if policy = ''drop_oldest'' then drop (length xs - cap) xs else take cap xs)"

definition keep_one :: "string \<Rightarrow> nat \<Rightarrow> 'c list \<Rightarrow> 'c \<Rightarrow> 'c list" where
  "keep_one policy cap xs x =
     (if length xs < cap then xs @ [x] else if policy = ''drop_oldest'' then tl xs @ [x] else xs)"

lemma length_kept: "length (kept policy cap xs) = min cap (length xs)"
  by (auto simp: kept_def)

lemma kept_Nil [simp]: "kept policy cap [] = []"
  by (simp add: kept_def)

lemma kept_snoc:
  assumes "0 < cap"
  shows "kept policy cap (xs @ [x]) = keep_one policy cap (kept policy cap xs) x"
proof (cases "length xs < cap")
  case True
  then show ?thesis by (simp add: kept_def keep_one_def)
next
  case False
  then have "tl (drop (length xs - cap) xs) = drop (Suc (length xs) - cap) xs"
    by (simp add: tl_drop Suc_diff_le flip: drop_Suc)
  with False assms show ?thesis by (simp add: kept_def keep_one_def)
qed

lemma map_keep_one: "map f (keep_one policy cap xs x) = keep_one policy cap (map f xs) (f x)"
  by (simp add: keep_one_def map_tl)

lemma ring_push_keep_one:
  assumes "ring_inv r"
  shows "case ring_push x s r of
      Inl _ \<Rightarrow> ring_list r = keep_one (rb_policy r) (rb_capacity r) (ring_list r) (x, s)
    | Inr (_, r') \<Rightarrow> ring_list r' = keep_one (rb_policy r) (rb_capacity r) (ring_list r) (x, s)"
  using ring_push_refines [OF assms, of x s]
  by (cases "ring_push x s r") (auto simp: ring_abs_def keep_one_def split: if_splits)

lemma buffer_push_keep_one:
  fixes m q b
  assumes "mb_inv b" and "\<not> bc_enable_dedup (mb_config b)"
  defines "b' \<equiv> snd (buffer_push m q b)"
  shows "ring_list (mb_buffer b') = keep_one (rb_policy (mb_buffer b)) (rb_capacity (mb_buffer b)) (ring_list (mb_buffer b)) (m, q)
    \<and> mb_inv b' \<and> mb_config b' = mb_config b \<and> rb_policy (mb_buffer b') = rb_policy (mb_buffer b)
    \<and> rb_capacity (mb_buffer b') = rb_capacity (mb_buffer b)
    \<and> mb_last_sequence_id b' = (if q = None then mb_last_sequence_id b else q)"
proof -
  have nr: "\<not> rejected q b" using assms(2) by (simp add: rejected_def split: option.split)
  have last: "mb_last_sequence_id (buffer_note q b) = (if q = None then mb_last_sequence_id b else q)"
    using assms(2) by (simp add: buffer_note_def split: option.split)
  from assms(1) have "ring_inv (mb_buffer b)" by (simp add: mb_inv_def)
  from ring_push_keep_one [OF this, of m q] buffer_push_inv [OF assms(1), of m q] last show ?thesis
    unfolding b'_def by (auto simp: buffer_push_accepted [OF nr] split: sum.splits dest: ring_push_frame)
qed

subsection \<open>Tracking received messages\<close>

definition sequence_of :: "('m, 's) replay_config \<Rightarrow> 'm \<Rightarrow> 's option" where
  "sequence_of rc d = (case rc_sequence_extractor rc of None \<Rightarrow> None | Some f \<Rightarrow> (case f d of Inl _ \<Rightarrow> None | Inr s \<Rightarrow> Some s))"

definition last_sequence :: "('m, 's) replay_config \<Rightarrow> 'm list \<Rightarrow> 's option" where
  "last_sequence rc ds = fold (\<lambda>d s. if sequence_of rc d = None then s else sequence_of rc d) ds None"

lemma last_sequence_simps [simp]:
  "last_sequence rc [] = None"
  "last_sequence rc (ds @ [d]) = (if sequence_of rc d = None then last_sequence rc ds else sequence_of rc d)"
  by (simp_all add: last_sequence_def)

text \<open>
  \<^verbatim>\<open>tracking rc policy cap ever recent w\<close>: the manager has received \<^verbatim>\<open>ever\<close>, of which \<^verbatim>\<open>recent\<close> came after
  the buffer was last drained. No application-level heartbeat keeps messages from the buffer.
\<close>

definition no_matcher :: "('m, 's) ws \<Rightarrow> bool" where
  "no_matcher w \<longleftrightarrow> no_app_pong w \<and> (\<forall>c. ws_heartbeat_config w = Some c \<longrightarrow> hc_pong_matcher c = None)"

definition tracking :: "('m, 's) replay_config \<Rightarrow> string \<Rightarrow> nat \<Rightarrow> 'm list \<Rightarrow> 'm list \<Rightarrow> ('m, 's) ws \<Rightarrow> bool" where
  "tracking rc policy cap ever recent w \<longleftrightarrow> ws_replay_config w = Some rc \<and> 0 < cap \<and> no_matcher w
     \<and> (\<exists>b. ws_buffer w = Some b \<and> mb_inv b \<and> \<not> bc_enable_dedup (mb_config b)
          \<and> rb_policy (mb_buffer b) = policy \<and> rb_capacity (mb_buffer b) = cap
          \<and> map fst (ring_list (mb_buffer b)) = map Some (kept policy cap recent)
          \<and> mb_last_sequence_id b = last_sequence rc ever)"

lemma tracking_frame:
  assumes "ws_replay_config v = ws_replay_config w" "ws_buffer v = ws_buffer w"
    and "ws_heartbeat_config v = ws_heartbeat_config w" "no_app_pong v = no_app_pong w"
  shows "tracking rc policy cap ever recent v = tracking rc policy cap ever recent w"
  using assms by (simp add: tracking_def no_matcher_def)

lemma tracking_emit [simp]: "tracking rc policy cap ever recent (emit ev w) = tracking rc policy cap ever recent w"
  by (rule tracking_frame) (simp_all add: no_app_pong_def)

lemma tracking_upd_stats [simp]: "tracking rc policy cap ever recent (upd_stats g w) = tracking rc policy cap ever recent w"
  by (rule tracking_frame) (simp_all add: no_app_pong_def)

lemma track_received_message_tracking:
  assumes "tracking rc policy cap ever recent w"
  shows "tracking rc policy cap (ever @ [d]) (recent @ [d]) (track_received_message d w)"
proof -
  from assms obtain b where b: "ws_replay_config w = Some rc" "0 < cap" "no_matcher w" "ws_buffer w = Some b" "mb_inv b"
    "\<not> bc_enable_dedup (mb_config b)" "rb_policy (mb_buffer b) = policy" "rb_capacity (mb_buffer b) = cap"
    "map fst (ring_list (mb_buffer b)) = map Some (kept policy cap recent)" "mb_last_sequence_id b = last_sequence rc ever"
    by (auto simp: tracking_def)
  let ?b = "snd (buffer_push (Some d) (sequence_of rc d) b)"
  have w': "ws_buffer (track_received_message d w) = Some ?b" "ws_replay_config (track_received_message d w) = Some rc"
    "ws_heartbeat_config (track_received_message d w) = ws_heartbeat_config w"
    using b(1,4) by (simp_all add: track_received_message_def Let_def sequence_of_def)
  have "map fst (ring_list (mb_buffer ?b)) = map Some (kept policy cap (recent @ [d]))"
    using buffer_push_keep_one [OF b(5,6), of "Some d" "sequence_of rc d"] b(7-9)
    by (simp add: map_keep_one kept_snoc [OF b(2)])
  then show ?thesis
    using buffer_push_keep_one [OF b(5,6), of "Some d" "sequence_of rc d"] b w'
    by (auto simp: tracking_def no_matcher_def no_app_pong_def)
qed

subsection \<open>What goes out and what is announced\<close>

text \<open>The starting points that the manager announces for the replays it makes.\<close>

definition resume_points :: "('m, 's) event_data list \<Rightarrow> 's option list" where
  "resume_points evs = List.map_filter (\<lambda>ev. case ev of ReplayStartedEvent _ s _ \<Rightarrow> Some s | _ \<Rightarrow> None) evs"

lemma resume_points_simps [simp]:
  "resume_points [] = []"
  "resume_points (ev # evs) = (case ev of ReplayStartedEvent _ s _ \<Rightarrow> [s] | _ \<Rightarrow> []) @ resume_points evs"
  "resume_points (evs @ evs') = resume_points evs @ resume_points evs'"
  by (auto simp: resume_points_def List.map_filter_def split: event_data.split)

text \<open>
  \<^verbatim>\<open>quiet v w\<close>: on the way from \<^verbatim>\<open>w\<close> to \<^verbatim>\<open>v\<close> nothing was sent, buffered or replayed and no
  configuration changed.
\<close>

definition quiet :: "('m, 's) ws \<Rightarrow> ('m, 's) ws \<Rightarrow> bool" where
  "quiet v w \<longleftrightarrow> ws_sent v = ws_sent w \<and> ws_buffer v = ws_buffer w \<and> ws_replay_config v = ws_replay_config w
     \<and> ws_serializer v = ws_serializer w \<and> ws_deserializer v = ws_deserializer w
     \<and> ws_heartbeat_config v = ws_heartbeat_config w \<and> (no_app_pong w \<longrightarrow> no_app_pong v)
     \<and> resume_points (ws_events v) = resume_points (ws_events w)"

lemma quiet_refl [simp]: "quiet w w"
  by (simp add: quiet_def)

lemma quiet_trans: "quiet u v \<Longrightarrow> quiet v w \<Longrightarrow> quiet u w"
  by (simp add: quiet_def)

lemma quiet_tracking: "quiet v w \<Longrightarrow> tracking rc policy cap ever recent w \<Longrightarrow> tracking rc policy cap ever recent v"
  by (simp add: quiet_def tracking_def no_matcher_def)

lemma quiet_steps [simp]:
  "resume_points [ev] = [] \<Longrightarrow> quiet (emit ev v) w = quiet v w" "quiet (upd_stats g v) w = quiet v w"
  "quiet (set_state s v) w = quiet v w" "quiet (v\<lparr>ws_last_error := e\<rparr>) w = quiet v w"
  "quiet (v\<lparr>ws_disconnect_time := t\<rparr>) w = quiet v w" "quiet (v\<lparr>ws_backoff := b\<rparr>) w = quiet v w"
  "quiet (v\<lparr>ws_transport := x\<rparr>) w = quiet v w" "quiet (v\<lparr>ws_next_id := n\<rparr>) w = quiet v w"
  "quiet (v\<lparr>ws_attempt := n\<rparr>) w = quiet v w"
  by (simp_all add: quiet_def no_app_pong_def set_state_def)

lemma hb_stopped_config [simp]: "hb_config (hb_reset (hb_stop h)) = hb_config h"
  by (simp add: hb_reset_def hb_stop_def set_event_def)

lemma quiet_stop_heartbeat:
  assumes "quiet v w"
  shows "quiet (v\<lparr>ws_heartbeat := map_option (\<lambda>h. hb_reset (hb_stop h)) (ws_heartbeat v), ws_age_task := False\<rparr>) w"
proof -
  have "no_app_pong v \<Longrightarrow>
      no_app_pong (v\<lparr>ws_heartbeat := map_option (\<lambda>h. hb_reset (hb_stop h)) (ws_heartbeat v), ws_age_task := False\<rparr>)"
    by (cases "ws_heartbeat v") (simp_all add: no_app_pong_def)
  with assms show ?thesis by (simp add: quiet_def)
qed

lemma quiet_schedule_reconnect: "quiet v w \<Longrightarrow> quiet (snd (schedule_reconnect rnd v)) w"
  by (simp add: schedule_reconnect_def Let_def split: sum.split)

lemma quiet_recv_failed: "quiet (snd (recv_failed now rnd e w)) w"
proof -
  have "quiet (snd (handle_disconnect now rnd code reason clean v)) w" if "quiet v w" for code reason clean v
    using quiet_stop_heartbeat [of "upd_stats mark_disconnected (v\<lparr>ws_disconnect_time := Some now\<rparr>)" w] that
    unfolding handle_disconnect_def Let_def by (simp add: quiet_schedule_reconnect)
  then show ?thesis by (simp add: recv_failed_def Let_def)
qed

lemma quiet_connect_failed: "quiet (snd (connect_failed rnd e w)) w"
  by (simp add: connect_failed_def Let_def quiet_schedule_reconnect)

lemma quiet_backoff_wake: "quiet (snd (backoff_wake w)) w"
  by (simp add: backoff_wake_def connect_internal_begin_def Let_def)

lemma quiet_fail_chain: "quiet (snd (fail_chain es w)) w"
proof (induction es w rule: fail_chain.induct)
  case (2 e rnd es w)
  obtain n w1 where f: "connect_failed rnd e w = (n, w1)" by fastforce
  obtain n' w2 where b: "backoff_wake w1 = (n', w2)" by fastforce
  have q: "quiet w1 w" "quiet w2 w"
    using quiet_connect_failed [of rnd e w] quiet_backoff_wake [of w1] f b by (auto intro: quiet_trans)
  show ?case
  proof (cases "\<exists>d. n = NSleep d \<and> n' = NConnect")
    case True
    with 2 f b have "quiet (snd (fail_chain es w2)) w2" by auto
    with True f b q show ?thesis by (auto intro: quiet_trans)
  qed (use f b q in \<open>auto split: resume_at.split\<close>)
qed simp

subsection \<open>Handling the frames of one connection\<close>

lemma deliver_message_tracking:
  "tracking rc policy cap ever recent w \<Longrightarrow> tracking rc policy cap (ever @ [d]) (recent @ [d]) (deliver_message utc d raw w)"
  using track_received_message_tracking [of rc policy cap ever recent w d]
  by (simp add: deliver_message_def Let_def tracking_frame [of "_\<lparr>ws_message_queue := _\<rparr>"] no_app_pong_def)

lemma handle_frame_tracking:
  assumes "tracking rc policy cap ever recent w" and "f_opcode f \<noteq> PONG"
  defines "ds \<equiv> decoded (ws_deserializer w) [f]"
  shows "tracking rc policy cap (ever @ ds) (recent @ ds) (handle_frame now utc f w)"
proof -
  let ?w1 = "emit (RawMessageEvent (f_payload f) (int (opcode_value (f_opcode f)))) w"
  have heart: "on_application_message now d h = (Inr False, h)" if "ws_heartbeat w = Some h" for d h
    using assms(1) that by (simp add: tracking_def no_matcher_def no_app_pong_def on_application_message_def)
  have same: "?w1\<lparr>ws_heartbeat := Some h\<rparr> = ?w1" if "ws_heartbeat w = Some h" for h
    using that by (simp add: emit_def)
  show ?thesis
    using assms(1,2) unfolding ds_def
    by (auto simp: handle_frame_def Let_def decoded_def List.map_filter_simps message_error_def heart same
        intro!: deliver_message_tracking split: sum.split option.split)
qed

text \<open>What the handling of frames leaves alone.\<close>

lemma track_received_message_frame:
  "ws_sent (track_received_message d w) = ws_sent w" "ws_serializer (track_received_message d w) = ws_serializer w"
  "ws_next_id (track_received_message d w) = ws_next_id w" "ws_attempt (track_received_message d w) = ws_attempt w"
  "resume_points (ws_events (track_received_message d w)) = resume_points (ws_events w)"
  by (simp_all add: track_received_message_def Let_def split: option.split)

lemma handle_frame_frame:
  "ws_sent (handle_frame now utc f w) = ws_sent w" "ws_serializer (handle_frame now utc f w) = ws_serializer w"
  "ws_deserializer (handle_frame now utc f w) = ws_deserializer w" "ws_next_id (handle_frame now utc f w) = ws_next_id w"
  "ws_attempt (handle_frame now utc f w) = ws_attempt w" "ws_state (handle_frame now utc f w) = ws_state w"
  "retrying k a (handle_frame now utc f w) = retrying k a w"
  "resume_points (ws_events (handle_frame now utc f w)) = resume_points (ws_events w)"
  by (simp_all add: handle_frame_def handle_pong_def message_error_def deliver_message_def Let_def retrying_def
      track_received_message_frame split: sum.split option.split prod.split bool.split)

lemma handle_frames_tracking:
  assumes "tracking rc policy cap ever recent w" and "list_all (\<lambda>f. f_opcode f \<noteq> PONG) fs"
  defines "ds \<equiv> decoded (ws_deserializer w) fs"
  shows "tracking rc policy cap (ever @ ds) (recent @ ds) (fold (handle_frame now utc) fs w)"
  using assms(1,2) unfolding ds_def
proof (induction fs arbitrary: w ever recent)
  case (Cons f fs)
  have "tracking rc policy cap (ever @ decoded (ws_deserializer w) [f]) (recent @ decoded (ws_deserializer w) [f]) (handle_frame now utc f w)"
    using handle_frame_tracking [OF Cons.prems(1)] Cons.prems(2) by simp
  from Cons.IH [OF this] Cons.prems(2) show ?case by (simp add: handle_frame_frame decoded_Cons [of _ f fs])
qed (simp add: decoded_def List.map_filter_simps)

lemma handle_frames_frame:
  fixes now utc fs w
  defines "w' \<equiv> fold (handle_frame now utc) fs w"
  shows "ws_sent w' = ws_sent w \<and> ws_serializer w' = ws_serializer w \<and> ws_deserializer w' = ws_deserializer w
    \<and> ws_next_id w' = ws_next_id w \<and> ws_attempt w' = ws_attempt w \<and> ws_state w' = ws_state w
    \<and> retrying k a w' = retrying k a w \<and> resume_points (ws_events w') = resume_points (ws_events w)"
  unfolding w'_def by (induction fs arbitrary: w) (simp_all add: handle_frame_frame)

subsection \<open>Reconnecting\<close>

text \<open>A transport object of its own for every attempt: \<^verbatim>\<open>fresh_transport t w\<close> says that the newest is \<^verbatim>\<open>t\<close>.\<close>

definition fresh_transport :: "nat \<Rightarrow> ('m, 's) ws \<Rightarrow> bool" where
  "fresh_transport t w \<longleftrightarrow> ws_transport w = Some t \<and> ws_next_id w = t + 1"

lemma connect_failed_next_id [simp]: "ws_next_id (snd (connect_failed rnd e w)) = ws_next_id w"
  by (simp add: connect_failed_def Let_def)

lemma connect_internal_begin_transport:
  "fresh_transport (ws_next_id w) (connect_internal_begin w)" "ws_attempt (connect_internal_begin w) = ws_attempt w + 1"
  by (simp_all add: fresh_transport_def connect_internal_begin_def Let_def)

lemma fail_chain_transport:
  assumes "retrying k a w" and "a + length es \<le> k" and "list_all (\<lambda>(e, _). retryable e) es" and "fresh_transport t w"
  shows "retrying k (a + length es) (snd (fail_chain es w)) \<and> fresh_transport (t + length es) (snd (fail_chain es w))
    \<and> ws_attempt (snd (fail_chain es w)) = ws_attempt w + length es"
  using assms
proof (induction es arbitrary: a t w)
  case (Cons p es)
  obtain e rnd where p: "p = (e, rnd)" by (cases p)
  from connect_failed_retryable [OF Cons.prems(1), of e rnd] Cons.prems(3) p obtain w0 where
    w0: "connect_failed rnd e w = schedule_reconnect rnd w0" "retrying k a w0" "ws_attempt w0 = ws_attempt w" by auto
  from schedule_reconnect_retrying [OF w0(2), of rnd] Cons.prems(2) obtain d w1 where
    w1: "schedule_reconnect rnd w0 = (NSleep d, w1)" "retrying k (a + 1) w1" "ws_attempt w1 = ws_attempt w0" by auto
  have id: "ws_next_id w1 = t + 1"
    using connect_failed_next_id [of rnd e w] w0(1) w1(1) Cons.prems(4) by (simp add: fresh_transport_def)
  let ?w2 = "connect_internal_begin w1"
  have w2: "backoff_wake w1 = (NConnect, ?w2)" "retrying k (a + 1) ?w2"
    using backoff_wake_retrying [OF w1(2)] w1(2) by (auto simp: backoff_wake_def retrying_def)
  have "fresh_transport (t + 1) ?w2" using connect_internal_begin_transport(1) [of w1] id by simp
  from Cons.IH [OF w2(2) _ _ this] Cons.prems(2,3) show ?case
    by (simp add: p w0(1,3) w1(1,3) w2(1) connect_internal_begin_transport(2))
qed simp

text \<open>What the resend loop manages to send before the first message that cannot be sent.\<close>

primrec accepted :: "('m \<Rightarrow> exn + bytes) \<Rightarrow> (nat \<Rightarrow> exn + unit) \<Rightarrow> nat \<Rightarrow> 'm list \<Rightarrow> bytes list" where
  "accepted serializer tx n [] = []"
| "accepted serializer tx n (m # ms) =
     (case (serializer m, tx n) of (Inr dat, Inr _) \<Rightarrow> dat # accepted serializer tx (n + 1) ms | _ \<Rightarrow> [])"

lemma replay_messages_accepted:
  fixes utc tx n ms w
  assumes "ws_state w = CONNECTED" and "ws_transport w = Some t"
  defines "w' \<equiv> snd (replay_messages utc tx n ms w)"
  shows "ws_sent w' = ws_sent w @ map (Pair t) (accepted (ws_serializer w) tx n ms)
    \<and> resume_points (ws_events w') = resume_points (ws_events w) \<and> ws_buffer w' = ws_buffer w
    \<and> ws_heartbeat w' = ws_heartbeat w \<and> ws_heartbeat_config w' = ws_heartbeat_config w
    \<and> ws_deserializer w' = ws_deserializer w"
  using assms(1,2) unfolding w'_def
proof (induction ms arbitrary: n w)
  case (Cons m ms)
  let ?w1 = "\<lambda>dat. upd_stats (record_message_sent utc (length dat)) (w\<lparr>ws_sent := ws_sent w @ [(t, dat)]\<rparr>)"
  have "ws_send utc (tx n) m w = (case (ws_serializer w m, tx n) of
      (Inr dat, Inr _) \<Rightarrow> (Inr (), ?w1 dat) | (Inl e, _) \<Rightarrow> (Inl e, w) | (_, Inl e) \<Rightarrow> (Inl e, w))"
    using Cons.prems by (simp add: ws_send_def transmit_def can_send_def split: sum.split)
  moreover have w1: "ws_state (?w1 dat) = CONNECTED" "ws_transport (?w1 dat) = Some t" for dat
    using Cons.prems by simp_all
  moreover note Cons.IH [OF w1, where n = "n + 1"]
  ultimately show ?case by (cases "ws_serializer w m"; cases "tx n") simp_all
qed simp

subsection \<open>The replay of one reconnection\<close>

lemma map_fst_Some: "map fst cs = map Some xs \<Longrightarrow> List.map_filter fst cs = xs"
  by (induction cs arbitrary: xs) (auto simp: List.map_filter_simps)

lemma kept_empty: "0 < cap \<Longrightarrow> kept policy cap xs = [] \<longleftrightarrow> xs = []"
  using length_kept [of policy cap xs] by (auto simp flip: length_0_conv)

lemma tracking_buffer:
  assumes "tracking rc policy cap ever recent w"
  obtains b b' where "ws_buffer w = Some b" "buffer_is_empty b \<longleftrightarrow> recent = []" "mb_last_sequence_id b = last_sequence rc ever"
    and "buffer_drain b = (kept policy cap recent, b')"
    and "tracking rc policy cap ever [] (w\<lparr>ws_buffer := Some b'\<rparr>)"
proof -
  from assms obtain b where b: "ws_buffer w = Some b" "mb_inv b" "0 < cap" "map fst (ring_list (mb_buffer b)) = map Some (kept policy cap recent)"
    "\<not> bc_enable_dedup (mb_config b)" "mb_last_sequence_id b = last_sequence rc ever"
    "rb_policy (mb_buffer b) = policy" "rb_capacity (mb_buffer b) = cap" by (auto simp: tracking_def)
  have inv: "ring_inv (mb_buffer b)" using b(2) by (simp add: mb_inv_def)
  let ?b' = "snd (buffer_drain b)"
  have empty: "buffer_is_empty b \<longleftrightarrow> recent = []"
    using arg_cong [OF b(4), of length] kept_empty [OF b(3), of policy recent]
    by (simp add: buffer_is_empty_def ring_is_empty_def flip: length_0_conv)
  have drain: "buffer_drain b = (kept policy cap recent, ?b')"
    using ring_drain_correct [OF inv] map_fst_Some [OF b(4)] by (simp add: buffer_drain_def split_def Let_def)
  have b': "mb_inv ?b'" "ring_list (mb_buffer ?b') = []" "mb_config ?b' = mb_config b" "mb_last_sequence_id ?b' = mb_last_sequence_id b"
    "rb_policy (mb_buffer ?b') = policy" "rb_capacity (mb_buffer ?b') = cap"
    using buffer_drain_inv [OF b(2)] ring_drain_correct [OF inv] ring_drain_frame [of "mb_buffer b"] b(7,8)
    by (simp_all add: buffer_drain_def split_def Let_def)
  have "no_matcher (w\<lparr>ws_buffer := Some ?b'\<rparr>)" "ws_replay_config w = Some rc"
    using assms by (simp_all add: tracking_def no_matcher_def no_app_pong_def)
  then have track: "tracking rc policy cap ever [] (w\<lparr>ws_buffer := Some ?b'\<rparr>)"
    unfolding tracking_def using b' b(3,5,6) by simp
  show ?thesis by (rule that [OF b(1) empty b(6) drain track])
qed

definition resume_point :: "('m, 's) replay_config \<Rightarrow> 'm list \<Rightarrow> 'm list \<Rightarrow> 's option" where
  "resume_point rc ever recent = (if recent = [] then None else last_sequence rc ever)"

lemma replay_full_step:
  fixes t1 t2 utc tx w
  assumes "tracking rc policy cap ever recent w" and "rc_mode rc = ''full_buffer''"
    and "ws_state w = CONNECTED" and "ws_transport w = Some t"
  defines "w' \<equiv> replay_on_reconnect t1 t2 utc tx w"
  shows "tracking rc policy cap ever [] w' \<and> ws_deserializer w' = ws_deserializer w
    \<and> ws_sent w' = ws_sent w @ map (Pair t) (accepted (ws_serializer w) tx 0 (kept policy cap recent))
    \<and> resume_points (ws_events w') = resume_points (ws_events w) @ [resume_point rc ever recent]"
proof -
  from tracking_buffer [OF assms(1)] obtain b b' where b: "ws_buffer w = Some b" "buffer_is_empty b \<longleftrightarrow> recent = []"
    "mb_last_sequence_id b = last_sequence rc ever" "buffer_drain b = (kept policy cap recent, b')"
    and track: "tracking rc policy cap ever [] (w\<lparr>ws_buffer := Some b'\<rparr>)" .
  have rc: "ws_replay_config w = Some rc" using assms(1) by (simp add: tracking_def)
  define w1 where "w1 = (emit (ReplayStartedEvent (rc_mode rc) (resume_point rc ever recent) (if recent = [] then 0 else buffer_len b)) w)
      \<lparr>ws_buffer := Some b'\<rparr>"
  define w2 where "w2 = snd (replay_messages utc tx 0 (kept policy cap recent) w1)"
  have w': "\<exists>n d. w' = emit (ReplayCompletedEvent ''full_buffer'' n d) w2"
    using rc assms(2) b unfolding w'_def w2_def w1_def resume_point_def
    by (auto simp: replay_on_reconnect_def Let_def split_def)
  have w1: "ws_state w1 = CONNECTED" "ws_transport w1 = Some t" "ws_buffer w1 = Some b'" "ws_sent w1 = ws_sent w"
    "ws_serializer w1 = ws_serializer w" "ws_deserializer w1 = ws_deserializer w" "ws_heartbeat w1 = ws_heartbeat w"
    "ws_heartbeat_config w1 = ws_heartbeat_config w" "ws_replay_config w1 = Some rc"
    "resume_points (ws_events w1) = resume_points (ws_events w) @ [resume_point rc ever recent]"
    using assms(3,4) rc by (simp_all add: w1_def)
  note out = replay_messages_accepted [OF w1(1,2), of utc tx 0 "kept policy cap recent", folded w2_def]
  have "ws_replay_config w2 = Some rc"
    using same_control_replay_messages [of utc tx 0 "kept policy cap recent" w1] w1(9) by (simp add: same_control_def w2_def)
  then have "tracking rc policy cap ever [] w2"
    using track out w1 by (simp add: tracking_def no_matcher_def no_app_pong_def)
  with w' out w1 show ?thesis by auto
qed

lemma replay_sequence_step:
  fixes t1 t2 utc tx w
  assumes "tracking rc policy cap ever recent w" and "rc_mode rc = ''sequence_id''"
  defines "w' \<equiv> replay_on_reconnect t1 t2 utc tx w"
  shows "tracking rc policy cap ever recent w' \<and> ws_deserializer w' = ws_deserializer w \<and> ws_sent w' = ws_sent w
    \<and> resume_points (ws_events w') = resume_points (ws_events w) @ [resume_point rc ever recent]"
proof -
  from tracking_buffer [OF assms(1)] obtain b where b: "ws_buffer w = Some b" "buffer_is_empty b \<longleftrightarrow> recent = []"
    "mb_last_sequence_id b = last_sequence rc ever" by metis
  have rc: "ws_replay_config w = Some rc" using assms(1) by (simp add: tracking_def)
  show ?thesis
    using assms(1,2) rc b unfolding w'_def
    by (cases "rc_on_replay rc")
       (auto simp: replay_on_reconnect_def Let_def split_def resume_point_def split: option.split sum.split)
qed

subsection \<open>The life of a connection\<close>

text \<open>
  What happens from one established connection to the next: the frames the message loop handles,
  how the connection is lost, the reconnection attempts that fail, and how the transport answers the
  messages that the replay of the next connection sends.
\<close>

record connection =
  cn_frames :: "frame list"
  cn_error :: exn
  cn_failures :: "(exn \<times> pyfloat) list"
  cn_outcomes :: "nat \<Rightarrow> exn + unit"
  cn_now :: pyfloat
  cn_rnd :: pyfloat

definition connection_life :: "connection \<Rightarrow> ('m, 's) ws \<Rightarrow> ('m, 's) ws" where
  "connection_life c w =
     (let now = cn_now c;
          w1 = fold (handle_frame now now) (cn_frames c) w;
          w2 = snd (recv_failed now (cn_rnd c) (cn_error c) w1);
          w3 = snd (fail_chain (cn_failures c) (snd (backoff_wake w2)))
      in snd (connect_internal_end now now now 0 (cn_outcomes c) (Inr (None, [])) w3))"

definition attempts_of :: "connection \<Rightarrow> nat" where
  "attempts_of c = 1 + length (cn_failures c)"

definition life_wf :: "connection \<Rightarrow> bool" where
  "life_wf c \<longleftrightarrow> list_all (\<lambda>f. f_opcode f \<noteq> PONG) (cn_frames c) \<and> list_all (\<lambda>(e, _). retryable e) (cn_failures c)"

text \<open>Up to the success of the reconnection: nothing was sent or replayed, every received message was tracked.\<close>

lemma connection_life_lost:
  assumes "retrying k a w" and "a + attempts_of c \<le> k" and "life_wf c" and "tracking rc policy cap ever recent w"
  defines "ds \<equiv> decoded (ws_deserializer w) (cn_frames c)"
  shows "\<exists>w3. connection_life c w = connect_succeeded (cn_now c) (cn_now c) (cn_now c) (cn_outcomes c) None [] w3
    \<and> retrying k (a + attempts_of c) w3 \<and> tracking rc policy cap (ever @ ds) (recent @ ds) w3
    \<and> fresh_transport (ws_next_id w + length (cn_failures c)) w3 \<and> ws_attempt w3 > ws_attempt w
    \<and> ws_sent w3 = ws_sent w \<and> ws_serializer w3 = ws_serializer w \<and> ws_deserializer w3 = ws_deserializer w
    \<and> resume_points (ws_events w3) = resume_points (ws_events w)"
proof -
  define w1 where "w1 = fold (handle_frame (cn_now c) (cn_now c)) (cn_frames c) w"
  note keeps = handle_frames_frame [of "cn_now c" "cn_now c" "cn_frames c" w k a, folded w1_def]
  have tr1: "tracking rc policy cap (ever @ ds) (recent @ ds) w1"
    using handle_frames_tracking [OF assms(4)] assms(3) by (simp add: w1_def ds_def life_wf_def)
  have "retrying k a w1" using keeps assms(1) by simp
  from recv_failed_retrying [OF this, of "cn_now c" "cn_rnd c" "cn_error c"] obtain w0 where
    w0: "recv_failed (cn_now c) (cn_rnd c) (cn_error c) w1 = schedule_reconnect (cn_rnd c) w0" "retrying k a w0" by blast
  have att0: "ws_attempt (snd (recv_failed (cn_now c) (cn_rnd c) (cn_error c) w1)) = ws_attempt w1"
    by (simp add: recv_failed_def handle_disconnect_def schedule_reconnect_def Let_def split: sum.split)
  from schedule_reconnect_retrying [OF w0(2), of "cn_rnd c"] assms(2) obtain d w2 where
    w2: "schedule_reconnect (cn_rnd c) w0 = (NSleep d, w2)" "retrying k (a + 1) w2" by (auto simp: attempts_of_def)
  define v where "v = connect_internal_begin w2"
  have v: "backoff_wake w2 = (NConnect, v)" "retrying k (a + 1) v"
    using backoff_wake_retrying [OF w2(2)] w2(2) by (auto simp: backoff_wake_def retrying_def v_def)
  have id: "ws_next_id w2 = ws_next_id w" "ws_attempt w2 = ws_attempt w"
    using recv_failed_next_id [of "cn_now c" "cn_rnd c" "cn_error c" w1] att0 keeps w0(1) w2(1) by simp_all
  define w3 where "w3 = snd (fail_chain (cn_failures c) v)"
  have chain: "retrying k (a + attempts_of c) w3" "fresh_transport (ws_next_id w + length (cn_failures c)) w3"
      "ws_attempt w3 > ws_attempt w"
    using fail_chain_transport [OF v(2) _ _ connect_internal_begin_transport(1) [of w2, folded v_def]] assms(2,3)
      connect_internal_begin_transport(2) [of w2, folded v_def] id
    by (simp_all add: w3_def attempts_of_def life_wf_def)
  have "quiet w3 w1"
    using quiet_trans [OF quiet_fail_chain quiet_trans [OF quiet_backoff_wake quiet_recv_failed]] w0(1) w2(1) v(1)
    by (metis w3_def snd_conv)
  moreover have "connection_life c w = connect_succeeded (cn_now c) (cn_now c) (cn_now c) (cn_outcomes c) None [] w3"
    by (simp add: connection_life_def Let_def connect_internal_end_def w0(1) w2(1) v(1) flip: w1_def w3_def)
  ultimately show ?thesis
    using chain keeps quiet_tracking [OF _ tr1] by (auto simp: quiet_def)
qed

lemma connect_succeeded_replays:
  assumes "ws_attempt w > 1"
  shows "\<exists>r. connect_succeeded now e utc tx sp ex w = start_tasks (replay_on_reconnect now e utc tx r)
    \<and> quiet r w \<and> ws_state r = CONNECTED \<and> ws_transport r = ws_transport w \<and> ws_next_id r = ws_next_id w \<and> ws_attempt r = ws_attempt w"
proof -
  have "quiet (v\<lparr>ws_backoff := b, ws_last_error := None, ws_disconnect_time := None\<rparr>) u = quiet v u" for v u b
    by (simp add: quiet_def no_app_pong_def)
  with assms show ?thesis unfolding connect_succeeded_def Let_def by (intro exI conjI, simp, simp_all)
qed

lemma start_tasks_frame:
  "tracking rc policy cap ever recent w \<Longrightarrow> tracking rc policy cap ever recent (start_tasks w)"
  "ws_sent (start_tasks w) = ws_sent w" "ws_serializer (start_tasks w) = ws_serializer w"
  "ws_deserializer (start_tasks w) = ws_deserializer w" "ws_next_id (start_tasks w) = ws_next_id w + 1"
  "ws_attempt (start_tasks w) = ws_attempt w" "ws_events (start_tasks w) = ws_events w"
  by (simp_all add: start_tasks_def Let_def tracking_def no_matcher_def no_app_pong_def new_heartbeat_def hb_start_def split: option.split)

text \<open>One life of a connection and the replay that follows it, in both modes.\<close>

lemma connection_life_step:
  fixes c and w :: "('m, 's) ws"
  assumes "retrying k a w" "a + attempts_of c \<le> k" "life_wf c" "tracking rc policy cap ever recent w" "ws_attempt w \<ge> 1"
  defines "w' \<equiv> connection_life c w" and "ds \<equiv> decoded (ws_deserializer w) (cn_frames c)"
  shows "retrying k (a + attempts_of c) w' \<and> ws_attempt w' \<ge> 1 \<and> ws_serializer w' = ws_serializer w
    \<and> ws_next_id w' = ws_next_id w + attempts_of c + 1
    \<and> (rc_mode rc = ''full_buffer'' \<longrightarrow> tracking rc policy cap (ever @ ds) [] w' \<and> ws_deserializer w' = ws_deserializer w
         \<and> ws_sent w' = ws_sent w @ map (Pair (ws_next_id w + length (cn_failures c)))
             (accepted (ws_serializer w) (cn_outcomes c) 0 (kept policy cap (recent @ ds))))
    \<and> (rc_mode rc = ''sequence_id'' \<longrightarrow> tracking rc policy cap (ever @ ds) (recent @ ds) w' \<and> ws_deserializer w' = ws_deserializer w
         \<and> ws_sent w' = ws_sent w
         \<and> resume_points (ws_events w') = resume_points (ws_events w) @ [resume_point rc (ever @ ds) (recent @ ds)])"
proof -
  let ?t = "ws_next_id w + length (cn_failures c)"
  from connection_life_lost [OF assms(1-4), folded ds_def w'_def] obtain w3 where
    w3: "w' = connect_succeeded (cn_now c) (cn_now c) (cn_now c) (cn_outcomes c) None [] w3" "retrying k (a + attempts_of c) w3"
      "tracking rc policy cap (ever @ ds) (recent @ ds) w3" "fresh_transport ?t w3" "ws_attempt w3 > ws_attempt w"
      "ws_sent w3 = ws_sent w" "ws_serializer w3 = ws_serializer w" "ws_deserializer w3 = ws_deserializer w"
      "resume_points (ws_events w3) = resume_points (ws_events w)" by blast
  from connect_succeeded_replays [of w3] w3(5) assms(5) obtain r where
    r: "w' = start_tasks (replay_on_reconnect (cn_now c) (cn_now c) (cn_now c) (cn_outcomes c) r)" "quiet r w3"
      "ws_state r = CONNECTED" "ws_transport r = ws_transport w3" "ws_next_id r = ws_next_id w3" "ws_attempt r = ws_attempt w3"
    unfolding w3(1) by (metis order.strict_trans1)
  let ?r' = "replay_on_reconnect (cn_now c) (cn_now c) (cn_now c) (cn_outcomes c) r"
  have same: "ws_serializer ?r' = ws_serializer r" "ws_next_id ?r' = ws_next_id r" "ws_attempt ?r' = ws_attempt r"
    using same_control_replay [of "cn_now c" "cn_now c" "cn_now c" "cn_outcomes c" r] by (simp_all add: same_control_def)
  have tr: "tracking rc policy cap (ever @ ds) (recent @ ds) r" by (rule quiet_tracking [OF r(2) w3(3)])
  have t: "ws_transport r = Some ?t" using r(4) w3(4) by (simp add: fresh_transport_def)
  have "retrying k (a + attempts_of c) w'" using connect_succeeded_retrying [OF w3(2)] w3(1) by simp
  moreover have "ws_attempt w' \<ge> 1 \<and> ws_serializer w' = ws_serializer w \<and> ws_next_id w' = ?t + 2"
    using r same w3(4,5,7) assms(5) by (simp add: start_tasks_frame quiet_def fresh_transport_def)
  ultimately show ?thesis
    using replay_full_step [OF tr _ r(3) t] replay_sequence_step [OF tr] r(1,2) w3(6-9)
    by (simp add: start_tasks_frame quiet_def attempts_of_def)
qed

subsection \<open>An example\<close>

definition two_messages :: buffer_config where
  "two_messages = default_buffer_config\<lparr>bc_capacity := 2\<rparr>"

definition two_message_buffer :: "(nat, nat) message_buffer" where
  "two_message_buffer = \<lparr>mb_config = two_messages, mb_buffer = py_ring_new 2 ''drop_oldest'',
     mb_last_sequence_id = None, mb_seen_sequences = []\<rparr>"

definition two_messages_demo :: "(nat, nat) replay_config \<Rightarrow> (nat, nat) ws" where
  "two_messages_demo rc = connecting_demo\<lparr>ws_state := CONNECTED, ws_buffer_config := Some two_messages,
     ws_buffer := Some two_message_buffer, ws_replay_config := Some rc\<rparr>"

definition resend_all :: "(nat, nat) replay_config" where
  "resend_all = \<lparr>rc_mode = ''full_buffer'', rc_sequence_extractor = None, rc_on_replay = None\<rparr>"

definition resume_even :: "(nat, nat) replay_config" where
  "resume_even = \<lparr>rc_mode = ''sequence_id'',
     rc_sequence_extractor = Some (\<lambda>n. if even n then Inr n else Inl (ValueError ''no sequence'')), rc_on_replay = Some (\<lambda>_. Inr ())\<rparr>"

definition busy_connection :: "nat list \<Rightarrow> nat \<Rightarrow> connection" where
  "busy_connection ns failures = \<lparr>cn_frames = map (\<lambda>n. mk_frame TEXT [of_nat n] True False) ns, cn_error = ConnectionError ''lost'',
     cn_failures = replicate failures (ConnectionError ''refused'', 0), cn_outcomes = (\<lambda>_. Inr ()), cn_now = 0, cn_rnd = 0\<rparr>"

lemma busy_connection_wf: "life_wf (busy_connection ns n)" "attempts_of (busy_connection ns n) = 1 + n"
  by (simp_all add: life_wf_def busy_connection_def attempts_of_def list_all_iff mk_frame_def retryable_def is_fatal_error_def)

lemma two_messages_demo_tracking:
  "tracking rc ''drop_oldest'' 2 [] [] (two_messages_demo rc)" "retrying 2 0 (two_messages_demo rc)"
  "ws_attempt (two_messages_demo rc) = 1"
proof -
  have "message_buffer_new (Some two_messages) = Inr two_message_buffer"
    by (simp add: message_buffer_new_def two_messages_def two_message_buffer_def default_buffer_config_def ring_new_def py_ring_new_def)
  moreover have "buffer_config_check two_messages = Inr two_messages"
    by (simp add: buffer_config_check_def two_messages_def default_buffer_config_def)
  ultimately have "mb_inv two_message_buffer" using message_buffer_new_inv by blast
  then show "tracking rc ''drop_oldest'' 2 [] [] (two_messages_demo rc)"
    by (simp add: tracking_def no_matcher_def no_app_pong_def two_messages_demo_def two_message_buffer_def two_messages_def
        default_buffer_config_def py_ring_new_def ring_list_def connecting_demo_def connect_internal_begin_def Let_def)
       (simp add: demo_ws_def websocket_new_def normalize_heartbeat_def normalize_buffer_def)
qed (use connecting_demo_retrying connecting_demo_state in \<open>simp_all add: two_messages_demo_def retrying_def\<close>)

lemma two_messages_demo_frame:
  "ws_sent (two_messages_demo rc) = []" "ws_next_id (two_messages_demo rc) = 1"
  "ws_serializer (two_messages_demo rc) = (\<lambda>n. Inr [of_nat n])" "ws_deserializer (two_messages_demo rc) = ascii_codec"
  "resume_points (ws_events (two_messages_demo rc)) = []"
  by (simp_all add: two_messages_demo_def connecting_demo_def connect_internal_begin_def Let_def)
     (simp_all add: demo_ws_def websocket_new_def normalize_heartbeat_def normalize_buffer_def)

subsection \<open>Replay over many connections\<close>

text \<open>
  What should go out in \<^verbatim>\<open>full_buffer\<close> mode: at the start of each new connection, on its own transport,
  what the buffer kept of the messages received on the connection before it.
\<close>

primrec replay_spec :: "('m \<Rightarrow> exn + bytes) \<Rightarrow> (frame list \<Rightarrow> 'm list) \<Rightarrow> ('m list \<Rightarrow> 'm list) \<Rightarrow> nat
    \<Rightarrow> connection list \<Rightarrow> (nat \<times> bytes) list" where
  "replay_spec serializer decode keep t [] = []"
| "replay_spec serializer decode keep t (c # cs) =
     map (Pair (t + length (cn_failures c))) (accepted serializer (cn_outcomes c) 0 (keep (decode (cn_frames c))))
     @ replay_spec serializer decode keep (t + attempts_of c + 1) cs"





subsection \<open>A buffer without a replay configuration\<close>

lemma handle_frame_no_replay:
  assumes "ws_replay_config w = None"
  shows "ws_buffer (handle_frame now utc f w) = ws_buffer w \<and> ws_replay_config (handle_frame now utc f w) = None"
  using assms
  by (simp add: handle_frame_def handle_pong_def message_error_def deliver_message_def track_received_message_def Let_def
      split: sum.split option.split prod.split bool.split)

text \<open>
  A manager that is given a buffer and no \<^verbatim>\<open>ReplayConfig\<close> never puts anything into the buffer,
  whatever arrives.
\<close>

theorem buffer_unused_without_replay:
  "ws_replay_config w = None \<Longrightarrow> ws_buffer (fold (handle_frame now utc) fs w) = ws_buffer w"
  by (induction fs arbitrary: w) (simp_all add: handle_frame_no_replay)

theorem buffer_unused_without_replay_witness:
  "ws_buffer (fold (handle_frame 0 0) [mk_frame TEXT [65] True False] (demo_ws\<lparr>ws_buffer := Some two_message_buffer\<rparr>))
     = Some two_message_buffer"
  using buffer_unused_without_replay [of "demo_ws\<lparr>ws_buffer := Some two_message_buffer\<rparr>" 0 0
      "[mk_frame TEXT [65] True False]"] by simp

end
