(* ===== verification/Jet_Package.thy ===== *)
theory Jet_Package
  imports Jet_Wrappers
begin

text \<open>
  The package itself: the names that \<^verbatim>\<open>src/jetsocket/__init__.py\<close> exports, imports at once or looks up
  on demand, its \<^verbatim>\<open>connect\<close> context manager, and that of the manager.
\<close>

subsection \<open>Names\<close>

definition package_all :: "string list" where
  "package_all =
    [''BackoffConfig'', ''BufferConfig'', ''ConnectionError'', ''ConnectionState'',
     ''HandshakeError'', ''HeartbeatConfig'', ''InvalidStateError'', ''JetSocketError'',
     ''Multiplex'', ''ProtocolError'', ''SyncWebSocket'', ''TimeoutError'', ''WebSocket'',
     ''connect'']"

text \<open>What the module defines: the eager imports and its own function.\<close>

definition package_defined :: "string list" where
  "package_defined =
    [''ConnectionError'', ''HandshakeError'', ''InvalidStateError'', ''JetSocketError'',
     ''ProtocolError'', ''TimeoutError'', ''ConnectionState'', ''connect'']"

definition lazy_imports :: "(string \<times> string) list" where
  "lazy_imports =
    [(''WebSocket'', ''jetsocket.manager''), (''SyncWebSocket'', ''jetsocket.sync_client''),
     (''Multiplex'', ''jetsocket.multiplex''), (''BackoffConfig'', ''jetsocket.backoff''),
     (''BufferConfig'', ''jetsocket.buffer''), (''HeartbeatConfig'', ''jetsocket.heartbeat''),
     (''BufferOverflowError'', ''jetsocket.exceptions''),
     (''CloseError'', ''jetsocket.exceptions''),
     (''PoolClosedError'', ''jetsocket.exceptions''),
     (''PoolExhaustedError'', ''jetsocket.exceptions''), (''Frame'', ''jetsocket.types''),
     (''Opcode'', ''jetsocket.types''), (''ConnectionPool'', ''jetsocket.pool''),
     (''ConnectionPoolConfig'', ''jetsocket.pool''),
     (''ConnectionStats'', ''jetsocket.stats''), (''MessageBuffer'', ''jetsocket.buffer''),
     (''MultiplexConfig'', ''jetsocket.multiplex''),
     (''MultiplexStats'', ''jetsocket.multiplex''), (''PooledConnection'', ''jetsocket.pool''),
     (''PoolStats'', ''jetsocket.pool''), (''ReplayConfig'', ''jetsocket.buffer''),
     (''Subscription'', ''jetsocket.multiplex''),
     (''SubscriptionStats'', ''jetsocket.multiplex''), (''hello'', ''world'')]"

text \<open>\<^verbatim>\<open>__getattr__\<close>, which is asked for the names the module does not define: the module to import from.\<close>

definition package_getattr :: "string \<Rightarrow> exn + string" where
  "package_getattr name =
     (case map_of lazy_imports name of
        Some m \<Rightarrow> Inr m
      | None \<Rightarrow> Inl (OtherException ''AttributeError''))"

definition resolves :: "string \<Rightarrow> bool" where
  "resolves name \<longleftrightarrow> name \<in> set package_defined \<or> (\<exists>m. package_getattr name = Inr m)"

text \<open>
  Every exported name can be imported, and no lazy entry is hidden by a name the module defines.
\<close>

theorem exports_resolve:
  "list_all resolves package_all \<and> distinct (map fst lazy_imports)
   \<and> list_all (\<lambda>e. fst e \<notin> set package_defined) lazy_imports"
  by (simp add: resolves_def package_getattr_def package_all_def package_defined_def lazy_imports_def)

text \<open>The reference documents exceptions under names that the package does not have.\<close>

theorem documented_exceptions_missing:
  "list_all (\<lambda>name. \<not> resolves name)
     [''ConnectionClosedError'', ''ConnectionTimeoutError'', ''ConnectionRefusedError'', ''InvalidFrameError'', ''InvalidMessageError'']"
  by (simp add: resolves_def package_getattr_def package_defined_def lazy_imports_def)

subsection \<open>Context managers\<close>

text \<open>
  \<^verbatim>\<open>WebSocket.__aenter__\<close> connects, \<^verbatim>\<open>__aexit__\<close> closes with the default code; the package's
  \<^verbatim>\<open>connect\<close> does the same around its \<^verbatim>\<open>yield\<close>, and closes nothing when \<^verbatim>\<open>connect\<close> fails.
\<close>

definition ws_aenter :: "('m, 's) ws \<Rightarrow> exn + ('m, 's) ws" where
  "ws_aenter w = connect w"

definition ws_aexit :: "('m, 's) ws \<Rightarrow> ('m, 's) ws" where
  "ws_aexit w =
     (case close_begin (CloseCode NORMAL) [] w of
        (True, w1) \<Rightarrow> close_end (CloseCode NORMAL) [] w1
      | (False, w1) \<Rightarrow> w1)"

definition connect_exit :: "exn option \<Rightarrow> ('m, 's) ws \<Rightarrow> ('m, 's) ws" where
  "connect_exit connect_error w = (case connect_error of None \<Rightarrow> ws_aexit w | Some _ \<Rightarrow> w)"

theorem session_ends_closed:
  "is_terminal (ws_state (ws_aexit w)) \<and> \<not> ws_running (ws_aexit w) \<and> ws_user_closed (ws_aexit w)
   \<and> (is_terminal (ws_state w) \<or> ws_state (ws_aexit w) = CLOSED)"
  by (auto simp: ws_aexit_def close_begin_def close_end_def Let_def is_terminal_def set_state_def emit_def upd_stats_def)

end
