(* ===== verification/Jet_Core_Frame.thy ===== *)
theory Jet_Core_Frame
  imports Jet_Types
begin

text \<open>
  The opcode and frame classes of \<^verbatim>\<open>src/jetsocket/_core.pyx\<close>, which repeat those of
  \<^verbatim>\<open>src/jetsocket/types.py\<close> for the compiled module. The compiled \<^verbatim>\<open>Frame\<close> takes any integer as its
  opcode and compares numbers; the two classes agree on every frame with a valid opcode.
\<close>

definition core_is_control_frame :: "nat \<Rightarrow> bool" where
  "core_is_control_frame n \<longleftrightarrow> n \<ge> 0x8"

definition core_is_data_frame :: "nat \<Rightarrow> bool" where
  "core_is_data_frame n \<longleftrightarrow> n \<le> 0x2"

record core_frame =
  cf_opcode :: nat
  cf_payload :: bytes
  cf_fin :: bool
  cf_rsv1 :: bool
  cf_rsv2 :: bool
  cf_rsv3 :: bool

definition core_payload_len :: "core_frame \<Rightarrow> nat" where
  "core_payload_len f = length (cf_payload f)"

definition core_as_text :: "core_frame \<Rightarrow> exn + pystr" where
  "core_as_text f = (case utf8_decode (cf_payload f) of None \<Rightarrow> Inl UnicodeDecodeError | Some s \<Rightarrow> Inr s)"

definition core_close_code :: "core_frame \<Rightarrow> int option" where
  "core_close_code f =
     (if cf_opcode f \<noteq> 0x8 \<or> length (cf_payload f) < 2 then None
      else Some (int (int_from_bytes_big (take 2 (cf_payload f)))))"

definition core_close_reason :: "core_frame \<Rightarrow> pystr" where
  "core_close_reason f =
     (if cf_opcode f \<noteq> 0x8 \<or> length (cf_payload f) \<le> 2 then []
      else utf8_decode_replace (drop 2 (cf_payload f)))"

text \<open>The compiled frame with the contents of a frame.\<close>

definition to_core :: "frame \<Rightarrow> core_frame" where
  "to_core f = \<lparr>cf_opcode = opcode_value (f_opcode f), cf_payload = f_payload f, cf_fin = f_fin f,
     cf_rsv1 = f_rsv1 f, cf_rsv2 = f_rsv2 f, cf_rsv3 = f_rsv3 f\<rparr>"

lemma opcode_value_close: "opcode_value o1 = 8 \<longleftrightarrow> o1 = CLOSE"
  by (cases o1) simp_all

theorem core_frame_agrees:
  "core_is_control_frame (cf_opcode (to_core f)) = frame_is_control f"
  "core_is_data_frame (cf_opcode (to_core f)) = frame_is_data f"
  "core_as_text (to_core f) = as_text f"
  "core_close_code (to_core f) = frame_close_code f"
  "core_close_reason (to_core f) = frame_close_reason f"
  by (simp_all add: to_core_def core_is_control_frame_def frame_is_control_def opcode_is_control_def
      core_is_data_frame_def frame_is_data_def opcode_is_data_def core_as_text_def as_text_def core_close_code_def
      frame_close_code_def core_close_reason_def frame_close_reason_def frame_is_close_def opcode_value_close)

text \<open>A close frame carries a code exactly when its payload has two bytes, and the code fits them.\<close>

theorem core_close_code_bounds:
  "core_close_code f = Some n \<Longrightarrow> 0 \<le> n \<and> n < 65536 \<and> core_payload_len f \<ge> 2"
proof -
  assume "core_close_code f = Some n"
  then have len: "\<not> length (cf_payload f) < 2" and n: "n = int (int_from_bytes_big (take 2 (cf_payload f)))"
    by (auto simp: core_close_code_def split: if_splits)
  then obtain a b rest where "cf_payload f = a # b # rest" by (cases "cf_payload f"; cases "tl (cf_payload f)") auto
  then have "n = int (unat a * 256 + unat b)" using n by (simp add: int_from_bytes_big_def numeral_2_eq_2)
  moreover have "unat a * 256 + unat b < 65536" using unat_byte_less [of a] unat_byte_less [of b] by linarith
  ultimately show ?thesis using len by (auto simp: core_payload_len_def simp del: of_nat_add of_nat_mult)
qed

end
