(* ===== verification/Spec2Isabelle.thy ===== *)
theory Spec2Isabelle
  imports Jet_Concurrency Jet_Query Jet_Pool_System Jet_Client_System Jet_Sync_Transport Jet_Mux_Stack Jet_Replay Jet_Package Jet_Core_Frame
begin

text \<open>
  \<^bold>\<open>JetSocket\<close>: a verification development for the WebSocket client library in \<^verbatim>\<open>src/src/jetsocket\<close>.

  \<^bold>\<open>The program.\<close> A \<^verbatim>\<open>WebSocket\<close> manager (\<^verbatim>\<open>manager.py\<close>) owns one connection at a time. It creates an
  \<^verbatim>\<open>AsyncTransport\<close> (\<^verbatim>\<open>transport/_async.py\<close>), which parses the URI, resolves the name, opens a
  connection, performs the opening handshake, and from then on turns bytes into frames with the
  parser of \<^verbatim>\<open>_core.pyx\<close>. A message loop hands the frames to the application; a heartbeat pings; after a
  loss the manager waits for the delay of its backoff strategy and connects again, and a message
  buffer keeps received messages for replay. Around the manager stand a pool, a multiplexer, a blocking client
  that runs the manager in a thread, and thin typed and preset wrappers; a second, blocking
  transport stands on its own.

  \<^bold>\<open>The theories and what they model.\<close>
  \<^item> \<^verbatim>\<open>Jet_Prelude\<close>: types, results that may be exceptions, dictionaries, and the locales \<^verbatim>\<open>preserved\<close>
    and \<^verbatim>\<open>non_increasing\<close> for step relations and \<^verbatim>\<open>simulation\<close> between two of them, interpreted in \<^verbatim>\<open>Jet_Concurrency\<close>, \<^verbatim>\<open>Jet_Pool\<close>,
    \<^verbatim>\<open>Jet_Pool_System\<close>, \<^verbatim>\<open>Jet_Multiplex\<close> and \<^verbatim>\<open>Jet_Client_System\<close>.
    \<^verbatim>\<open>Jet_Exceptions\<close>: \<^verbatim>\<open>exceptions.py\<close>. \<^verbatim>\<open>Jet_Utf8\<close>, \<^verbatim>\<open>Jet_Strings\<close>, \<^verbatim>\<open>Jet_Sha1\<close>: the parts of
    Python's standard library that the sources use (UTF-8, string methods, SHA-1, base64), all
    executable.
  \<^item> \<^verbatim>\<open>Jet_Types\<close>, \<^verbatim>\<open>Jet_State\<close>, \<^verbatim>\<open>Jet_Stats\<close>, \<^verbatim>\<open>Jet_Events\<close>, \<^verbatim>\<open>Jet_Backoff\<close>, \<^verbatim>\<open>Jet_Heartbeat\<close>: the modules
    \<^verbatim>\<open>types.py\<close>, \<^verbatim>\<open>state.py\<close>, \<^verbatim>\<open>stats.py\<close>, \<^verbatim>\<open>events.py\<close>, \<^verbatim>\<open>backoff.py\<close>, \<^verbatim>\<open>heartbeat.py\<close>; the heartbeat's
    background task is a timed step relation.
  \<^item> \<^verbatim>\<open>Jet_Masking\<close>, \<^verbatim>\<open>Jet_Frame_Codec\<close>, \<^verbatim>\<open>Jet_Deflate\<close>, \<^verbatim>\<open>Jet_Handshake\<close>, \<^verbatim>\<open>Jet_Ring_Buffer\<close>: the classes of
    \<^verbatim>\<open>_core.pyx\<close>; \<^verbatim>\<open>Jet_Ring_Buffer\<close> also has the pure-Python class of \<^verbatim>\<open>buffer.py\<close>, whose message
    buffer is \<^verbatim>\<open>Jet_Message_Buffer\<close>. \<^verbatim>\<open>Jet_Core_Frame\<close> has the compiled frame class, which agrees with the
    one of \<^verbatim>\<open>types.py\<close>.
  \<^item> \<^verbatim>\<open>Jet_Uri\<close>, \<^verbatim>\<open>Jet_Query\<close>: \<^verbatim>\<open>transport/uri.py\<close>. \<^verbatim>\<open>Jet_Transport_Config\<close>:
    \<^verbatim>\<open>transport/base.py\<close> and the handshake steps that both transports share. \<^verbatim>\<open>Jet_Async_Transport\<close> and
    \<^verbatim>\<open>Jet_Connect\<close>: \<^verbatim>\<open>transport/_async.py\<close>.
    \<^verbatim>\<open>Jet_Sync_Transport\<close>: \<^verbatim>\<open>transport/_sync.py\<close>.
  \<^item> \<^verbatim>\<open>Jet_Delivery\<close>: what the two transports promise, as locales \<^verbatim>\<open>message_sender\<close>, \<^verbatim>\<open>message_receiver\<close>
    and \<^verbatim>\<open>message_pair\<close>, interpreted on both of them and on the two mixed pairs.
  \<^item> \<^verbatim>\<open>Jet_Manager\<close> (operations), \<^verbatim>\<open>Jet_Lifecycle\<close> (what sequences of them do), \<^verbatim>\<open>Jet_Replay\<close>
    (buffer and replay over many connections) and \<^verbatim>\<open>Jet_Concurrency\<close> (the tasks and calls as a step
    relation): \<^verbatim>\<open>manager.py\<close>.
  \<^item> \<^verbatim>\<open>Jet_Pool\<close>, on \<^verbatim>\<open>Jet_Url_Join\<close> (\<^verbatim>\<open>urlparse\<close> and \<^verbatim>\<open>urljoin\<close>): \<^verbatim>\<open>pool.py\<close>. \<^verbatim>\<open>Jet_Pool_System\<close>:
    the pool with its managers and all their tasks, which implements \<^verbatim>\<open>Jet_Pool\<close>. \<^verbatim>\<open>Jet_Multiplex\<close>: \<^verbatim>\<open>multiplex.py\<close>.
    \<^verbatim>\<open>Jet_Sync_Client\<close> (operations) and \<^verbatim>\<open>Jet_Client_System\<close> (its threads as a step relation):
    \<^verbatim>\<open>sync_client.py\<close>. \<^verbatim>\<open>Jet_Wrappers\<close>: \<^verbatim>\<open>presets.py\<close> and \<^verbatim>\<open>typed.py\<close>. \<^verbatim>\<open>Jet_Package\<close>: \<^verbatim>\<open>__init__.py\<close>.
  \<^item> \<^verbatim>\<open>Jet_Stack\<close>: manager, asyncio transport and blocking client put together, from one application's
    \<^verbatim>\<open>send\<close> to the other's \<^verbatim>\<open>recv\<close>. \<^verbatim>\<open>Jet_Mux_Stack\<close>: the same up to the subscriptions of a multiplexer.
  \<^item> This theory: properties that span the transport and the manager.

  \<^bold>\<open>How the code is read.\<close> An object is a record, a method a function on it that returns the new state
  and, where it can raise, a sum or an \<^verbatim>\<open>outcome\<close>. A coroutine is cut at the points where it really
  suspends; each piece is one function, and the step relations interleave the pieces of all tasks.
  What comes from outside is an argument with no made-up definition: masking keys and handshake
  keys (\<^verbatim>\<open>os.urandom\<close>), random draws of the jitter, clock readings, the effect of user handlers, the
  serializers, \<^verbatim>\<open>zlib\<close> (its round-trip law is the named hypothesis \<^verbatim>\<open>zlib_ok\<close>, shown satisfiable by
  \<^verbatim>\<open>stored_zlib\<close>), pydantic, what the name resolver, the sockets and TLS report, and the checks of
  \<^verbatim>\<open>urlsplit\<close> on network locations with brackets or outside ASCII. Floats are rationals; where the size
  of a double shows (the overflow of \<^verbatim>\<open>**\<close>) it is written out. Lengths and masks are at their machine
  width. No definition uses fuel: loops are structural recursion or functions with a termination
  proof by a measure (the bytes still to read, the items still stored, the length still to write).

  \<^bold>\<open>What is shown.\<close>
  \<^item> Bytes: frames survive encoding, any chunking and parsing; the parser is bounded; masking at
    word width equals the byte-wise definition; the ring buffers refine a bounded queue; matching
    deflaters recover every sequence of messages.
  \<^item> Connecting: every string is parsed into a valid URI or refused with \<^verbatim>\<open>ValueError\<close>; printed URIs
    parse back; a conforming server accepts the request and its answer is accepted; \<^verbatim>\<open>connect\<close>
    reaches a connected transport and loses none of the bytes that follow the answer.
  \<^item> Delivery: messages sent over either transport, through the blocking client, and through the whole
    stack of serializer, manager, transports, message loop and client arrive complete and in order,
    in every interleaving of the client's threads; pings are answered; a close frame ends the connection.
  \<^item> Lifecycle: in every interleaving the state events are truthful and a closed manager stays closed;
    the manager gives up after the configured number of attempts; what the replay of each connection
    sends and from where it resumes is a function of what arrived before; delays are bounded; the heartbeat
    reports a timeout exactly when a ping goes unanswered; the pool's connections are used
    exclusively, a connection closed in time never comes back, and a relative reference never leaves
    the pool's server; subscriptions get the messages of their channels.
  \<^item> Where the code does not do what it means to, the theorem states what it does: pongs that never
    reach the heartbeat, lost wake-ups, ignored close codes and HTTP status codes, exceptions that
    bypass the reconnection, a \<^verbatim>\<open>run\<close> that returns too early, a graceful close that is reported as a
    loss, permits, connections and frames that get lost, readers that nobody wakes.

  \<^bold>\<open>Not modelled.\<close> Representations for printing, the clean-up at interpreter exit, case mapping outside
  ASCII (except where it produces ASCII), the texts that exceptions interpolate, a JSON
  \<^verbatim>\<open>null\<close> as a message of manager or multiplexer (the ring buffers have it), the examples and the
  build. Handlers observe and do not call back into the manager.
\<close>

section \<open>Properties that span components\<close>

text \<open>
  C32. No frame that the transport's \<^verbatim>\<open>recv\<close> hands to the message loop can answer a ping: with a
  WebSocket-level heartbeat (no application-level pong matcher) handling it leaves the heartbeat as
  it was, whatever arrived on the wire. Pongs end inside \<^verbatim>\<open>recv\<close>, so a ping that the server did
  answer stays unanswered for the manager.
\<close>

theorem pong_never_reaches_heartbeat:
  assumes "recv rand t = (Return f, t') \<or> recv_wake rand t = (Return f, t')" and "no_app_pong w"
  shows "ws_heartbeat (handle_frame now utc f w) = ws_heartbeat w"
proof -
  have "f_opcode f \<noteq> PONG"
    using assms(1) recv_loop_returns [of rand _ t f t'] by (auto simp: recv_def recv_wake_def split: if_splits)
  then show ?thesis
    using assms(2)
    by (auto simp: handle_frame_def Let_def message_error_def deliver_message_def no_app_pong_def
        on_application_message_def split: sum.split option.split)
qed

theorem pong_never_reaches_heartbeat_witness:
  "ws_heartbeat (handle_frame 1 1 (mk_frame TEXT [65] True False) demo_ws) = None"
proof -
  let ?t = "with_proto (push_frame (mk_frame TEXT [65] True False)) sample_transport"
  have "recv (\<lambda>_. []) ?t = (Return (mk_frame TEXT [65] True False), with_proto (\<lambda>p. p\<lparr>pr_frames := []\<rparr>) ?t)"
    by (simp add: recv_def sample_transport_def new_protocol_def push_frame_def)
  from pong_never_reaches_heartbeat [OF disjI1 [OF this], of demo_ws 1 1] show ?thesis by (simp add: no_app_pong_def)
qed

text \<open>
  C33. The server's close code does not reach the decision to reconnect: whatever code the close frame
  carries, those that the manager lists as fatal (1008, 4401, 4403) included, \<^verbatim>\<open>recv\<close> raises an
  exception without it, the manager records code 1006 and backs off for another attempt.
\<close>

theorem server_close_code_ignored:
  assumes "at_connected t" and "at_attached t" and "\<not> at_closing t"
    and "pr_frames (at_proto t) = f # fs" and "f_opcode f = CLOSE" and "recv rand t = (Raise e, t')"
    and "retrying k a w" and "a < k"
  shows "ws_state (snd (recv_failed now rnd e w)) = BACKING_OFF
     \<and> (\<exists>d. fst (recv_failed now rnd e w) = NSleep d)
     \<and> DisconnectedEvent 1006 ''Connection closed by remote'' False \<in> set (ws_events (snd (recv_failed now rnd e w)))"
proof -
  have e: "e = ConnectionError ''Connection closed by remote''"
    using recv_close_raises [OF assms(1-5), of rand] assms(6) by simp
  have ev: "set (ws_events v) \<subseteq> set (ws_events (snd (schedule_reconnect rnd v)))" for v :: "('c, 'd) ws"
    by (auto simp: schedule_reconnect_def Let_def split: sum.split)
  from recv_failed_retrying [OF assms(7), of now rnd e] obtain w0 where
    w0: "recv_failed now rnd e w = schedule_reconnect rnd w0" "retrying k a w0" by blast
  have "DisconnectedEvent 1006 ''Connection closed by remote'' False \<in> set (ws_events (snd (recv_failed now rnd e w)))"
    using assms(7) ev
    by (force simp: e recv_failed_def handle_disconnect_def Let_def retrying_def is_fatal_code_def FATAL_WS_CODES_def)
  with schedule_reconnect_retrying [OF w0(2) assms(8), of rnd] w0(1) show ?thesis by auto
qed

theorem server_close_code_ignored_witness:
  "ws_state (snd (recv_failed 0 0 (ConnectionError ''Connection closed by remote'') connecting_demo)) = BACKING_OFF"
proof -
  let ?t = "with_proto (push_frame (mk_frame CLOSE [0x03, 0xF0] True False)) sample_transport"
  have t: "at_connected ?t" "at_attached ?t" "\<not> at_closing ?t"
      "pr_frames (at_proto ?t) = [mk_frame CLOSE [0x03, 0xF0] True False]"
    by (simp_all add: sample_transport_def new_protocol_def push_frame_def)
  obtain t' where r: "recv (\<lambda>_. [1, 2, 3, 4]) ?t = (Raise (ConnectionError ''Connection closed by remote''), t')"
    using recv_close_raises [OF t, of "\<lambda>_. [1, 2, 3, 4]"] by (cases "recv (\<lambda>_. [1, 2, 3, 4]) ?t") auto
  from server_close_code_ignored [OF t _ r connecting_demo_retrying, of 0 0] show ?thesis by simp
qed

text \<open>
  A refused handshake is retried: for any response with a status other than 101, the ones that the
  manager lists as fatal (401, 403, 404, 410) included, the transport raises a \<^verbatim>\<open>HandshakeError\<close>
  without the status code, which \<^verbatim>\<open>_is_fatal_error\<close> does not recognise, and the manager backs off
  for another attempt.
\<close>

theorem refused_handshake_retried:
  assumes "ac_handshake c = Some h" and "header_block (status_line n reason # ls)" and "n \<noteq> 101"
    and "retrying k a w" and "a < k"
  shows "\<exists>e. handshake_response z rand session (utf8_encode (join CRLF ((status_line n reason # ls) @ [[], []])) @ body) c
           = (Raise e, drop_connection c)
     \<and> \<not> is_fatal_error e \<and> ws_state (snd (connect_failed rnd e w)) = BACKING_OFF"
proof -
  let ?e = "HandshakeError ''HTTP status'' None []"
  have "handshake_response z rand session (utf8_encode (join CRLF ((status_line n reason # ls) @ [[], []])) @ body) c
      = (Raise ?e, drop_connection c)"
    using assms(1) other_status_refused [OF assms(2,3), of h body]
    by (simp add: handshake_response_def check_response_def error_text_def)
  moreover have re: "retryable ?e" by (simp add: retryable_def is_fatal_error_def)
  moreover from connect_failed_retryable [OF assms(4) re, of rnd] obtain w0 where
    "connect_failed rnd ?e w = schedule_reconnect rnd w0" "retrying k a w0" by blast
  with schedule_reconnect_retrying [OF _ assms(5), of w0 rnd] have "ws_state (snd (connect_failed rnd ?e w)) = BACKING_OFF" by auto
  ultimately show ?thesis by (auto simp: retryable_def)
qed

theorem refused_handshake_retried_witness:
  "\<exists>e. handshake_response stored_zlib (\<lambda>_. []) None
         (utf8_encode (join CRLF ((status_line 401 (lit ''Unauthorized'') # []) @ [[], []])) @ [])
         (local_conn\<lparr>ac_handshake := Some sample_handshake\<rparr>)
       = (Raise e, drop_connection (local_conn\<lparr>ac_handshake := Some sample_handshake\<rparr>))
     \<and> \<not> is_fatal_error e \<and> ws_state (snd (connect_failed 0 e connecting_demo)) = BACKING_OFF"
proof -
  have "list_all is_digit (decimal 401)" by (rule decimal_digits)
  then have "clean (decimal 401)" by (auto simp: clean_def list_all_iff is_digit_def scalar_value_def)
  then have "header_block [status_line 401 (lit ''Unauthorized'')]" by (simp add: header_block_def status_line_def)
  then show ?thesis
    by (intro refused_handshake_retried [where h = sample_handshake, OF _ _ _ connecting_demo_retrying]) simp_all
qed

text \<open>
  A connection that breaks during the handshake is not retried: the event loop reports the loss
  with an \<^verbatim>\<open>OSError\<close> (a reset by the peer, for example), \<^verbatim>\<open>connect\<close> of the transport raises it as it
  is, and the manager, which handles only the library's own exceptions, lets it pass with its
  state unchanged: no error event, no attempt to reconnect.
\<close>

theorem reset_during_handshake_escapes:
  assumes "pr_handshake_future (at_proto (ac_transport c)) = FuturePending"
  shows "handshake_resume z rand session (proto_event (connection_lost (Some (OSError m))) c)
       = (Raise (OSError m), drop_connection (proto_event (connection_lost (Some (OSError m))) c))
     \<and> connect_failed rnd (OSError m) w = (NRaise (OSError m), w)"
  using assms by (simp add: handshake_resume_def proto_event_def connection_lost_def connect_failed_def Let_def)

theorem reset_during_handshake_escapes_witness:
  "fst (handshake_resume stored_zlib (\<lambda>_. []) None (proto_event (connection_lost (Some (OSError ''reset'')))
      (proto_event (\<lambda>p. p\<lparr>pr_handshake_future := FuturePending\<rparr>) local_conn))) = Raise (OSError ''reset'')
   \<and> connect_failed 0 (OSError ''reset'') connecting_demo = (NRaise (OSError ''reset''), connecting_demo)"
proof -
  let ?c = "proto_event (\<lambda>p. p\<lparr>pr_handshake_future := FuturePending\<rparr>) local_conn"
  have "pr_handshake_future (at_proto (ac_transport ?c)) = FuturePending" by (simp add: proto_event_def)
  from reset_during_handshake_escapes [OF this, where m = "''reset''" and z = stored_zlib and rand = "\<lambda>_. []"
      and session = None and rnd = 0 and w = connecting_demo] show ?thesis by simp
qed

text \<open>The error counter: only \<^verbatim>\<open>record_error\<close> moves it.\<close>

lemma errors_counted [simp]:
  "st_errors (ws_stats (set_state s w)) = st_errors (ws_stats w)"
  "st_errors (ws_stats (emit ev w)) = st_errors (ws_stats w)"
  "st_errors (mark_disconnected st) = st_errors st" "st_errors (record_error st) = st_errors st + 1"
  by (simp_all add: set_state_def stats_set_state_def mark_disconnected_def record_error_def)

text \<open>
  C35. A graceful close is reported as a loss. While \<^verbatim>\<open>close\<close> waits for the peer's close frame the message
  loop still waits in \<^verbatim>\<open>recv\<close> on the same event; when the frame arrives \<^verbatim>\<open>recv\<close>, which waited first,
  takes it and raises, and the transport's \<^verbatim>\<open>close\<close> finds nothing left and returns. The manager then
  counts an error, emits \<^verbatim>\<open>disconnected\<close> with code 1006 and \<^verbatim>\<open>was_clean = False\<close>, and emits \<^verbatim>\<open>closed\<close>
  twice, first with 1006 and then with the code that the user gave.
\<close>

theorem graceful_close_reports_loss:
  fixes w :: "('m, 's) ws" and t :: "('c, 'd) async_transport"
  assumes "close rand code pyreason t = (Waiting, t1)"
    and "f_opcode f = CLOSE" and "pr_frames (at_proto t) = []"
    and "recv_wake rand (with_proto (push_frame f) t1) = (outcome1, t2)"
    and "ws_state w = CONNECTED"
  shows "outcome1 = Raise (ConnectionError ''Connection closed by remote'') \<and> fst (close_wake t2) = Return ()
    \<and> (\<exists>w1 w2 w3.
        sys_step (w, [(MessageLoop i, AtRecv)]) (w1, [(MessageLoop i, AtRecv), (User, AtClose code reason)])
        \<and> recv_failed now rnd (ConnectionError ''Connection closed by remote'') w1 = (NDone, w2)
        \<and> sys_step (w1, [(MessageLoop i, AtRecv), (User, AtClose code reason)]) (w2, [(User, AtClose code reason)])
        \<and> sys_step (w2, [(User, AtClose code reason)]) (w3, [])
        \<and> ws_events w3 = ws_events w
            @ [ClosingEvent code reason Local, StateChangeEvent CONNECTED DISCONNECTING,
               StateChangeEvent DISCONNECTING DISCONNECTED, DisconnectedEvent 1006 ''Connection closed by remote'' False,
               StateChangeEvent DISCONNECTED CLOSED, ClosedEvent 1006 ''Connection closed by remote'' False,
               ClosedEvent code reason False]
        \<and> st_errors (ws_stats w3) = st_errors (ws_stats w) + 1)"
proof -
  let ?e = "ConnectionError ''Connection closed by remote''"
  have t1: "at_closing t1" "at_connected t1" "at_attached t1" "pr_frames (at_proto t1) = []"
    using assms(1,3) by (auto simp: close_def draw_key_def wait_for_close_def close_finish_def Let_def split: if_splits sum.splits)
  with assms(2,4) have tr: "outcome1 = Raise ?e" "pr_frames (at_proto t2) = []" "\<not> at_connected t2"
    by (auto simp: recv_wake_def push_frame_def recv_close_frame_def close_transport_def remote_closed_def Let_def)
  then have closed: "fst (close_wake t2) = Return ()"
    by (simp add: close_wake_def wait_for_close_def close_finish_def Let_def)
  obtain w1 where c: "close_begin code reason w = (True, w1)"
    and w1: "ws_state w1 = DISCONNECTING" "ws_user_closed w1" "st_errors (ws_stats w1) = st_errors (ws_stats w)"
      "ws_events w1 = ws_events w @ [ClosingEvent code reason Local, StateChangeEvent CONNECTED DISCONNECTING]"
    using assms(5) by (simp add: close_begin_def Let_def is_terminal_def set_state_def stats_set_state_def)
  obtain n w2 where f: "recv_failed now rnd ?e w1 = (n, w2)" by fastforce
  with w1 have n: "n = NDone"
    and w2: "ws_state w2 = CLOSED" "st_errors (ws_stats w2) = st_errors (ws_stats w1) + 1"
      "ws_events w2 = ws_events w1 @ [StateChangeEvent DISCONNECTING DISCONNECTED,
         DisconnectedEvent 1006 ''Connection closed by remote'' False,
         StateChangeEvent DISCONNECTED CLOSED, ClosedEvent 1006 ''Connection closed by remote'' False]"
    by (auto simp: recv_failed_def handle_disconnect_def Let_def)
  have "sys_step (w, [(MessageLoop i, AtRecv)]) (w1, [(MessageLoop i, AtRecv), (User, AtClose code reason)])"
    using sys_step.user_close [OF c, of "[(MessageLoop i, AtRecv)]"] by simp
  moreover have "sys_step (w1, [(MessageLoop i, AtRecv), (User, AtClose code reason)]) (w2, [(User, AtClose code reason)])"
    using sys_step.recv_fails [OF f, of "[]" "MessageLoop i" "[(User, AtClose code reason)]"] by (simp add: n park_def)
  moreover have "sys_step (w2, [(User, AtClose code reason)]) (close_end code reason w2, [])"
    using sys_step.close_ends [of w2 "[]" User code reason "[]"]
    by (simp add: cancel_message_task_def split: option.splits)
  moreover have "ws_events (close_end code reason w2) = ws_events w2 @ [ClosedEvent code reason False]"
      "st_errors (ws_stats (close_end code reason w2)) = st_errors (ws_stats w) + 1"
    using w1 w2 by (simp_all add: close_end_def Let_def)
  ultimately show ?thesis using tr closed f n w1 w2 by fastforce
qed

theorem graceful_close_reports_loss_witness:
  "fst (recv_wake (\<lambda>_. [1, 2, 3, 4]) (with_proto (push_frame (mk_frame CLOSE [0x03, 0xE8] True False))
      (snd (close (\<lambda>_. [1, 2, 3, 4]) 1000 [] sample_transport)))) = Raise (ConnectionError ''Connection closed by remote'')"
proof -
  let ?t1 = "snd (close (\<lambda>_. [1, 2, 3, 4]) 1000 [] sample_transport)"
  have c: "close (\<lambda>_. [1, 2, 3, 4]) 1000 [] sample_transport = (Waiting, ?t1)"
    by (simp add: close_def draw_key_def wait_for_close_def encode_close_def struct_pack_H_def str_encode_def
        sample_transport_def new_protocol_def Let_def)
  obtain r t2 where r: "recv_wake (\<lambda>_. [1, 2, 3, 4]) (with_proto (push_frame (mk_frame CLOSE [0x03, 0xE8] True False)) ?t1) = (r, t2)"
    by fastforce
  from graceful_close_reports_loss [OF c _ _ r, of "demo_ws\<lparr>ws_state := CONNECTED\<rparr>"] r
  show ?thesis by (simp add: sample_transport_def new_protocol_def)
qed

end
